(* ===== verification/Kwaai_Prelude.thy ===== *)
theory Kwaai_Prelude
  imports Main "HOL-Library.Word" "HOL-Library.AList" "HOL-Library.Countable"
begin

text \<open>
  Shared vocabulary of the development: the Rust types and the parts of Rust's standard
  library the components use.

  \<^item> Integers: \<open>u8\<close>, \<open>u32\<close>, \<open>u64\<close>, \<open>i64\<close> are words (a signed one is read by \<open>sint\<close>); a \<open>usize\<close> that only counts or indexes
    in-memory data is a \<open>nat\<close>.
  \<^item> \<open>Result\<close> is the sum type with \<open>Inl\<close> the error; \<open>Option\<close> is \<open>option\<close>.
  \<^item> \<open>HashMap\<close> is an association list with at most one entry per key. Its order stands for
    the unspecified iteration order, so a theorem that holds for every such list holds for
    every iteration order. The operations satisfy the laws of the locale \<open>hash_map\<close>.
  \<^item> Byte strings are lists of \<open>u8\<close>; \<open>to_be_bytes\<close> and \<open>from_be_bytes\<close> are defined on
    them with their round trip.
  \<^item> \<open>read_exact\<close> on a reader whose remaining input is a byte list.
\<close>

section \<open>Integers, bytes and results\<close>

type_synonym u8 = "8 word"
type_synonym u16 = "16 word"
type_synonym u32 = "32 word"
type_synonym u64 = "64 word"
type_synonym i64 = "64 word"
type_synonym bytes = "u8 list"

named_theorems rust_simps \<open>equations of the modelled standard library\<close>

text \<open>Handlers return tuples; proofs read their components with \<open>fst\<close> and \<open>snd\<close>.\<close>

lemmas pair_simps = Let_def case_prod_beta

text \<open>\<open>usize::saturating_sub\<close> on values that fit is truncated subtraction of \<open>nat\<close>.\<close>

abbreviation saturating_sub :: "nat \<Rightarrow> nat \<Rightarrow> nat" where
  "saturating_sub a b \<equiv> a - b"

text \<open>Big-endian bytes of a natural number, \<open>n\<close> of them, most significant first.\<close>

fun be_bytes :: "nat \<Rightarrow> nat \<Rightarrow> bytes" where
  "be_bytes 0 v = []"
| "be_bytes (Suc n) v = be_bytes n (v div 256) @ [word_of_nat v]"

fun be_value :: "nat \<Rightarrow> bytes \<Rightarrow> nat" where
  "be_value acc [] = acc"
| "be_value acc (b # bs) = be_value (acc * 256 + unat b) bs"

text \<open>\<open>u64::to_be_bytes\<close> and \<open>u64::from_be_bytes\<close> (the latter on an eight-byte array).\<close>

definition u64_to_be_bytes :: "u64 \<Rightarrow> bytes" where
  "u64_to_be_bytes w = be_bytes 8 (unat w)"

definition u64_from_be_bytes :: "bytes \<Rightarrow> u64" where
  "u64_from_be_bytes bs = word_of_nat (be_value 0 bs)"

lemma length_be_bytes [simp]: "length (be_bytes n v) = n"
  by (induction n arbitrary: v) auto

lemma be_value_append [simp]: "be_value acc (xs @ ys) = be_value (be_value acc xs) ys"
  by (induction xs arbitrary: acc) auto

lemma unat_byte_of_nat [simp]: "unat (word_of_nat v :: u8) = v mod 256"
  by (simp add: unat_of_nat)

lemma be_value_be_bytes: "be_value 0 (be_bytes n v) = v mod 256 ^ n"
proof (induction n arbitrary: v)
  case 0
  then show ?case by simp
next
  case (Suc n)
  have "v div 256 mod 256 ^ n * 256 + v mod 256 = v mod 256 ^ Suc n"
    by (metis add.commute mod_mult2_eq mult.commute power_Suc)
  with Suc show ?case by simp
qed

lemma length_u64_to_be_bytes [simp]: "length (u64_to_be_bytes w) = 8"
  by (simp add: u64_to_be_bytes_def)

lemma u64_be_roundtrip [simp]: "u64_from_be_bytes (u64_to_be_bytes w) = w"
proof -
  have "unat w < 2 ^ LENGTH(64)" by (rule unsigned_less)
  then have "unat w mod 256 ^ 8 = unat w" by simp
  then show ?thesis
    by (simp add: u64_from_be_bytes_def u64_to_be_bytes_def be_value_be_bytes del: be_bytes.simps)
qed

text \<open>\<open>u32::to_le_bytes\<close>, \<open>u32::from_le_bytes\<close> and \<open>chunks_exact(4)\<close>.\<close>

definition u32_to_le_bytes :: "u32 \<Rightarrow> bytes" where
  "u32_to_le_bytes w = rev (be_bytes 4 (unat w))"

definition u32_from_le_bytes :: "bytes \<Rightarrow> u32" where
  "u32_from_le_bytes bs = word_of_nat (be_value 0 (rev bs))"

fun chunks4 :: "bytes \<Rightarrow> bytes list" where
  "chunks4 (a # b # c # d # rest) = [a, b, c, d] # chunks4 rest"
| "chunks4 _ = []"

lemma u32_le_roundtrip [simp]: "u32_from_le_bytes (u32_to_le_bytes w) = w"
proof -
  have "unat w < 2 ^ LENGTH(32)" by (rule unsigned_less)
  then have "unat w mod 256 ^ 4 = unat w" by simp
  then show ?thesis
    by (simp add: u32_from_le_bytes_def u32_to_le_bytes_def be_value_be_bytes del: be_bytes.simps)
qed

lemma length_u32_to_le_bytes [simp]: "length (u32_to_le_bytes w) = 4"
  by (simp add: u32_to_le_bytes_def)

lemma chunks4_append: "length a = 4 \<Longrightarrow> chunks4 (a @ bs) = a # chunks4 bs"
  by (auto simp: length_Suc_conv numeral_eq_Suc)

lemma chunks4_concat: "chunks4 (concat (map u32_to_le_bytes ws)) = map u32_to_le_bytes ws"
  by (induction ws) (simp_all add: chunks4_append)

text \<open>The two bytes of an \<open>f16\<close>, which is kept as its bit pattern, and \<open>chunks_exact(2)\<close>.\<close>

definition u16_to_le_bytes :: "u16 \<Rightarrow> bytes" where
  "u16_to_le_bytes w = rev (be_bytes 2 (unat w))"

definition u16_from_le_bytes :: "bytes \<Rightarrow> u16" where
  "u16_from_le_bytes bs = word_of_nat (be_value 0 (rev bs))"

fun chunks2 :: "bytes \<Rightarrow> bytes list" where
  "chunks2 (a # b # rest) = [a, b] # chunks2 rest"
| "chunks2 _ = []"

lemma u16_le_roundtrip [simp]: "u16_from_le_bytes (u16_to_le_bytes w) = w"
proof -
  have "unat w < 2 ^ LENGTH(16)" by (rule unsigned_less)
  then have "unat w mod 256 ^ 2 = unat w" by simp
  then show ?thesis
    by (simp add: u16_from_le_bytes_def u16_to_le_bytes_def be_value_be_bytes del: be_bytes.simps)
qed

lemma length_u16_to_le_bytes [simp]: "length (u16_to_le_bytes w) = 2"
  by (simp add: u16_to_le_bytes_def)

lemma chunks2_append: "length a = 2 \<Longrightarrow> chunks2 (a @ bs) = a # chunks2 bs"
  by (auto simp: length_Suc_conv numeral_eq_Suc)

lemma chunks2_concat: "chunks2 (concat (map u16_to_le_bytes ws)) = map u16_to_le_bytes ws"
  by (induction ws) (simp_all add: chunks2_append)

section \<open>Vectors\<close>

text \<open>\<open>slice::get\<close>: the element, or \<open>None\<close> out of range.\<close>

definition vec_get :: "'a list \<Rightarrow> nat \<Rightarrow> 'a option" where
  "vec_get xs i = (if i < length xs then Some (xs ! i) else None)"

text \<open>Indexed assignment \<open>v[i] = x\<close>: \<open>None\<close> is the panic out of range.\<close>

definition vec_set :: "'a list \<Rightarrow> nat \<Rightarrow> 'a \<Rightarrow> 'a list option" where
  "vec_set xs i v = (if i < length xs then Some (xs[i := v]) else None)"

definition unwrap_or :: "'a option \<Rightarrow> 'a \<Rightarrow> 'a" where
  "unwrap_or x d = (case x of Some v \<Rightarrow> v | None \<Rightarrow> d)"

lemma unwrap_or_simps [simp]: "unwrap_or (Some v) d = v" "unwrap_or None d = d"
  by (simp_all add: unwrap_or_def)

lemma vec_get_map: "vec_get (map f xs) i = map_option f (vec_get xs i)"
  by (simp add: vec_get_def)

lemma vec_get_Cons [simp]: "vec_get (x # xs) 0 = Some x" "vec_get (x # xs) (Suc i) = vec_get xs i"
  by (simp_all add: vec_get_def)

section \<open>Reading from a byte stream\<close>

datatype io_error = UnexpectedEof | InvalidData string | OtherError string

text \<open>
  \<open>AsyncReadExt::read_exact\<close>: the next \<open>n\<close> bytes and the rest of the stream, or
  \<open>UnexpectedEof\<close> when fewer remain.
\<close>

definition read_exact :: "nat \<Rightarrow> bytes \<Rightarrow> io_error + (bytes \<times> bytes)" where
  "read_exact n input =
     (if length input < n then Inl UnexpectedEof else Inr (take n input, drop n input))"

lemma read_exact_append [rust_simps]:
  "length xs = n \<Longrightarrow> read_exact n (xs @ ys) = Inr (xs, ys)"
  by (simp add: read_exact_def)

lemma read_exact_SomeD:
  "read_exact n input = Inr (xs, ys) \<Longrightarrow> input = xs @ ys \<and> length xs = n"
  by (auto simp: read_exact_def split: if_splits)

text \<open>A \<open>Uuid\<close> is its sixteen bytes.\<close>

type_synonym uuid = bytes

definition uuid_from_slice :: "bytes \<Rightarrow> uuid option" where
  "uuid_from_slice b = (if length b = 16 then Some b else None)"

section \<open>HashMap\<close>

type_synonym ('k, 'v) hashmap = "('k \<times> 'v) list"

text \<open>The laws a client of \<open>HashMap\<close> relies on: each operation read through \<open>get\<close>.\<close>

locale hash_map =
  fixes wf :: "'m \<Rightarrow> bool"
    and empty :: "'m"
    and get :: "'m \<Rightarrow> 'k \<Rightarrow> 'v option"
    and insert :: "'k \<Rightarrow> 'v \<Rightarrow> 'm \<Rightarrow> 'm"
    and remove :: "'k \<Rightarrow> 'm \<Rightarrow> 'm"
    and size_of :: "'m \<Rightarrow> nat"
  assumes wf_empty: "wf empty"
    and wf_insert: "wf m \<Longrightarrow> wf (insert k v m)"
    and wf_remove: "wf m \<Longrightarrow> wf (remove k m)"
    and get_empty: "get empty k = None"
    and get_insert: "get (insert k v m) k' = (if k' = k then Some v else get m k')"
    and get_remove: "wf m \<Longrightarrow> get (remove k m) k' = (if k' = k then None else get m k')"
    and size_dom: "wf m \<Longrightarrow> size_of m = card (dom (get m))"
    and finite_dom: "finite (dom (get m))"
begin

lemma size_insert:
  assumes "wf m"
  shows "size_of (insert k v m) = (if get m k = None then Suc (size_of m) else size_of m)"
proof -
  have "dom (get (insert k v m)) = Set.insert k (dom (get m))"
    by (auto simp: get_insert split: if_splits)
  then show ?thesis
    using assms by (simp add: size_dom wf_insert card_insert_if finite_dom domIff)
qed

lemma size_remove:
  assumes "wf m"
  shows "size_of (remove k m) = (if get m k = None then size_of m else size_of m - 1)"
proof -
  have "dom (get (remove k m)) = dom (get m) - {k}"
    using assms by (auto simp: get_remove split: if_splits)
  then show ?thesis
    using assms by (simp add: size_dom wf_remove card_Diff_singleton_if domIff)
qed

lemma size_pos: "wf m \<Longrightarrow> get m k = Some v \<Longrightarrow> 0 < size_of m"
  using finite_dom [of m] by (auto simp: size_dom card_gt_0_iff dom_def)

end

definition hm_wf :: "('k, 'v) hashmap \<Rightarrow> bool" where
  "hm_wf m \<longleftrightarrow> distinct (map fst m)"

definition hm_get :: "('k, 'v) hashmap \<Rightarrow> 'k \<Rightarrow> 'v option" where
  "hm_get m k = map_of m k"

definition hm_insert :: "'k \<Rightarrow> 'v \<Rightarrow> ('k, 'v) hashmap \<Rightarrow> ('k, 'v) hashmap" where
  "hm_insert k v m = AList.update k v m"

definition hm_remove :: "'k \<Rightarrow> ('k, 'v) hashmap \<Rightarrow> ('k, 'v) hashmap" where
  "hm_remove k m = AList.delete k m"

text \<open>\<open>HashMap::retain\<close>, \<open>len\<close>, \<open>keys\<close> and \<open>values\<close>.\<close>

definition hm_retain :: "('k \<Rightarrow> 'v \<Rightarrow> bool) \<Rightarrow> ('k, 'v) hashmap \<Rightarrow> ('k, 'v) hashmap" where
  "hm_retain p m = filter (\<lambda>(k, v). p k v) m"

definition hm_len :: "('k, 'v) hashmap \<Rightarrow> nat" where
  "hm_len m = length m"

definition hm_values :: "('k, 'v) hashmap \<Rightarrow> 'v list" where
  "hm_values m = map snd m"

lemma hm_wf_Nil [simp]: "hm_wf []"
  by (simp add: hm_wf_def)

lemma hm_get_Nil [simp]: "hm_get [] k = None"
  by (simp add: hm_get_def)

lemma hm_wf_insert [simp]: "hm_wf m \<Longrightarrow> hm_wf (hm_insert k v m)"
  by (simp add: hm_wf_def hm_insert_def distinct_update)

lemma hm_wf_remove [simp]: "hm_wf m \<Longrightarrow> hm_wf (hm_remove k m)"
  by (simp add: hm_wf_def hm_remove_def distinct_delete)

lemma hm_get_insert [simp]: "hm_get (hm_insert k v m) k' = (if k' = k then Some v else hm_get m k')"
  by (simp add: hm_get_def hm_insert_def update_conv')

lemma hm_get_remove [simp]: "hm_get (hm_remove k m) k' = (if k' = k then None else hm_get m k')"
  by (simp add: hm_get_def hm_remove_def delete_conv')

lemma hm_get_in_set: "hm_wf m \<Longrightarrow> hm_get m k = Some v \<longleftrightarrow> (k, v) \<in> set m"
  by (auto simp: hm_wf_def hm_get_def)

lemma hm_keys_get: "k \<in> fst ` set m \<longleftrightarrow> hm_get m k \<noteq> None"
  by (auto simp: hm_get_def map_of_eq_None_iff)

lemma hm_dom: "dom (hm_get m) = set (map fst m)"
  by (simp add: hm_get_def [abs_def] dom_map_of_conv_image_fst)

lemma hm_len_card: "hm_wf m \<Longrightarrow> hm_len m = card (dom (hm_get m))"
  using distinct_card [of "map fst m"] by (simp add: hm_dom hm_len_def hm_wf_def)

interpretation hm: hash_map hm_wf "[]" hm_get hm_insert hm_remove hm_len
  by unfold_locales (simp_all add: hm_len_card hm_dom)

lemma hm_set_insert:
  assumes "hm_wf m"
  shows "set (hm_insert k v m) = insert (k, v) {x \<in> set m. fst x \<noteq> k}"
proof -
  have "x \<in> set (hm_insert k v m) \<longleftrightarrow> x \<in> insert (k, v) {x \<in> set m. fst x \<noteq> k}" for x
    using hm_get_in_set [OF hm_wf_insert [OF assms], of k v "fst x" "snd x"] hm_get_in_set [OF assms, of "fst x" "snd x"]
    by (cases x) (auto split: if_splits)
  then show ?thesis by blast
qed

lemma hm_wf_retain [simp]: "hm_wf m \<Longrightarrow> hm_wf (hm_retain p m)"
  by (auto simp: hm_wf_def hm_retain_def distinct_map inj_on_def)

lemma hm_get_retain:
  assumes "hm_wf m"
  shows "hm_get (hm_retain p m) k =
    (case hm_get m k of None \<Rightarrow> None | Some v \<Rightarrow> if p k v then Some v else None)"
proof (cases "hm_get (hm_retain p m) k")
  case None
  then have "(k, v) \<in> set m \<Longrightarrow> \<not> p k v" for v
    using hm_get_in_set [OF hm_wf_retain [OF assms], of p k v] by (simp add: hm_retain_def)
  with None show ?thesis
    using hm_get_in_set [OF assms] by (simp split: option.splits)
next
  case (Some v)
  then have "(k, v) \<in> set m" "p k v"
    using hm_get_in_set [OF hm_wf_retain [OF assms], of p] by (auto simp: hm_retain_def)
  then have "hm_get m k = Some v"
    using hm_get_in_set [OF assms] by blast
  with Some \<open>p k v\<close> show ?thesis by simp
qed

section \<open>A byte encoding for concrete libraries\<close>

text \<open>Every value of a countable type has a number, and its encoding is that many bytes. Concrete codecs use it.\<close>

definition unary :: "'a :: countable \<Rightarrow> bytes" where
  "unary m = replicate (to_nat m) 0"

definition of_unary :: "bytes \<Rightarrow> string + 'a :: countable" where
  "of_unary bs = Inr (from_nat (length bs))"

lemma of_unary_unary: "of_unary (unary m) = Inr m"
  by (simp add: unary_def of_unary_def)

lemma unary_inj: "unary m = unary n \<longleftrightarrow> m = n"
  by (auto simp: unary_def dest: arg_cong [of _ _ length])

end
