(* ===== verification/Rust_Float.thy ===== *)
theory Rust_Float
  imports Complex_Main "HOL-Library.Log_Nat" "HOL-Library.Word" "HOL-Library.Countable"
begin

text \<open>
  Rust's \<open>f64\<close> and \<open>f32\<close>. A value is NaN, an infinity or a rational number; every arithmetic
  operation rounds its exact result once, to nearest with ties to even, on the grid of
  IEEE 754 binary64 (53 bits of precision, smallest quantum \<open>2 ^ -1074\<close>, overflow to an
  infinity from \<open>2 ^ 1024\<close> on) or binary32 (24 bits, \<open>2 ^ -149\<close>, \<open>2 ^ 128\<close>). The facts about
  rounding are proved once, in the locale \<open>float_format\<close>. The two zeros are identified: they compare equal, and no
  modelled operation divides by a zero whose sign the program can choose. Comparisons with
  NaN are false, \<open>min\<close> and \<open>max\<close> return the other argument, \<open>clamp\<close> returns NaN.

  The main facts: rounding is monotone and fixes 0, 1 and every small dyadic, so the
  interval bounds of scores and weights survive floating-point evaluation.
\<close>

section \<open>Rounding\<close>

text \<open>The largest \<open>k\<close> with \<open>2 ^ k \<le> x\<close>, for positive \<open>x\<close>.\<close>

definition ilog2 :: "rat \<Rightarrow> int" where
  "ilog2 x = (let (a, b) = quotient_of x; k = bitlen a - bitlen b
              in if 2 powi k \<le> x then k else k - 1)"

text \<open>Round to an integer, ties to the even one.\<close>

definition rne :: "rat \<Rightarrow> int" where
  "rne x = (let f = \<lfloor>x\<rfloor>; d = x - of_int f
            in if d < 1 / 2 then f else if 1 / 2 < d then f + 1
               else if even f then f else f + 1)"

text \<open>Exponent of the last place of \<open>x\<close>, and rounding to that place.\<close>

definition quantum_at :: "int \<Rightarrow> int \<Rightarrow> rat \<Rightarrow> int" where
  "quantum_at p emin x = max emin (ilog2 \<bar>x\<bar> - p)"

definition round_at :: "int \<Rightarrow> int \<Rightarrow> rat \<Rightarrow> rat" where
  "round_at p emin x = (if x = 0 then 0
     else of_int (rne (x / 2 powi quantum_at p emin x)) * 2 powi quantum_at p emin x)"

definition fl_round :: "rat \<Rightarrow> rat" where
  "fl_round = round_at 52 (- 1074)"

definition fl32_round :: "rat \<Rightarrow> rat" where
  "fl32_round = round_at 23 (- 149)"

datatype f64 = NaN | PosInf | NegInf | Fin rat

instance f64 :: countable
  by countable_datatype

definition to_f64 :: "rat \<Rightarrow> f64" where
  "to_f64 x = (let r = fl_round x
               in if 2 ^ 1024 \<le> r then PosInf else if r \<le> - (2 ^ 1024) then NegInf else Fin r)"

section \<open>Operations\<close>

fun f64_neg :: "f64 \<Rightarrow> f64" where
  "f64_neg NaN = NaN"
| "f64_neg PosInf = NegInf"
| "f64_neg NegInf = PosInf"
| "f64_neg (Fin a) = Fin (- a)"

fun f64_add :: "f64 \<Rightarrow> f64 \<Rightarrow> f64" where
  "f64_add (Fin a) (Fin b) = to_f64 (a + b)"
| "f64_add NaN _ = NaN"
| "f64_add _ NaN = NaN"
| "f64_add PosInf NegInf = NaN"
| "f64_add NegInf PosInf = NaN"
| "f64_add PosInf _ = PosInf"
| "f64_add NegInf _ = NegInf"
| "f64_add _ PosInf = PosInf"
| "f64_add _ NegInf = NegInf"

definition f64_sub :: "f64 \<Rightarrow> f64 \<Rightarrow> f64" where
  "f64_sub a b = f64_add a (f64_neg b)"

definition inf_of_sign :: "rat \<Rightarrow> f64" where
  "inf_of_sign s = (if 0 < s then PosInf else if s < 0 then NegInf else NaN)"

fun f64_sign :: "f64 \<Rightarrow> rat" where
  "f64_sign NaN = 0"
| "f64_sign PosInf = 1"
| "f64_sign NegInf = - 1"
| "f64_sign (Fin a) = sgn a"

text \<open>An infinity times zero is NaN, times anything else an infinity of the product's sign.\<close>

fun f64_mul :: "f64 \<Rightarrow> f64 \<Rightarrow> f64" where
  "f64_mul (Fin a) (Fin b) = to_f64 (a * b)"
| "f64_mul NaN _ = NaN"
| "f64_mul _ NaN = NaN"
| "f64_mul a b = inf_of_sign (f64_sign a * f64_sign b)"

fun f64_div :: "f64 \<Rightarrow> f64 \<Rightarrow> f64" where
  "f64_div (Fin a) (Fin b) = (if b = 0 then inf_of_sign (sgn a) else to_f64 (a / b))"
| "f64_div NaN _ = NaN"
| "f64_div _ NaN = NaN"
| "f64_div (Fin a) _ = Fin 0"
| "f64_div a (Fin b) = (if b = 0 then a else inf_of_sign (f64_sign a * sgn b))"
| "f64_div _ _ = NaN"

fun f64_lt :: "f64 \<Rightarrow> f64 \<Rightarrow> bool" where
  "f64_lt (Fin a) (Fin b) = (a < b)"
| "f64_lt NaN _ = False"
| "f64_lt _ NaN = False"
| "f64_lt NegInf b = (b \<noteq> NegInf)"
| "f64_lt (Fin _) b = (b = PosInf)"
| "f64_lt PosInf _ = False"

fun f64_eq :: "f64 \<Rightarrow> f64 \<Rightarrow> bool" where
  "f64_eq NaN _ = False"
| "f64_eq a b = (a = b)"

definition f64_le :: "f64 \<Rightarrow> f64 \<Rightarrow> bool" where
  "f64_le a b \<longleftrightarrow> f64_lt a b \<or> f64_eq a b"

text \<open>\<open>a > b\<close> and \<open>a >= b\<close> are the comparisons above with the arguments swapped.\<close>

definition f64_max :: "f64 \<Rightarrow> f64 \<Rightarrow> f64" where
  "f64_max a b = (if a = NaN then b else if b = NaN then a else if f64_lt a b then b else a)"

definition f64_min :: "f64 \<Rightarrow> f64 \<Rightarrow> f64" where
  "f64_min a b = (if a = NaN then b else if b = NaN then a else if f64_lt b a then b else a)"

text \<open>\<open>f64::clamp\<close> with constant bounds \<open>lo \<le> hi\<close>: NaN stays NaN.\<close>

definition f64_clamp :: "f64 \<Rightarrow> f64 \<Rightarrow> f64 \<Rightarrow> f64" where
  "f64_clamp x lo hi = (if f64_lt x lo then lo else if f64_lt hi x then hi else x)"

datatype ordering = Less | Equal | Greater

definition f64_partial_cmp :: "f64 \<Rightarrow> f64 \<Rightarrow> ordering option" where
  "f64_partial_cmp a b =
     (if f64_lt a b then Some Less else if f64_lt b a then Some Greater
      else if f64_eq a b then Some Equal else None)"

text \<open>A cast \<open>n as f64\<close> and a decimal literal both round once.\<close>

definition f64_of_nat :: "nat \<Rightarrow> f64" where
  "f64_of_nat n = to_f64 (of_nat n)"

definition f64_sum :: "f64 list \<Rightarrow> f64" where
  "f64_sum xs = foldl f64_add (Fin 0) xs"

section \<open>Facts about rounding\<close>

lemma two_powi_pos [simp]: "0 < (2::rat) powi k"
  by (simp add: zero_less_power_int)

lemma rne_bounds: "\<lfloor>x\<rfloor> \<le> rne x" "rne x \<le> \<lfloor>x\<rfloor> + 1"
  by (auto simp: rne_def Let_def)

lemma rne_of_int [simp]: "rne (of_int n) = n"
  by (simp add: rne_def)

lemma rne_mono:
  assumes "x \<le> y"
  shows "rne x \<le> rne y"
proof (cases "\<lfloor>x\<rfloor> = \<lfloor>y\<rfloor>")
  case True
  with assms show ?thesis by (auto simp: rne_def Let_def)
next
  case False
  with assms have "\<lfloor>x\<rfloor> + 1 \<le> \<lfloor>y\<rfloor>"
    using floor_mono [OF assms] by linarith
  with rne_bounds(2) [of x] rne_bounds(1) [of y] show ?thesis by linarith
qed

lemma bitlen_rat:
  assumes "0 < a"
  shows "(2::rat) powi (bitlen a - 1) \<le> of_int a" "of_int a < (2::rat) powi bitlen a"
proof -
  have "0 \<le> bitlen a - 1"
    using assms bitlen_nonneg [of a] bitlen_eq_zero_iff [of a] by linarith
  then have e: "(2::rat) powi (bitlen a - 1) = of_int (2 ^ nat (bitlen a - 1))"
    "(2::rat) powi bitlen a = of_int (2 ^ nat (bitlen a))"
    by (simp_all add: power_int_nonneg_exp)
  show "(2::rat) powi (bitlen a - 1) \<le> of_int a" "of_int a < (2::rat) powi bitlen a"
    unfolding e of_int_le_iff of_int_less_iff using bitlen_bounds [OF assms] by auto
qed

lemma ilog2_bounds:
  assumes "0 < x"
  shows "2 powi ilog2 x \<le> x" "x < 2 powi (ilog2 x + 1)"
proof -
  obtain a b where q: "quotient_of x = (a, b)" by fastforce
  have b: "0 < b" and x: "x = of_int a / of_int b"
    using quotient_of_denom_pos [OF q] quotient_of_div [OF q] by auto
  with assms have a: "0 < a" by (simp add: zero_less_divide_iff)
  let ?m = "bitlen a" and ?n = "bitlen b"
  have "x < 2 powi ?m / 2 powi (?n - 1)"
    unfolding x using bitlen_rat [OF a] bitlen_rat [OF b] b a by (intro frac_less) auto
  then have up: "x < 2 powi (?m - ?n + 1)"
    by (simp add: power_int_diff power_int_add)
  have "2 powi (?m - 1) / 2 powi ?n \<le> x"
    unfolding x using bitlen_rat [OF a] bitlen_rat [OF b] b a by (intro frac_le) auto
  then have lo: "2 powi (?m - ?n - 1) \<le> x"
    by (simp add: power_int_diff power_int_add)
  show "2 powi ilog2 x \<le> x" "x < 2 powi (ilog2 x + 1)"
    using up lo by (auto simp: ilog2_def q Let_def)
qed

lemma powi_less_le: "(2::rat) powi a < 2 powi (b + 1) \<Longrightarrow> a \<le> b"
  using power_int_increasing [of "b + 1" a "2::rat"] by (force simp: not_le)

lemma ilog2_mono:
  assumes "0 < x" "x \<le> y"
  shows "ilog2 x \<le> ilog2 y"
proof -
  have "2 powi ilog2 x < (2::rat) powi (ilog2 y + 1)"
    using ilog2_bounds(1) [of x] ilog2_bounds(2) [of y] assms by linarith
  then show ?thesis by (rule powi_less_le)
qed

lemma powi_int:
  assumes "q \<le> k"
  shows "\<exists>n. (2::rat) powi k = of_int n * 2 powi q"
proof -
  have "(2::rat) powi k = of_int (2 ^ nat (k - q)) * 2 powi q"
    using assms by (simp add: power_int_nonneg_exp [symmetric] power_int_add [symmetric])
  then show ?thesis ..
qed

lemma rne_minus: "rne (- x) = - rne x"
proof (cases "x = of_int \<lfloor>x\<rfloor>")
  case True
  then obtain n where "x = of_int n" ..
  then show ?thesis by (simp flip: of_int_minus)
next
  case False
  then have "\<lfloor>- x\<rfloor> = - \<lfloor>x\<rfloor> - 1"
    by linarith
  then show ?thesis by (auto simp: rne_def Let_def)
qed

lemma ilog2_eqI: "2 powi k \<le> x \<Longrightarrow> x < 2 powi (k + 1) \<Longrightarrow> ilog2 x = k"
proof -
  assume "2 powi k \<le> x" and "x < 2 powi (k + 1)"
  moreover from this have "0 < x" using two_powi_pos [of k] by linarith
  ultimately have "(2::rat) powi k < 2 powi (ilog2 x + 1)" "(2::rat) powi ilog2 x < 2 powi (k + 1)"
    using ilog2_bounds [of x] by linarith+
  then show ?thesis
    using powi_less_le [of k "ilog2 x"] powi_less_le [of "ilog2 x" k] by linarith
qed

text \<open>A format has \<open>p + 1\<close> bits of precision and the smallest quantum \<open>2 ^ emin\<close>.\<close>

locale float_format =
  fixes p emin :: int
  assumes p: "0 \<le> p"
begin

lemma quantum_mono: "0 < x \<Longrightarrow> x \<le> y \<Longrightarrow> quantum_at p emin x \<le> quantum_at p emin y"
  using ilog2_mono [of x y] by (auto simp: quantum_at_def)

lemma quantum_minus [simp]: "quantum_at p emin (- x) = quantum_at p emin x"
  by (simp add: quantum_at_def)

text \<open>A multiple of the quantum of \<open>x\<close> bounds the rounding of \<open>x\<close>.\<close>

lemma round_le_grid:
  assumes "0 < x" "x \<le> of_int n * 2 powi quantum_at p emin x"
  shows "round_at p emin x \<le> of_int n * 2 powi quantum_at p emin x"
proof -
  have "x / 2 powi quantum_at p emin x \<le> of_int n" using assms by (simp add: pos_divide_le_eq)
  then have "rne (x / 2 powi quantum_at p emin x) \<le> n" using rne_mono by fastforce
  with assms(1) show ?thesis by (simp add: round_at_def)
qed

lemma round_ge_grid:
  assumes "0 < x" "of_int n * 2 powi quantum_at p emin x \<le> x"
  shows "of_int n * 2 powi quantum_at p emin x \<le> round_at p emin x"
proof -
  have "of_int n \<le> x / 2 powi quantum_at p emin x" using assms by (simp add: pos_le_divide_eq)
  then have "n \<le> rne (x / 2 powi quantum_at p emin x)" using rne_mono by fastforce
  with assms(1) show ?thesis by (simp add: round_at_def)
qed

lemma round_mono_pos:
  assumes "0 < x" "x \<le> y"
  shows "round_at p emin x \<le> round_at p emin y"
proof (cases "quantum_at p emin x = quantum_at p emin y")
  case True
  have "rne (x / 2 powi quantum_at p emin y) \<le> rne (y / 2 powi quantum_at p emin y)"
    using assms by (intro rne_mono divide_right_mono) (auto intro: less_imp_le)
  with True assms show ?thesis by (auto simp: round_at_def)
next
  case False
  with quantum_mono [OF assms] have lt: "quantum_at p emin x < quantum_at p emin y" by simp
  let ?k = "ilog2 y"
  have qy: "quantum_at p emin y = ?k - p" and qx: "ilog2 x - p \<le> quantum_at p emin x" "emin \<le> quantum_at p emin x"
    using lt assms by (auto simp: quantum_at_def)
  with lt p have k: "quantum_at p emin x \<le> ?k" "quantum_at p emin y \<le> ?k" "ilog2 x + 1 \<le> ?k" by linarith+
  obtain n where n: "(2::rat) powi ?k = of_int n * 2 powi quantum_at p emin x"
    using powi_int [OF k(1)] ..
  obtain m where m: "(2::rat) powi ?k = of_int m * 2 powi quantum_at p emin y"
    using powi_int [OF k(2)] ..
  have "x < 2 powi (ilog2 x + 1)" using assms ilog2_bounds by auto
  also have "\<dots> \<le> 2 powi ?k" using k(3) by (intro power_int_increasing) auto
  finally have "round_at p emin x \<le> 2 powi ?k"
    using round_le_grid [OF assms(1), of n] n by simp
  also have "\<dots> \<le> round_at p emin y"
    using round_ge_grid [of y m] ilog2_bounds(1) [of y] assms m by simp
  finally show ?thesis .
qed

lemma round_minus: "round_at p emin (- x) = - round_at p emin x"
  by (simp add: round_at_def rne_minus)

lemma round_nonneg: "0 \<le> x \<Longrightarrow> 0 \<le> round_at p emin x"
  using round_ge_grid [of x 0] by (cases "x = 0") (auto simp: round_at_def)

lemma round_mono: "x \<le> y \<Longrightarrow> round_at p emin x \<le> round_at p emin y"
proof -
  assume le: "x \<le> y"
  consider "0 < x" | "x \<le> 0" "0 \<le> y" | "y < 0" by linarith
  then show ?thesis
  proof cases
    case 1
    then show ?thesis using le round_mono_pos by blast
  next
    case 2
    then show ?thesis
      using round_nonneg [of y] round_nonneg [of "- x"] by (simp add: round_minus)
  next
    case 3
    then show ?thesis
      using round_mono_pos [of "- y" "- x"] le by (simp add: round_minus)
  qed
qed

lemma round_0 [simp]: "round_at p emin 0 = 0"
  by (simp add: round_at_def)

text \<open>Every number of the format is its own rounding.\<close>

lemma round_exact:
  assumes x: "x = of_int m * 2 powi e" and m: "of_int \<bar>m\<bar> < (2::rat) powi (p + 1)" and e: "emin \<le> e"
  shows "round_at p emin x = x"
proof (cases "m = 0")
  case True
  with x show ?thesis by simp
next
  case False
  have "\<bar>x\<bar> < 2 powi (p + 1) * 2 powi e"
    using m by (simp add: x abs_mult)
  also have "\<dots> = 2 powi ((p + e) + 1)" by (simp add: power_int_add)
  finally have "\<bar>x\<bar> < 2 powi ((p + e) + 1)" .
  moreover have "2 powi ilog2 \<bar>x\<bar> \<le> \<bar>x\<bar>" using x False by (intro ilog2_bounds) simp
  ultimately have "ilog2 \<bar>x\<bar> \<le> p + e" by (intro powi_less_le) linarith
  with e have "quantum_at p emin x \<le> e" by (simp add: quantum_at_def)
  then obtain n where n: "(2::rat) powi e = of_int n * 2 powi quantum_at p emin x" using powi_int by blast
  have xn: "x = of_int (m * n) * 2 powi quantum_at p emin x"
    by (subst (1) x, subst n) simp
  have cancel: "y = c * d \<Longrightarrow> 0 < d \<Longrightarrow> y / d = c" for y c d :: rat by simp
  have "x / 2 powi quantum_at p emin x = of_int (m * n)" by (rule cancel [OF xn two_powi_pos])
  then have "rne (x / 2 powi quantum_at p emin x) = m * n" by (metis rne_of_int)
  with xn show ?thesis by (simp only: round_at_def split: if_split) auto
qed

text \<open>Evaluation of a rounding from its exponent and its nearest grid point.\<close>

lemma round_eval:
  assumes "2 powi k \<le> \<bar>x\<bar>" "\<bar>x\<bar> < 2 powi (k + 1)" "q = max emin (k - p)"
    and "\<bar>x / 2 powi q - of_int n\<bar> < 1 / 2"
  shows "round_at p emin x = of_int n * 2 powi q"
proof -
  have "quantum_at p emin x = q" using ilog2_eqI [OF assms(1,2)] assms(3) by (simp add: quantum_at_def)
  moreover have "x \<noteq> 0" using assms(1) two_powi_pos [of k] by (cases "x = 0") (simp_all add: not_le [symmetric])
  moreover have "rne y = n" if "\<bar>y - of_int n\<bar> < 1 / 2" for y
  proof (cases "of_int n \<le> y")
    case True
    with that have "\<lfloor>y\<rfloor> = n" by (intro floor_unique) (auto simp: abs_if split: if_splits)
    with that True show ?thesis by (auto simp: rne_def Let_def)
  next
    case False
    with that have "\<lfloor>y\<rfloor> = n - 1" by (intro floor_unique) (auto simp: abs_if split: if_splits)
    with that False show ?thesis by (auto simp: rne_def Let_def)
  qed
  ultimately show ?thesis using assms(4) by (simp add: round_at_def)
qed

end

interpretation b64: float_format 52 "- 1074"
  by unfold_locales simp

interpretation b32: float_format 23 "- 149"
  by unfold_locales simp

lemmas fl_round_mono = b64.round_mono [folded fl_round_def]
  and fl_round_minus = b64.round_minus [folded fl_round_def]
  and fl_round_nonneg = b64.round_nonneg [folded fl_round_def]
  and fl_round_0 [simp] = b64.round_0 [folded fl_round_def]
  and fl_round_eval = b64.round_eval [folded fl_round_def]

lemmas fl32_round_mono = b32.round_mono [folded fl32_round_def]
  and fl32_round_nonneg = b32.round_nonneg [folded fl32_round_def]
  and fl32_round_0 [simp] = b32.round_0 [folded fl32_round_def]

lemma fl_round_exact:
  assumes "x = of_int m * 2 powi e" "\<bar>m\<bar> < 2 ^ 53" "- 1074 \<le> e"
  shows "fl_round x = x"
proof -
  have "(of_int \<bar>m\<bar> :: rat) < 2 ^ 53"
    using assms(2) by (metis of_int_less_iff of_int_numeral of_int_power)
  then show ?thesis using b64.round_exact [OF assms(1) _ assms(3)] by (simp add: fl_round_def)
qed

lemma fl32_round_pow2: "- 149 \<le> e \<Longrightarrow> fl32_round (2 powi e) = 2 powi e"
  using b32.round_exact [of "2 powi e" 1 e] by (simp add: fl32_round_def)

lemma fl_round_int: "\<bar>m\<bar> < 2 ^ 53 \<Longrightarrow> fl_round (of_int m) = of_int m"
  by (rule fl_round_exact [of _ m 0]) auto

lemma fl_round_numeral:
  "numeral n < (2 ^ 53 :: int) \<Longrightarrow> fl_round (numeral n) = numeral n"
  using fl_round_int [of "numeral n"] by simp

lemma fl_round_nat: "n < 2 ^ 53 \<Longrightarrow> fl_round (of_nat n) = of_nat n"
  using fl_round_int [of "int n"] by (simp add: of_nat_less_iff [of n "2 ^ 53", where ?'a = int, symmetric])

lemma fl_round_1 [simp]: "fl_round 1 = 1"
  using fl_round_int [of 1] by simp

lemma fl_round_unit: "0 \<le> x \<Longrightarrow> x \<le> 1 \<Longrightarrow> 0 \<le> fl_round x \<and> fl_round x \<le> 1"
  using fl_round_mono [of x 1] fl_round_nonneg [of x] by simp

lemma to_f64_small:
  assumes "\<bar>x\<bar> \<le> 2 ^ 1000"
  shows "to_f64 x = Fin (fl_round x)"
proof -
  have e: "fl_round (2 ^ 1000) = 2 ^ 1000"
    by (rule fl_round_exact [of _ 1 1000]) (simp_all only: power_int_numeral, simp_all)
  have lt: "(2::rat) ^ 1000 < 2 ^ 1024" by (rule power_strict_increasing) simp_all
  have "fl_round x \<le> 2 ^ 1000" using fl_round_mono [of x "2 ^ 1000"] assms e by linarith
  moreover have "- (2 ^ 1000) \<le> fl_round x"
    using fl_round_mono [of "- (2 ^ 1000)" x] assms e fl_round_minus [of "2 ^ 1000"] by linarith
  ultimately have "\<not> 2 ^ 1024 \<le> fl_round x" "\<not> fl_round x \<le> - (2 ^ 1024)" using lt by linarith+
  then show ?thesis by (simp only: to_f64_def Let_def if_False)
qed

lemma unit_small: "0 \<le> x \<Longrightarrow> x \<le> 1 \<Longrightarrow> \<bar>x\<bar> \<le> (2::rat) ^ 1000"
  using one_le_power [of "2::rat" 1000] by linarith

lemma to_f64_unit: "0 \<le> x \<Longrightarrow> x \<le> 1 \<Longrightarrow> to_f64 x = Fin (fl_round x)"
  by (intro to_f64_small unit_small)

lemma to_f64_0 [simp]: "to_f64 0 = Fin 0"
  using to_f64_unit [of 0] by simp

lemma to_f64_int: "\<bar>m\<bar> < 2 ^ 53 \<Longrightarrow> to_f64 (of_int m) = Fin (of_int m)"
proof -
  assume m: "\<bar>m\<bar> < 2 ^ 53"
  then have "(of_int \<bar>m\<bar> :: rat) \<le> of_int (2 ^ 53)" by (simp only: of_int_le_iff)
  also have "\<dots> \<le> 2 ^ 1000"
    unfolding of_int_power of_int_numeral by (rule power_increasing) simp_all
  finally show ?thesis using m by (simp add: to_f64_small fl_round_int)
qed

section \<open>Facts about comparisons\<close>

text \<open>\<open>to_f64\<close> is never NaN, and it is monotone for the order of \<open>f64\<close>.\<close>

lemma to_f64_not_NaN [simp]: "to_f64 x \<noteq> NaN"
  by (simp add: to_f64_def Let_def)

lemma f64_lt_irrefl [simp]: "\<not> f64_lt a a"
  by (cases a) auto

lemma f64_lt_NaN [simp]: "\<not> f64_lt a NaN"
  by (cases a) auto

lemma f64_lt_asym: "f64_lt a b \<Longrightarrow> \<not> f64_lt b a"
  by (cases a; cases b) auto

lemma f64_lt_trans: "f64_lt a b \<Longrightarrow> f64_lt b c \<Longrightarrow> f64_lt a c"
  by (cases a; cases b; cases c) auto

lemma f64_lt_le_trans: "f64_lt a b \<Longrightarrow> f64_le b c \<Longrightarrow> f64_lt a c"
  by (cases a; cases b; cases c) (auto simp: f64_le_def)

lemma f64_le_lt_trans: "f64_le a b \<Longrightarrow> f64_lt b c \<Longrightarrow> f64_lt a c"
  by (cases a; cases b; cases c) (auto simp: f64_le_def)

lemma f64_le_trans: "f64_le a b \<Longrightarrow> f64_le b c \<Longrightarrow> f64_le a c"
  by (cases a; cases b; cases c) (auto simp: f64_le_def)

lemma f64_le_refl: "a \<noteq> NaN \<Longrightarrow> f64_le a a"
  by (cases a) (auto simp: f64_le_def)

lemma f64_not_lt: "a \<noteq> NaN \<Longrightarrow> b \<noteq> NaN \<Longrightarrow> \<not> f64_lt a b \<longleftrightarrow> f64_le b a"
  by (cases a; cases b) (auto simp: f64_le_def)

lemma f64_le_Fin [simp]: "f64_le (Fin a) (Fin b) \<longleftrightarrow> a \<le> b"
  by (auto simp: f64_le_def)

lemma f64_le_not_NaN: "f64_le a b \<Longrightarrow> a \<noteq> NaN \<and> b \<noteq> NaN"
  by (cases a; cases b) (auto simp: f64_le_def)

section \<open>Non-negative values and the unit interval\<close>

lemma f64_of_nat_small: "n < 2 ^ 53 \<Longrightarrow> f64_of_nat n = Fin (of_nat n)"
  using to_f64_int [of "int n"] by (simp add: f64_of_nat_def of_nat_less_iff [of n "2 ^ 53", where ?'a = int, symmetric])

lemma ratio_unit:
  assumes "k \<le> n" "0 < n" "n < 2 ^ 53"
  shows "\<exists>r. f64_div (f64_of_nat k) (f64_of_nat n) = Fin r \<and> 0 \<le> r \<and> r \<le> 1"
proof -
  have "(of_nat k / of_nat n :: rat) \<le> 1" "0 \<le> (of_nat k / of_nat n :: rat)"
    using assms by simp_all
  with assms fl_round_unit [of "of_nat k / of_nat n"] show ?thesis
    by (simp add: f64_of_nat_small to_f64_unit)
qed

lemma to_f64_nonneg: "0 \<le> x \<Longrightarrow> f64_le (Fin 0) (to_f64 x)"
  using fl_round_nonneg [of x] by (auto simp: to_f64_def Let_def f64_le_def)

lemma f64_add_nonneg: "f64_le (Fin 0) a \<Longrightarrow> f64_le (Fin 0) b \<Longrightarrow> f64_le (Fin 0) (f64_add a b)"
  by (cases a; cases b) (simp_all add: to_f64_nonneg, simp_all add: f64_le_def)

lemma f64_sum_nonneg: "(\<And>x. x \<in> set xs \<Longrightarrow> f64_le (Fin 0) x) \<Longrightarrow> f64_le (Fin 0) (f64_sum xs)"
proof (induction xs rule: rev_induct)
  case (snoc x xs)
  then show ?case by (simp add: f64_sum_def f64_add_nonneg)
qed (simp add: f64_sum_def)

lemma f64_div_nonneg: "f64_le (Fin 0) a \<Longrightarrow> 0 < b \<Longrightarrow> f64_le (Fin 0) (f64_div a (Fin b))"
  by (cases a) (simp_all add: to_f64_nonneg, simp_all add: f64_le_def inf_of_sign_def)

lemma to_f64_minus: "to_f64 (- x) = f64_neg (to_f64 x)"
proof -
  have "(0::rat) < 2 ^ 1024" by simp
  then show ?thesis
    by (simp only: to_f64_def Let_def fl_round_minus) (auto simp del: of_nat_numeral)
qed

lemma f64_div_neg: "f64_le (Fin 0) a \<Longrightarrow> 0 < b \<Longrightarrow> f64_le (f64_div (f64_neg a) (Fin b)) (Fin 0)"
proof (cases a)
  case (Fin x)
  assume "f64_le (Fin 0) a" "0 < b"
  with Fin have "f64_le (Fin 0) (to_f64 (x / b))" by (simp add: to_f64_nonneg)
  with Fin \<open>0 < b\<close> show ?thesis
    using to_f64_minus [of "x / b"] by (cases "to_f64 (x / b)") (auto simp: f64_le_def)
qed (auto simp: f64_le_def inf_of_sign_def)

lemma unit_Fin: "f64_le (Fin 0) x \<and> f64_le x (Fin 1) \<longleftrightarrow> (\<exists>r. x = Fin r \<and> 0 \<le> r \<and> r \<le> 1)"
  by (cases x) (auto simp: f64_le_def)

lemma clamp_unit: "x \<noteq> NaN \<Longrightarrow> \<exists>r. f64_clamp x (Fin 0) (Fin 1) = Fin r \<and> 0 \<le> r \<and> r \<le> 1"
  by (cases x) (auto simp: f64_clamp_def)

lemma clamp_NaN: "f64_clamp x (Fin 0) (Fin 1) = NaN \<longleftrightarrow> x = NaN"
  by (cases x) (auto simp: f64_clamp_def)

section \<open>Single precision\<close>

text \<open>A value of \<open>f32\<close> is a value of \<open>f64\<close>; only the rounding differs. Operations that involve NaN
  or an infinity do not round and are those of \<open>f64\<close>.\<close>

type_synonym f32 = f64

definition to_f32 :: "rat \<Rightarrow> f32" where
  "to_f32 x = (let r = fl32_round x
               in if 2 ^ 128 \<le> r then PosInf else if r \<le> - (2 ^ 128) then NegInf else Fin r)"

fun f32_add :: "f32 \<Rightarrow> f32 \<Rightarrow> f32" where
  "f32_add (Fin a) (Fin b) = to_f32 (a + b)"
| "f32_add a b = f64_add a b"

definition f32_sub :: "f32 \<Rightarrow> f32 \<Rightarrow> f32" where
  "f32_sub a b = f32_add a (f64_neg b)"

fun f32_mul :: "f32 \<Rightarrow> f32 \<Rightarrow> f32" where
  "f32_mul (Fin a) (Fin b) = to_f32 (a * b)"
| "f32_mul a b = f64_mul a b"

fun f32_div :: "f32 \<Rightarrow> f32 \<Rightarrow> f32" where
  "f32_div (Fin a) (Fin b) = (if b = 0 then inf_of_sign (sgn a) else to_f32 (a / b))"
| "f32_div a b = f64_div a b"

definition f32_of_nat :: "nat \<Rightarrow> f32" where
  "f32_of_nat n = to_f32 (of_nat n)"

definition f32_sum :: "f32 list \<Rightarrow> f32" where
  "f32_sum xs = foldl f32_add (Fin 0) xs"

lemma to_f32_bounded:
  assumes "0 \<le> x" "x \<le> 2 powi e" "- 149 \<le> e" "e < 128"
  shows "to_f32 x = Fin (fl32_round x)" "0 \<le> fl32_round x" "fl32_round x \<le> 2 powi e"
proof -
  show up: "fl32_round x \<le> 2 powi e" using fl32_round_mono [OF assms(2)] by (simp add: fl32_round_pow2 [OF assms(3)])
  show lo: "0 \<le> fl32_round x" using fl32_round_nonneg [OF assms(1)] .
  have "(2::rat) powi e < 2 powi 128" using assms(4) by (intro power_int_strict_increasing) auto
  also have "(2::rat) powi 128 = 2 ^ 128" by (simp only: power_int_numeral)
  finally have "\<not> 2 ^ 128 \<le> fl32_round x" using up by linarith
  moreover have "\<not> fl32_round x \<le> - (2 ^ 128)" using lo zero_less_power [of "2::rat" 128] by linarith
  ultimately show "to_f32 x = Fin (fl32_round x)" by (simp only: to_f32_def Let_def if_False)
qed

end
