(* ===== verification/Dht_Protocol.thy ===== *)
theory Dht_Protocol
  imports Kwaai_Prelude Rust_Float
begin

text \<open>
  Messages and values of the Hivemind DHT (\<open>kwaai-hivemind-dht/src/protocol.rs\<close>,
  \<open>value.rs\<close>, \<open>error.rs\<close>). Each message struct is a record with a field prefix of its own.
  A peer id of libp2p is a value of a type variable, with its byte and base58 forms given
  by a record of functions, \<open>peer_id_ops\<close>. Functions that read the clock take the reading
  as their argument \<open>now\<close>. The MessagePack library is a pair of functions.
\<close>

section \<open>Peer identifiers (libp2p)\<close>

record 'p peer_id_ops =
  pid_to_bytes :: "'p \<Rightarrow> bytes"
  pid_from_bytes :: "bytes \<Rightarrow> 'p option"
  pid_to_base58 :: "'p \<Rightarrow> string"
  pid_parse :: "string \<Rightarrow> 'p option"

text \<open>The documented round trips of \<open>PeerId\<close>'s two encodings.\<close>

definition peer_id_bytes_ok :: "'p peer_id_ops \<Rightarrow> bool" where
  "peer_id_bytes_ok P \<longleftrightarrow> (\<forall>p. pid_from_bytes P (pid_to_bytes P p) = Some p)"

definition peer_id_base58_ok :: "'p peer_id_ops \<Rightarrow> bool" where
  "peer_id_base58_ok P \<longleftrightarrow> (\<forall>p. pid_parse P (pid_to_base58 P p) = Some p)"

text \<open>An instance, for concrete examples: a peer id is its bytes, one character per byte.\<close>

definition raw_ops :: "bytes peer_id_ops" where
  "raw_ops = \<lparr>pid_to_bytes = (\<lambda>p. p), pid_from_bytes = Some,
     pid_to_base58 = map (\<lambda>b. char_of (unat b)),
     pid_parse = (\<lambda>s. Some (map (\<lambda>c. word_of_nat (of_char c)) s))\<rparr>"

lemma raw_ops_ok: "peer_id_bytes_ok raw_ops" "peer_id_base58_ok raw_ops"
proof -
  have "word_of_nat (unat b mod 256) = b" for b :: u8
    using unsigned_less [of b, where 'a = nat] by simp
  then have "map ((\<lambda>c. word_of_nat (of_char c)) \<circ> (\<lambda>b. char_of (unat b))) p = p" for p :: bytes
    by (induction p) simp_all
  then show "peer_id_bytes_ok raw_ops" "peer_id_base58_ok raw_ops"
    by (simp_all add: peer_id_bytes_ok_def peer_id_base58_ok_def raw_ops_def)
qed

section \<open>Errors\<close>

datatype dht_error =
    Serialization string
  | Deserialization string
  | ProtobufEncode string
  | ProtobufDecode string
  | Expired f64
  | NotFoundError string
  | StoreFailed
  | Network string
  | InvalidTime f64
  | Io io_error

section \<open>Result types\<close>

datatype result_type = NotFound | FoundRegular | FoundDictionary

fun result_type_as_i32 :: "result_type \<Rightarrow> int" where
  "result_type_as_i32 NotFound = 0"
| "result_type_as_i32 FoundRegular = 1"
| "result_type_as_i32 FoundDictionary = 2"

definition result_type_from_i32 :: "int \<Rightarrow> result_type option" where
  "result_type_from_i32 v =
     (if v = 0 then Some NotFound else if v = 1 then Some FoundRegular
      else if v = 2 then Some FoundDictionary else None)"

definition result_type_try_from :: "int \<Rightarrow> unit + result_type" where
  "result_type_try_from v =
     (case result_type_from_i32 v of None \<Rightarrow> Inl () | Some r \<Rightarrow> Inr r)"

lemma result_type_roundtrip [simp]: "result_type_from_i32 (result_type_as_i32 r) = Some r"
  by (cases r) (simp_all add: result_type_from_i32_def)

section \<open>Message structs\<close>

record access_token =
  at_username :: string
  at_public_key :: bytes
  at_expiration_time :: string
  at_signature :: bytes

record request_auth_info =
  rqa_client_access_token :: "access_token option"
  rqa_service_public_key :: bytes
  rqa_time :: f64
  rqa_nonce :: bytes
  rqa_signature :: bytes

record response_auth_info =
  rsa_service_access_token :: "access_token option"
  rsa_nonce :: bytes
  rsa_signature :: bytes

record node_info =
  node_id :: bytes

record ping_request =
  pq_auth :: "request_auth_info option"
  pq_peer :: "node_info option"
  pq_validate :: bool

record ping_response =
  pr_auth :: "response_auth_info option"
  pr_peer :: "node_info option"
  pr_dht_time :: f64
  pr_available :: bool

record store_request =
  sq_auth :: "request_auth_info option"
  sq_keys :: "bytes list"
  sq_subkeys :: "bytes list"
  sq_values :: "bytes list"
  sq_expiration_time :: "f64 list"
  sq_in_cache :: "bool list"
  sq_peer :: "node_info option"

record store_response =
  sr_auth :: "response_auth_info option"
  sr_store_ok :: "bool list"
  sr_peer :: "node_info option"

record find_request =
  fq_auth :: "request_auth_info option"
  fq_keys :: "bytes list"
  fq_peer :: "node_info option"

record find_result =
  fr_result_type :: int
  fr_value :: bytes
  fr_expiration_time :: f64
  fr_nearest_node_ids :: "bytes list"
  fr_nearest_peer_ids :: "bytes list"

record find_response =
  fp_auth :: "response_auth_info option"
  fp_results :: "find_result list"
  fp_peer :: "node_info option"

section \<open>Constructors\<close>

definition node_info_from_peer_id :: "'p peer_id_ops \<Rightarrow> 'p \<Rightarrow> node_info" where
  "node_info_from_peer_id P p = \<lparr>node_id = pid_to_bytes P p\<rparr>"

definition node_info_to_peer_id :: "'p peer_id_ops \<Rightarrow> node_info \<Rightarrow> 'p option" where
  "node_info_to_peer_id P n = pid_from_bytes P (node_id n)"

definition request_auth_minimal :: "f64 \<Rightarrow> request_auth_info" where
  "request_auth_minimal time =
     \<lparr>rqa_client_access_token = None, rqa_service_public_key = [], rqa_time = time,
      rqa_nonce = [], rqa_signature = []\<rparr>"

definition request_auth_new :: "f64 \<Rightarrow> request_auth_info" where
  "request_auth_new now = request_auth_minimal now"

definition response_auth_minimal :: response_auth_info where
  "response_auth_minimal = \<lparr>rsa_service_access_token = None, rsa_nonce = [], rsa_signature = []\<rparr>"

definition response_auth_new :: response_auth_info where
  "response_auth_new = response_auth_minimal"

definition ping_request_new :: "f64 \<Rightarrow> node_info \<Rightarrow> bool \<Rightarrow> ping_request" where
  "ping_request_new now peer validate =
     \<lparr>pq_auth = Some (request_auth_new now), pq_peer = Some peer, pq_validate = validate\<rparr>"

definition ping_response_new :: "node_info \<Rightarrow> f64 \<Rightarrow> bool \<Rightarrow> ping_response" where
  "ping_response_new peer dht_time available =
     \<lparr>pr_auth = Some response_auth_new, pr_peer = Some peer, pr_dht_time = dht_time,
      pr_available = available\<rparr>"

definition store_request_new ::
    "f64 \<Rightarrow> node_info \<Rightarrow> bytes list \<Rightarrow> bytes list \<Rightarrow> bytes list \<Rightarrow> f64 list \<Rightarrow> bool list \<Rightarrow> store_request" where
  "store_request_new now peer ks subkeys vals expiration_time in_cache =
     \<lparr>sq_auth = Some (request_auth_new now), sq_keys = ks, sq_subkeys = subkeys,
      sq_values = vals, sq_expiration_time = expiration_time, sq_in_cache = in_cache,
      sq_peer = Some peer\<rparr>"

definition store_response_new :: "node_info \<Rightarrow> bool list \<Rightarrow> store_response" where
  "store_response_new peer store_ok =
     \<lparr>sr_auth = Some response_auth_new, sr_store_ok = store_ok, sr_peer = Some peer\<rparr>"

definition find_request_new :: "f64 \<Rightarrow> node_info \<Rightarrow> bytes list \<Rightarrow> find_request" where
  "find_request_new now peer ks =
     \<lparr>fq_auth = Some (request_auth_new now), fq_keys = ks, fq_peer = Some peer\<rparr>"

definition find_result_not_found :: "bytes list \<Rightarrow> bytes list \<Rightarrow> find_result" where
  "find_result_not_found nearest_node_ids nearest_peer_ids =
     \<lparr>fr_result_type = result_type_as_i32 NotFound, fr_value = [], fr_expiration_time = Fin 0,
      fr_nearest_node_ids = nearest_node_ids, fr_nearest_peer_ids = nearest_peer_ids\<rparr>"

definition find_result_found_regular ::
    "bytes \<Rightarrow> f64 \<Rightarrow> bytes list \<Rightarrow> bytes list \<Rightarrow> find_result" where
  "find_result_found_regular v expiration_time nearest_node_ids nearest_peer_ids =
     \<lparr>fr_result_type = result_type_as_i32 FoundRegular, fr_value = v,
      fr_expiration_time = expiration_time,
      fr_nearest_node_ids = nearest_node_ids, fr_nearest_peer_ids = nearest_peer_ids\<rparr>"

definition find_result_found_dictionary ::
    "bytes \<Rightarrow> f64 \<Rightarrow> bytes list \<Rightarrow> bytes list \<Rightarrow> find_result" where
  "find_result_found_dictionary v expiration_time nearest_node_ids nearest_peer_ids =
     \<lparr>fr_result_type = result_type_as_i32 FoundDictionary, fr_value = v,
      fr_expiration_time = expiration_time,
      fr_nearest_node_ids = nearest_node_ids, fr_nearest_peer_ids = nearest_peer_ids\<rparr>"

definition find_response_new :: "node_info \<Rightarrow> find_result list \<Rightarrow> find_response" where
  "find_response_new peer results =
     \<lparr>fp_auth = Some response_auth_new, fp_results = results, fp_peer = Some peer\<rparr>"

definition find_response_not_found ::
    "node_info \<Rightarrow> nat \<Rightarrow> bytes list \<Rightarrow> bytes list \<Rightarrow> find_response" where
  "find_response_not_found peer count nearest_node_ids nearest_peer_ids =
     \<lparr>fp_auth = Some response_auth_new,
      fp_results = replicate count (find_result_not_found nearest_node_ids nearest_peer_ids),
      fp_peer = Some peer\<rparr>"

section \<open>Values with expiration\<close>

record dht_value =
  dv_value :: bytes
  dv_expiration_time :: f64
  dv_in_cache :: bool

definition dht_value_new :: "bytes \<Rightarrow> f64 \<Rightarrow> dht_value" where
  "dht_value_new v expiration_time =
     \<lparr>dv_value = v, dv_expiration_time = expiration_time, dv_in_cache = False\<rparr>"

definition dht_value_new_cached :: "bytes \<Rightarrow> f64 \<Rightarrow> dht_value" where
  "dht_value_new_cached v expiration_time =
     \<lparr>dv_value = v, dv_expiration_time = expiration_time, dv_in_cache = True\<rparr>"

definition dht_value_with_ttl :: "f64 \<Rightarrow> bytes \<Rightarrow> f64 \<Rightarrow> dht_value" where
  "dht_value_with_ttl now v ttl_seconds =
     (let expiration_time = f64_add now ttl_seconds in dht_value_new v expiration_time)"

definition is_expired :: "f64 \<Rightarrow> dht_value \<Rightarrow> bool" where
  "is_expired now d \<longleftrightarrow> f64_lt (dv_expiration_time d) now"

definition is_valid :: "f64 \<Rightarrow> dht_value \<Rightarrow> bool" where
  "is_valid now d \<longleftrightarrow> \<not> is_expired now d"

definition time_until_expiration :: "f64 \<Rightarrow> dht_value \<Rightarrow> f64" where
  "time_until_expiration now d = f64_sub (dv_expiration_time d) now"

text \<open>MessagePack (\<open>rmp_serde\<close>) for values of one type.\<close>

record 'a msgpack =
  mp_to_vec :: "'a \<Rightarrow> string + bytes"
  mp_from_slice :: "bytes \<Rightarrow> string + 'a"

definition to_msgpack :: "bytes msgpack \<Rightarrow> dht_value \<Rightarrow> dht_error + bytes" where
  "to_msgpack M d = (case mp_to_vec M (dv_value d) of Inl e \<Rightarrow> Inl (Serialization e) | Inr b \<Rightarrow> Inr b)"

definition from_msgpack :: "bytes msgpack \<Rightarrow> bytes \<Rightarrow> dht_error + bytes" where
  "from_msgpack M b = (case mp_from_slice M b of Inl e \<Rightarrow> Inl (Deserialization e) | Inr v \<Rightarrow> Inr v)"

definition dht_value_serialize :: "'a msgpack \<Rightarrow> f64 \<Rightarrow> 'a \<Rightarrow> f64 \<Rightarrow> dht_error + dht_value" where
  "dht_value_serialize M now v ttl_seconds =
     (case mp_to_vec M v of
        Inl e \<Rightarrow> Inl (Serialization e)
      | Inr b \<Rightarrow> Inr (dht_value_with_ttl now b ttl_seconds))"

definition dht_value_deserialize :: "'a msgpack \<Rightarrow> f64 \<Rightarrow> dht_value \<Rightarrow> dht_error + 'a" where
  "dht_value_deserialize M now d =
     (if is_expired now d then Inl (Expired (dv_expiration_time d))
      else case mp_from_slice M (dv_value d) of Inl e \<Rightarrow> Inl (Deserialization e) | Inr v \<Rightarrow> Inr v)"

section \<open>The value builder\<close>

record dht_value_builder =
  bd_value :: bytes
  bd_expiration_time :: "f64 option"
  bd_ttl_seconds :: "f64 option"
  bd_in_cache :: bool

definition builder_new :: "bytes \<Rightarrow> dht_value_builder" where
  "builder_new v =
     \<lparr>bd_value = v, bd_expiration_time = None, bd_ttl_seconds = None, bd_in_cache = False\<rparr>"

definition builder_from_type :: "'a msgpack \<Rightarrow> 'a \<Rightarrow> dht_error + dht_value_builder" where
  "builder_from_type M v =
     (case mp_to_vec M v of Inl e \<Rightarrow> Inl (Serialization e) | Inr b \<Rightarrow> Inr (builder_new b))"

definition builder_expiration_time :: "f64 \<Rightarrow> dht_value_builder \<Rightarrow> dht_value_builder" where
  "builder_expiration_time time b = b\<lparr>bd_expiration_time := Some time, bd_ttl_seconds := None\<rparr>"

definition builder_ttl_seconds :: "f64 \<Rightarrow> dht_value_builder \<Rightarrow> dht_value_builder" where
  "builder_ttl_seconds ttl b = b\<lparr>bd_ttl_seconds := Some ttl, bd_expiration_time := None\<rparr>"

definition builder_cached :: "dht_value_builder \<Rightarrow> dht_value_builder" where
  "builder_cached b = b\<lparr>bd_in_cache := True\<rparr>"

definition builder_build :: "f64 \<Rightarrow> dht_value_builder \<Rightarrow> dht_value" where
  "builder_build now b =
     (let expiration_time =
            (case bd_expiration_time b of Some e \<Rightarrow> e
             | None \<Rightarrow> (case bd_ttl_seconds b of Some ttl \<Rightarrow> f64_add now ttl
                       | None \<Rightarrow> f64_add now (Fin 3600)))
      in \<lparr>dv_value = bd_value b, dv_expiration_time = expiration_time,
          dv_in_cache = bd_in_cache b\<rparr>)"

text \<open>
  A builder call sequence: the last of \<open>expiration_time\<close> and \<open>ttl_seconds\<close> decides.
\<close>

datatype builder_call = SetExpiration f64 | SetTtl f64 | SetCached

fun builder_step :: "dht_value_builder \<Rightarrow> builder_call \<Rightarrow> dht_value_builder" where
  "builder_step b (SetExpiration t) = builder_expiration_time t b"
| "builder_step b (SetTtl t) = builder_ttl_seconds t b"
| "builder_step b SetCached = builder_cached b"

fun last_expiration :: "f64 \<Rightarrow> builder_call list \<Rightarrow> f64 \<Rightarrow> f64" where
  "last_expiration now [] e = e"
| "last_expiration now (SetExpiration t # cs) e = last_expiration now cs t"
| "last_expiration now (SetTtl t # cs) e = last_expiration now cs (f64_add now t)"
| "last_expiration now (SetCached # cs) e = last_expiration now cs e"

lemma builder_build_step:
  "builder_build now (builder_step b c) =
     (builder_build now b)\<lparr>dv_expiration_time := last_expiration now [c] (dv_expiration_time (builder_build now b)),
        dv_in_cache := (dv_in_cache (builder_build now b) \<or> c = SetCached)\<rparr>"
  by (cases c)
    (simp_all add: builder_build_def builder_expiration_time_def builder_ttl_seconds_def builder_cached_def
      split: option.split)

lemma builder_build_run:
  "builder_build now (foldl builder_step b cs) =
     (builder_build now b)\<lparr>dv_expiration_time := last_expiration now cs (dv_expiration_time (builder_build now b)),
        dv_in_cache := (dv_in_cache (builder_build now b) \<or> SetCached \<in> set cs)\<rparr>"
proof (induction cs arbitrary: b)
  case Nil
  then show ?case by simp
next
  case (Cons c cs)
  then show ?case by (cases c) (simp_all add: builder_build_step del: builder_step.simps)
qed

end
