(* ===== verification/Dht_Codec.thy ===== *)
theory Dht_Codec
  imports Dht_Protocol
begin

text \<open>
  Wire format of the DHT (\<open>kwaai-hivemind-dht/src/codec.rs\<close>): an eight-byte big-endian
  length, a marker byte, the protobuf payload. The protobuf library (prost) is a record of
  encoders and decoders, one pair per message type. An input stream is the list of bytes
  still to be read.

  The locale \<open>frame_codec\<close> is the contract a stream reader needs from a message format:
  reading what was written gives the message back and leaves the rest of the stream. Its
  consequences (prefix-freeness, reading a whole conversation) are proved once; requests
  and responses are two interpretations.
\<close>

section \<open>The contract of a framed message format\<close>

locale frame_codec =
  fixes ok :: "'m \<Rightarrow> bool"
    and encode :: "'m \<Rightarrow> bytes"
    and read :: "bytes \<Rightarrow> 'e + ('m \<times> bytes)"
  assumes read_encode: "ok m \<Longrightarrow> read (encode m @ rest) = Inr (m, rest)"
begin

lemma prefix_free:
  assumes "ok m" "ok m'" "encode m @ r = encode m' @ r'"
  shows "m = m' \<and> r = r'"
proof -
  have "read (encode m' @ r') = Inr (m, r)"
    using read_encode [OF assms(1), of r] unfolding assms(3) .
  with read_encode [OF assms(2), of r'] show ?thesis by simp
qed

lemma encode_inj: "ok m \<Longrightarrow> ok m' \<Longrightarrow> encode m = encode m' \<Longrightarrow> m = m'"
  using prefix_free [of m m' "[]" "[]"] by simp

text \<open>Reading \<open>n\<close> messages in a row returns what a peer wrote in a row.\<close>

fun read_n :: "nat \<Rightarrow> bytes \<Rightarrow> 'e + ('m list \<times> bytes)" where
  "read_n 0 bs = Inr ([], bs)"
| "read_n (Suc n) bs =
     (case read bs of Inl e \<Rightarrow> Inl e
      | Inr (m, bs') \<Rightarrow> (case read_n n bs' of Inl e \<Rightarrow> Inl e | Inr (ms, r) \<Rightarrow> Inr (m # ms, r)))"

lemma read_n_concat:
  "(\<And>m. m \<in> set ms \<Longrightarrow> ok m) \<Longrightarrow>
     read_n (length ms) (concat (map encode ms) @ rest) = Inr (ms, rest)"
  by (induction ms) (simp_all add: read_encode)

end

section \<open>Markers and messages\<close>

definition MAX_MESSAGE_SIZE :: nat where
  "MAX_MESSAGE_SIZE = 10 * 1024 * 1024"

datatype protocol_marker = MarkerPing | MarkerStore | MarkerFind

fun marker_as_u8 :: "protocol_marker \<Rightarrow> u8" where
  "marker_as_u8 MarkerPing = 0x01"
| "marker_as_u8 MarkerStore = 0x02"
| "marker_as_u8 MarkerFind = 0x03"

definition marker_from_u8 :: "u8 \<Rightarrow> protocol_marker option" where
  "marker_from_u8 byte =
     (if byte = 0x01 then Some MarkerPing else if byte = 0x02 then Some MarkerStore
      else if byte = 0x03 then Some MarkerFind else None)"

lemma marker_roundtrip [simp]: "marker_from_u8 (marker_as_u8 m) = Some m"
  by (cases m) (simp_all add: marker_from_u8_def)

datatype dht_request = ReqPing ping_request | ReqStore store_request | ReqFind find_request

datatype dht_response = ResPing ping_response | ResStore store_response | ResFind find_response

text \<open>prost: \<open>encode_to_vec\<close> and \<open>decode\<close> of the six message types.\<close>

record dht_prost =
  enc_ping_req :: "ping_request \<Rightarrow> bytes"
  dec_ping_req :: "bytes \<Rightarrow> string + ping_request"
  enc_store_req :: "store_request \<Rightarrow> bytes"
  dec_store_req :: "bytes \<Rightarrow> string + store_request"
  enc_find_req :: "find_request \<Rightarrow> bytes"
  dec_find_req :: "bytes \<Rightarrow> string + find_request"
  enc_ping_res :: "ping_response \<Rightarrow> bytes"
  dec_ping_res :: "bytes \<Rightarrow> string + ping_response"
  enc_store_res :: "store_response \<Rightarrow> bytes"
  dec_store_res :: "bytes \<Rightarrow> string + store_response"
  enc_find_res :: "find_response \<Rightarrow> bytes"
  dec_find_res :: "bytes \<Rightarrow> string + find_response"

text \<open>The documented round trip of prost, for one message.\<close>

fun prost_request_ok :: "dht_prost \<Rightarrow> dht_request \<Rightarrow> bool" where
  "prost_request_ok P (ReqPing m) \<longleftrightarrow> dec_ping_req P (enc_ping_req P m) = Inr m"
| "prost_request_ok P (ReqStore m) \<longleftrightarrow> dec_store_req P (enc_store_req P m) = Inr m"
| "prost_request_ok P (ReqFind m) \<longleftrightarrow> dec_find_req P (enc_find_req P m) = Inr m"

fun prost_response_ok :: "dht_prost \<Rightarrow> dht_response \<Rightarrow> bool" where
  "prost_response_ok P (ResPing m) \<longleftrightarrow> dec_ping_res P (enc_ping_res P m) = Inr m"
| "prost_response_ok P (ResStore m) \<longleftrightarrow> dec_store_res P (enc_store_res P m) = Inr m"
| "prost_response_ok P (ResFind m) \<longleftrightarrow> dec_find_res P (enc_find_res P m) = Inr m"

section \<open>Requests\<close>

fun request_marker :: "dht_request \<Rightarrow> protocol_marker" where
  "request_marker (ReqPing _) = MarkerPing"
| "request_marker (ReqStore _) = MarkerStore"
| "request_marker (ReqFind _) = MarkerFind"

fun request_payload :: "dht_prost \<Rightarrow> dht_request \<Rightarrow> protocol_marker \<times> bytes" where
  "request_payload P (ReqPing req) = (MarkerPing, enc_ping_req P req)"
| "request_payload P (ReqStore req) = (MarkerStore, enc_store_req P req)"
| "request_payload P (ReqFind req) = (MarkerFind, enc_find_req P req)"

definition request_encode :: "dht_prost \<Rightarrow> dht_request \<Rightarrow> dht_error + bytes" where
  "request_encode P r =
     (let (marker, proto_bytes) = request_payload P r;
          total_len = 1 + length proto_bytes
      in Inr (u64_to_be_bytes (word_of_nat total_len) @ [marker_as_u8 marker] @ proto_bytes))"

definition map_decode :: "('a \<Rightarrow> 'b) \<Rightarrow> string + 'a \<Rightarrow> dht_error + 'b" where
  "map_decode f x = (case x of Inl e \<Rightarrow> Inl (ProtobufDecode e) | Inr v \<Rightarrow> Inr (f v))"

fun request_decode :: "dht_prost \<Rightarrow> bytes \<Rightarrow> dht_error + dht_request" where
  "request_decode P [] = Inl (ProtobufDecode ''Empty message'')"
| "request_decode P (b # proto_bytes) =
     (case marker_from_u8 b of
        None \<Rightarrow> Inl (ProtobufDecode ''Invalid protocol marker'')
      | Some MarkerPing \<Rightarrow> map_decode ReqPing (dec_ping_req P proto_bytes)
      | Some MarkerStore \<Rightarrow> map_decode ReqStore (dec_store_req P proto_bytes)
      | Some MarkerFind \<Rightarrow> map_decode ReqFind (dec_find_req P proto_bytes))"

section \<open>Responses\<close>

fun response_marker :: "dht_response \<Rightarrow> protocol_marker" where
  "response_marker (ResPing _) = MarkerPing"
| "response_marker (ResStore _) = MarkerStore"
| "response_marker (ResFind _) = MarkerFind"

fun response_payload :: "dht_prost \<Rightarrow> dht_response \<Rightarrow> protocol_marker \<times> bytes" where
  "response_payload P (ResPing res) = (MarkerPing, enc_ping_res P res)"
| "response_payload P (ResStore res) = (MarkerStore, enc_store_res P res)"
| "response_payload P (ResFind res) = (MarkerFind, enc_find_res P res)"

definition response_encode :: "dht_prost \<Rightarrow> dht_response \<Rightarrow> dht_error + bytes" where
  "response_encode P r =
     (let (marker, proto_bytes) = response_payload P r;
          total_len = 1 + length proto_bytes
      in Inr (u64_to_be_bytes (word_of_nat total_len) @ [marker_as_u8 marker] @ proto_bytes))"

fun response_decode :: "dht_prost \<Rightarrow> bytes \<Rightarrow> dht_error + dht_response" where
  "response_decode P [] = Inl (ProtobufDecode ''Empty message'')"
| "response_decode P (b # proto_bytes) =
     (case marker_from_u8 b of
        None \<Rightarrow> Inl (ProtobufDecode ''Invalid protocol marker'')
      | Some MarkerPing \<Rightarrow> map_decode ResPing (dec_ping_res P proto_bytes)
      | Some MarkerStore \<Rightarrow> map_decode ResStore (dec_store_res P proto_bytes)
      | Some MarkerFind \<Rightarrow> map_decode ResFind (dec_find_res P proto_bytes))"

section \<open>Stream codec\<close>

text \<open>The \<open>io::Error\<close> values the codec produces.\<close>

datatype codec_error = CodecEof | MessageTooLarge nat | DecodeFailed dht_error

definition read_request :: "dht_prost \<Rightarrow> bytes \<Rightarrow> codec_error + (dht_request \<times> bytes)" where
  "read_request P io =
     (case read_exact 8 io of
        Inl _ \<Rightarrow> Inl CodecEof
      | Inr (len_buf, io1) \<Rightarrow>
          (let len = unat (u64_from_be_bytes len_buf) in
           if len > MAX_MESSAGE_SIZE then Inl (MessageTooLarge len)
           else case read_exact len io1 of
                  Inl _ \<Rightarrow> Inl CodecEof
                | Inr (msg_buf, io2) \<Rightarrow>
                    (case request_decode P msg_buf of
                       Inl e \<Rightarrow> Inl (DecodeFailed e) | Inr req \<Rightarrow> Inr (req, io2))))"

definition read_response :: "dht_prost \<Rightarrow> bytes \<Rightarrow> codec_error + (dht_response \<times> bytes)" where
  "read_response P io =
     (case read_exact 8 io of
        Inl _ \<Rightarrow> Inl CodecEof
      | Inr (len_buf, io1) \<Rightarrow>
          (let len = unat (u64_from_be_bytes len_buf) in
           if len > MAX_MESSAGE_SIZE then Inl (MessageTooLarge len)
           else case read_exact len io1 of
                  Inl _ \<Rightarrow> Inl CodecEof
                | Inr (msg_buf, io2) \<Rightarrow>
                    (case response_decode P msg_buf of
                       Inl e \<Rightarrow> Inl (DecodeFailed e) | Inr res \<Rightarrow> Inr (res, io2))))"

text \<open>Writing appends the encoded frame to what the peer will read.\<close>

definition write_request :: "dht_prost \<Rightarrow> bytes \<Rightarrow> dht_request \<Rightarrow> codec_error + bytes" where
  "write_request P io req =
     (case request_encode P req of Inl e \<Rightarrow> Inl (DecodeFailed e) | Inr bs \<Rightarrow> Inr (io @ bs))"

definition write_response :: "dht_prost \<Rightarrow> bytes \<Rightarrow> dht_response \<Rightarrow> codec_error + bytes" where
  "write_response P io res =
     (case response_encode P res of Inl e \<Rightarrow> Inl (DecodeFailed e) | Inr bs \<Rightarrow> Inr (io @ bs))"

section \<open>The codecs meet the contract\<close>

definition request_frame :: "dht_prost \<Rightarrow> dht_request \<Rightarrow> bytes" where
  "request_frame P r = (case request_encode P r of Inr bs \<Rightarrow> bs | Inl _ \<Rightarrow> [])"

definition response_frame :: "dht_prost \<Rightarrow> dht_response \<Rightarrow> bytes" where
  "response_frame P r = (case response_encode P r of Inr bs \<Rightarrow> bs | Inl _ \<Rightarrow> [])"

definition request_fits :: "dht_prost \<Rightarrow> dht_request \<Rightarrow> bool" where
  "request_fits P r \<longleftrightarrow>
     1 + length (snd (request_payload P r)) \<le> MAX_MESSAGE_SIZE"

definition response_fits :: "dht_prost \<Rightarrow> dht_response \<Rightarrow> bool" where
  "response_fits P r \<longleftrightarrow>
     1 + length (snd (response_payload P r)) \<le> MAX_MESSAGE_SIZE"

lemma request_decode_payload:
  assumes "prost_request_ok P r" "request_payload P r = (m, bs)"
  shows "request_decode P (marker_as_u8 m # bs) = Inr r"
  using assms by (cases r) (auto simp: map_decode_def simp del: marker_as_u8.simps)

lemma response_decode_payload:
  assumes "prost_response_ok P r" "response_payload P r = (m, bs)"
  shows "response_decode P (marker_as_u8 m # bs) = Inr r"
  using assms by (cases r) (auto simp: map_decode_def simp del: marker_as_u8.simps)

lemma unat_len_word: "n \<le> MAX_MESSAGE_SIZE \<Longrightarrow> unat (word_of_nat n :: u64) = n"
  by (simp add: unat_of_nat MAX_MESSAGE_SIZE_def)

lemma read_request_frame:
  assumes "prost_request_ok P m" "request_fits P m"
  shows "read_request P (request_frame P m @ rest) = Inr (m, rest)"
proof -
  obtain k bs where p: "request_payload P m = (k, bs)" by fastforce
  define n body where "n = 1 + length bs" and "body = marker_as_u8 k # bs"
  have "request_frame P m = u64_to_be_bytes (word_of_nat n) @ body"
    by (simp add: request_frame_def request_encode_def p n_def body_def)
  moreover have "n \<le> MAX_MESSAGE_SIZE" "length body = n"
    using assms p by (simp_all add: request_fits_def n_def body_def)
  moreover have "request_decode P body = Inr m"
    using request_decode_payload [OF assms(1) p] by (simp add: body_def)
  ultimately show ?thesis
    by (simp add: read_request_def rust_simps unat_len_word)
qed

interpretation req: frame_codec "\<lambda>r. prost_request_ok P r \<and> request_fits P r" "request_frame P" "read_request P" for P
  by unfold_locales (simp add: read_request_frame)

lemma read_response_frame:
  assumes "prost_response_ok P m" "response_fits P m"
  shows "read_response P (response_frame P m @ rest) = Inr (m, rest)"
proof -
  obtain k bs where p: "response_payload P m = (k, bs)" by fastforce
  define n body where "n = 1 + length bs" and "body = marker_as_u8 k # bs"
  have "response_frame P m = u64_to_be_bytes (word_of_nat n) @ body"
    by (simp add: response_frame_def response_encode_def p n_def body_def)
  moreover have "n \<le> MAX_MESSAGE_SIZE" "length body = n"
    using assms p by (simp_all add: response_fits_def n_def body_def)
  moreover have "response_decode P body = Inr m"
    using response_decode_payload [OF assms(1) p] by (simp add: body_def)
  ultimately show ?thesis
    by (simp add: read_response_def rust_simps unat_len_word)
qed

interpretation res: frame_codec "\<lambda>r. prost_response_ok P r \<and> response_fits P r" "response_frame P" "read_response P" for P
  by unfold_locales (simp add: read_response_frame)

section \<open>Conversations and oversized messages\<close>

text \<open>Several requests written to one stream, one after the other.\<close>

fun write_requests :: "dht_prost \<Rightarrow> bytes \<Rightarrow> dht_request list \<Rightarrow> codec_error + bytes" where
  "write_requests P io [] = Inr io"
| "write_requests P io (r # rs) =
     (case write_request P io r of Inl e \<Rightarrow> Inl e | Inr io' \<Rightarrow> write_requests P io' rs)"

lemma write_request_frame: "write_request P io r = Inr (io @ request_frame P r)"
  by (simp add: write_request_def request_frame_def request_encode_def pair_simps)

lemma write_requests_frames:
  "write_requests P io rs = Inr (io @ concat (map (request_frame P) rs))"
  by (induction rs arbitrary: io) (simp_all add: write_request_frame)

lemma read_request_too_large:
  assumes "MAX_MESSAGE_SIZE < n" "n < 2 ^ 64"
  shows "read_request P (u64_to_be_bytes (word_of_nat n) @ rest) = Inl (MessageTooLarge n)"
  using assms by (simp add: read_request_def rust_simps unat_of_nat)

section \<open>Properties\<close>

text \<open>
  C29: Requests written to a stream one after the other are read back one after the other:
  the reader returns exactly the requests, in order, and leaves exactly the bytes that
  follow them, whenever prost decodes what it encoded and every frame is within the
  10 MB limit.
\<close>

theorem request_stream_roundtrip:
  assumes "\<And>r. r \<in> set rs \<Longrightarrow> prost_request_ok P r \<and> request_fits P r"
  shows "\<exists>bs. write_requests P [] rs = Inr bs \<and>
              frame_codec.read_n (read_request P) (length rs) (bs @ rest) = Inr (rs, rest)"
  using req.read_n_concat [of rs P rest] assms by (simp add: write_requests_frames)

text \<open>
  The limit is enforced by the reader only. Encoding accepts a message of any size; the
  reader answers a frame within the limit with the message and a larger frame with
  \<open>MessageTooLarge\<close> before it reads the body, whatever follows.
\<close>

theorem read_request_limit:
  assumes "prost_request_ok P r" "1 + length (snd (request_payload P r)) < 2 ^ 64"
  shows "request_encode P r = Inr (request_frame P r) \<and>
    read_request P (request_frame P r @ rest) =
      (if 1 + length (snd (request_payload P r)) \<le> 10485760 then Inr (r, rest)
       else Inl (MessageTooLarge (1 + length (snd (request_payload P r)))))"
proof -
  have enc: "request_encode P r = Inr (request_frame P r)"
    by (simp add: request_frame_def request_encode_def pair_simps)
  show ?thesis
  proof (cases "request_fits P r")
    case True
    with enc read_request_frame [OF assms(1) True] show ?thesis
      by (simp add: request_fits_def MAX_MESSAGE_SIZE_def)
  next
    case False
    define n where "n = 1 + length (snd (request_payload P r))"
    define body where "body = marker_as_u8 (fst (request_payload P r)) # snd (request_payload P r)"
    have "request_frame P r @ rest = u64_to_be_bytes (word_of_nat n) @ (body @ rest)"
      by (simp add: request_frame_def request_encode_def pair_simps n_def body_def)
    moreover have "MAX_MESSAGE_SIZE < n" using False by (simp add: request_fits_def n_def)
    moreover have "n < 2 ^ 64" using assms(2) by (simp only: n_def)
    ultimately have "read_request P (request_frame P r @ rest) = Inl (MessageTooLarge n)"
      using read_request_too_large [of n P "body @ rest"] by (simp only:)
    with enc False show ?thesis by (simp add: request_fits_def MAX_MESSAGE_SIZE_def n_def)
  qed
qed

text \<open>Instances at a PING and a FIND, with a protobuf codec for these two messages.\<close>

definition demo_ping :: ping_request where
  "demo_ping = \<lparr>pq_auth = None, pq_peer = None, pq_validate = True\<rparr>"

definition demo_find :: find_request where
  "demo_find = \<lparr>fq_auth = None, fq_keys = [ [7, 8], [9] ], fq_peer = None\<rparr>"

definition demo_prost :: dht_prost where
  "demo_prost =
     \<lparr>enc_ping_req = (\<lambda>m. if m = demo_ping then [0x18, 1] else []),
      dec_ping_req = (\<lambda>bs. if bs = [0x18, 1] then Inr demo_ping else Inl ''ping''),
      enc_store_req = (\<lambda>_. []), dec_store_req = (\<lambda>_. Inl ''store''),
      enc_find_req = (\<lambda>m. if m = demo_find then [0x12, 2, 7, 8, 0x12, 1, 9] else []),
      dec_find_req = (\<lambda>bs. if bs = [0x12, 2, 7, 8, 0x12, 1, 9] then Inr demo_find else Inl ''find''),
      enc_ping_res = (\<lambda>_. []), dec_ping_res = (\<lambda>_. Inl ''ping''),
      enc_store_res = (\<lambda>_. []), dec_store_res = (\<lambda>_. Inl ''store''),
      enc_find_res = (\<lambda>_. []), dec_find_res = (\<lambda>_. Inl ''find'')\<rparr>"

lemma demo_prost_ok:
  "prost_request_ok demo_prost (ReqPing demo_ping)" "request_fits demo_prost (ReqPing demo_ping)"
  "prost_request_ok demo_prost (ReqFind demo_find)" "request_fits demo_prost (ReqFind demo_find)"
  by (simp_all add: demo_prost_def request_fits_def MAX_MESSAGE_SIZE_def)

theorem request_stream_roundtrip_witness:
  "\<exists>bs. write_requests demo_prost [] [ReqFind demo_find, ReqPing demo_ping] = Inr bs \<and>
     frame_codec.read_n (read_request demo_prost) (length [ReqFind demo_find, ReqPing demo_ping]) (bs @ [42]) =
       Inr ([ReqFind demo_find, ReqPing demo_ping], [42])"
  by (rule request_stream_roundtrip) (use demo_prost_ok in auto)

theorem read_request_limit_witness:
  "read_request demo_prost (request_frame demo_prost (ReqFind demo_find) @ [1, 2]) =
     Inr (ReqFind demo_find, [1, 2])"
  using read_request_limit [OF demo_prost_ok(3), of "[1, 2]"]
  by (simp add: demo_prost_def)

end
