(* ===== verification/Dht_Server.thy ===== *)
theory Dht_Server
  imports Dht_Codec
begin

text \<open>
  The DHT storage server (\<open>kwaai-hivemind-dht/src/server.rs\<close>). The state is the key-value
  table, the known peers, and whether each lock is poisoned (a panic while it was held),
  because the handlers answer differently then. \<open>get_dht_time\<close> is a clock: \<open>clk n\<close> is its
  \<open>n\<close>-th reading, and each handler returns the number of the next reading, so the several
  readings inside one handler may differ.

  Lemmas: each handler's functional behaviour, the invariant of the table, the abstract
  view as a map from keys to values with expirations, and that \<open>cleanup_expired\<close> is not
  observable through FIND.
\<close>

section \<open>State\<close>

record stored_value =
  sv_value :: bytes
  sv_expiration_time :: f64
  sv_in_cache :: bool

record 'p dht_storage =
  ds_storage :: "(bytes, stored_value) hashmap"
  ds_local_peer_id :: 'p
  ds_peers :: "'p list"
  ds_storage_poisoned :: bool
  ds_peers_poisoned :: bool

type_synonym clock = "nat \<Rightarrow> f64"

definition dht_storage_new :: "'p \<Rightarrow> 'p dht_storage" where
  "dht_storage_new local_peer_id =
     \<lparr>ds_storage = [], ds_local_peer_id = local_peer_id, ds_peers = [],
      ds_storage_poisoned = False, ds_peers_poisoned = False\<rparr>"

definition update_peers :: "'p list \<Rightarrow> 'p dht_storage \<Rightarrow> 'p dht_storage" where
  "update_peers peers s = (if ds_peers_poisoned s then s else s\<lparr>ds_peers := peers\<rparr>)"

text \<open>The clock is read before the lock is taken.\<close>

definition cleanup_expired :: "clock \<Rightarrow> nat \<Rightarrow> 'p dht_storage \<Rightarrow> 'p dht_storage \<times> nat" where
  "cleanup_expired clk t s =
     (let now = clk t in
      (if ds_storage_poisoned s then s
       else s\<lparr>ds_storage := hm_retain (\<lambda>_ v. f64_lt now (sv_expiration_time v)) (ds_storage s)\<rparr>,
       Suc t))"

section \<open>STORE\<close>

text \<open>
  One iteration for key number \<open>i\<close>. Rust evaluates the argument of \<open>unwrap_or\<close> eagerly, so
  the clock is read once for the default expiration and once for the check.
\<close>

definition store_step ::
    "clock \<Rightarrow> store_request \<Rightarrow> nat \<Rightarrow> bytes \<Rightarrow> nat \<Rightarrow> (bytes, stored_value) hashmap
      \<Rightarrow> (bytes, stored_value) hashmap \<times> bool \<times> nat" where
  "store_step clk req i key t storage =
     (let v = unwrap_or (vec_get (sq_values req) i) [];
          expiration_time = unwrap_or (vec_get (sq_expiration_time req) i)
                              (f64_add (clk t) (Fin 3600));
          in_cache = unwrap_or (vec_get (sq_in_cache req) i) False
      in if f64_lt (clk (Suc t)) expiration_time
         then (hm_insert key \<lparr>sv_value = v, sv_expiration_time = expiration_time,
                              sv_in_cache = in_cache\<rparr> storage, True, t + 2)
         else (storage, False, t + 2))"

fun store_loop ::
    "clock \<Rightarrow> store_request \<Rightarrow> nat \<Rightarrow> bytes list \<Rightarrow> nat \<Rightarrow> (bytes, stored_value) hashmap
      \<Rightarrow> (bytes, stored_value) hashmap \<times> bool list \<times> nat" where
  "store_loop clk req i [] t storage = (storage, [], t)"
| "store_loop clk req i (key # ks) t storage =
     (let (storage1, ok, t1) = store_step clk req i key t storage;
          (storage2, oks, t2) = store_loop clk req (Suc i) ks t1 storage1
      in (storage2, ok # oks, t2))"

definition handle_store ::
    "'p peer_id_ops \<Rightarrow> clock \<Rightarrow> nat \<Rightarrow> store_request \<Rightarrow> 'p dht_storage
      \<Rightarrow> 'p dht_storage \<times> store_response \<times> nat" where
  "handle_store P clk t request s =
     (let (s', store_ok, t') =
            (if ds_storage_poisoned s then (s, replicate (length (sq_keys request)) False, t)
             else let (st, oks, t1) = store_loop clk request 0 (sq_keys request) t (ds_storage s)
                  in (s\<lparr>ds_storage := st\<rparr>, oks, t1))
      in (s', \<lparr>sr_auth = Some response_auth_new, sr_store_ok = store_ok,
               sr_peer = Some (node_info_from_peer_id P (ds_local_peer_id s))\<rparr>, t'))"

section \<open>FIND\<close>

definition nearest_ids :: "'p peer_id_ops \<Rightarrow> 'p dht_storage \<Rightarrow> bytes list \<times> bytes list" where
  "nearest_ids P s =
     (if ds_peers_poisoned s then ([], [])
      else let node_peer_pairs = map (\<lambda>p. (node_id (node_info_from_peer_id P p), pid_to_bytes P p))
                                   (take 20 (ds_peers s))
           in (map fst node_peer_pairs, map snd node_peer_pairs))"

text \<open>One key: the clock is read only when the key is present.\<close>

definition find_one ::
    "clock \<Rightarrow> nat \<Rightarrow> (bytes, stored_value) hashmap \<Rightarrow> bytes list \<Rightarrow> bytes list \<Rightarrow> bytes
      \<Rightarrow> find_result \<times> nat" where
  "find_one clk t storage nids pids key =
     (case hm_get storage key of
        Some sv \<Rightarrow>
          (if f64_lt (clk t) (sv_expiration_time sv)
           then \<lparr>fr_result_type = result_type_as_i32 FoundRegular, fr_value = sv_value sv,
                 fr_expiration_time = sv_expiration_time sv,
                 fr_nearest_node_ids = nids, fr_nearest_peer_ids = pids\<rparr>
           else \<lparr>fr_result_type = result_type_as_i32 NotFound, fr_value = [],
                 fr_expiration_time = Fin 0,
                 fr_nearest_node_ids = nids, fr_nearest_peer_ids = pids\<rparr>, Suc t)
      | None \<Rightarrow>
          (\<lparr>fr_result_type = result_type_as_i32 NotFound, fr_value = [],
            fr_expiration_time = Fin 0,
            fr_nearest_node_ids = nids, fr_nearest_peer_ids = pids\<rparr>, t))"

fun find_loop ::
    "clock \<Rightarrow> nat \<Rightarrow> (bytes, stored_value) hashmap \<Rightarrow> bytes list \<Rightarrow> bytes list \<Rightarrow> bytes list
      \<Rightarrow> find_result list \<times> nat" where
  "find_loop clk t storage nids pids [] = ([], t)"
| "find_loop clk t storage nids pids (key # ks) =
     (let (r, t1) = find_one clk t storage nids pids key;
          (rs, t2) = find_loop clk t1 storage nids pids ks
      in (r # rs, t2))"

definition handle_find ::
    "'p peer_id_ops \<Rightarrow> clock \<Rightarrow> nat \<Rightarrow> find_request \<Rightarrow> 'p dht_storage \<Rightarrow> find_response \<times> nat" where
  "handle_find P clk t request s =
     (let (nids, pids) = nearest_ids P s;
          (results, t') =
            (if ds_storage_poisoned s then ([], t)
             else find_loop clk t (ds_storage s) nids pids (fq_keys request))
      in (\<lparr>fp_auth = Some response_auth_new, fp_results = results,
           fp_peer = Some (node_info_from_peer_id P (ds_local_peer_id s))\<rparr>, t'))"

section \<open>Dispatch and statistics\<close>

fun handle_request ::
    "'p peer_id_ops \<Rightarrow> clock \<Rightarrow> nat \<Rightarrow> dht_request \<Rightarrow> 'p dht_storage
      \<Rightarrow> 'p dht_storage \<times> (dht_error + dht_response) \<times> nat" where
  "handle_request P clk t (ReqStore store_req) s =
     (let (s', r, t') = handle_store P clk t store_req s in (s', Inr (ResStore r), t'))"
| "handle_request P clk t (ReqFind find_req) s =
     (let (r, t') = handle_find P clk t find_req s in (s, Inr (ResFind r), t'))"
| "handle_request P clk t (ReqPing _) s =
     (s, Inr (ResPing \<lparr>pr_auth = Some response_auth_new,
                       pr_peer = Some (node_info_from_peer_id P (ds_local_peer_id s)),
                       pr_dht_time = clk t, pr_available = True\<rparr>), Suc t)"

definition dht_stats :: "clock \<Rightarrow> nat \<Rightarrow> 'p dht_storage \<Rightarrow> (nat \<times> nat) \<times> nat" where
  "dht_stats clk t s =
     (if ds_storage_poisoned s then ((0, 0), t)
      else let now = clk t;
               total = hm_len (ds_storage s);
               valid = length (filter (\<lambda>v. f64_lt now (sv_expiration_time v))
                                (hm_values (ds_storage s)))
           in ((total, valid), Suc t))"

section \<open>Behaviour of STORE\<close>

text \<open>
  What key number \<open>i\<close> of a request asks for, given the reading \<open>d\<close> for the default
  expiration: the entry, accepted exactly when it is unexpired at the second reading.
\<close>

definition requested_entry :: "store_request \<Rightarrow> nat \<Rightarrow> f64 \<Rightarrow> stored_value" where
  "requested_entry req i d =
     \<lparr>sv_value = unwrap_or (vec_get (sq_values req) i) [],
      sv_expiration_time = unwrap_or (vec_get (sq_expiration_time req) i) (f64_add d (Fin 3600)),
      sv_in_cache = unwrap_or (vec_get (sq_in_cache req) i) False\<rparr>"

definition accepts :: "clock \<Rightarrow> store_request \<Rightarrow> nat \<Rightarrow> nat \<Rightarrow> bool" where
  "accepts clk req i t \<longleftrightarrow>
     f64_lt (clk (Suc t)) (sv_expiration_time (requested_entry req i (clk t)))"

lemma store_step_eq:
  "store_step clk req i key t st =
     (if accepts clk req i t then hm_insert key (requested_entry req i (clk t)) st else st,
      accepts clk req i t, t + 2)"
  by (simp add: store_step_def accepts_def requested_entry_def Let_def)

lemma store_loop_ok:
  "fst (snd (store_loop clk req i ks t st)) =
     map (\<lambda>j. accepts clk req (i + j) (t + 2 * j)) [0..<length ks]"
proof (induction ks arbitrary: i t st)
  case Nil
  then show ?case by simp
next
  case (Cons k ks)
  have "map (\<lambda>j. accepts clk req (i + j) (t + 2 * j)) [0..<length (k # ks)] =
      accepts clk req i t # map (\<lambda>j. accepts clk req (Suc i + j) (t + 2 + 2 * j)) [0..<length ks]"
    by (simp add: upt_conv_Cons map_Suc_upt [symmetric] del: upt_Suc)
  with Cons.IH show ?case
    by (simp add: store_step_eq pair_simps)
qed

lemma store_loop_clock: "snd (snd (store_loop clk req i ks t st)) = t + 2 * length ks"
  by (induction ks arbitrary: i t st) (simp_all add: store_step_eq pair_simps)

text \<open>The table after STORE: the last accepted write to a key wins, other keys keep theirs.\<close>

fun last_accepted ::
    "clock \<Rightarrow> store_request \<Rightarrow> nat \<Rightarrow> bytes list \<Rightarrow> nat \<Rightarrow> bytes \<Rightarrow> stored_value option
      \<Rightarrow> stored_value option" where
  "last_accepted clk req i [] t k cur = cur"
| "last_accepted clk req i (key # ks) t k cur =
     last_accepted clk req (Suc i) ks (t + 2) k
       (if key = k \<and> accepts clk req i t then Some (requested_entry req i (clk t)) else cur)"

lemma store_loop_get:
  "hm_get (fst (store_loop clk req i ks t st)) k =
     last_accepted clk req i ks t k (hm_get st k)"
proof (induction ks arbitrary: i t st)
  case Nil
  then show ?case by simp
next
  case (Cons key ks)
  show ?case
    using Cons.IH [of "Suc i" "t + 2" "if accepts clk req i t
        then hm_insert key (requested_entry req i (clk t)) st else st"]
    by (auto simp: store_step_eq pair_simps)
qed

lemma store_loop_wf: "hm_wf st \<Longrightarrow> hm_wf (fst (store_loop clk req i ks t st))"
proof (induction ks arbitrary: i t st)
  case Nil
  then show ?case by simp
next
  case (Cons key ks)
  show ?case
    using Cons.IH [of "if accepts clk req i t
        then hm_insert key (requested_entry req i (clk t)) st else st" "Suc i" "t + 2"] Cons.prems
    by (auto simp: store_step_eq pair_simps)
qed

lemma last_accepted_absent: "k \<notin> set ks \<Longrightarrow> last_accepted clk req i ks t k cur = cur"
  by (induction ks arbitrary: i t) auto

lemma last_accepted_nth:
  assumes "j < length ks" "ks ! j = k" "distinct ks"
  shows "last_accepted clk req i ks t k cur =
    (if accepts clk req (i + j) (t + 2 * j)
     then Some (requested_entry req (i + j) (clk (t + 2 * j))) else cur)"
  using assms
proof (induction ks arbitrary: i t j cur)
  case Nil
  then show ?case by simp
next
  case (Cons key ks)
  show ?case
  proof (cases j)
    case 0
    with Cons.prems show ?thesis by (auto simp: last_accepted_absent)
  next
    case (Suc j')
    with Cons.prems have "key \<noteq> k" by auto
    with Cons.IH [of j' "Suc i" "t + 2" cur] Cons.prems Suc show ?thesis by simp
  qed
qed

lemma handle_store_frame:
  "ds_local_peer_id (fst (handle_store P clk t req s)) = ds_local_peer_id s"
  "ds_peers (fst (handle_store P clk t req s)) = ds_peers s"
  "ds_storage_poisoned (fst (handle_store P clk t req s)) = ds_storage_poisoned s"
  by (simp_all add: handle_store_def pair_simps)

lemma handle_store_get:
  "\<not> ds_storage_poisoned s \<Longrightarrow>
     hm_get (ds_storage (fst (handle_store P clk t req s))) k =
       last_accepted clk req 0 (sq_keys req) t k (hm_get (ds_storage s) k)"
  using store_loop_get [of clk req 0 "sq_keys req" t "ds_storage s" k]
  by (simp add: handle_store_def pair_simps)

section \<open>Behaviour of FIND\<close>

lemma find_loop_length: "length (fst (find_loop clk t st nids pids ks)) = length ks"
  by (induction ks arbitrary: t) (simp_all add: pair_simps)

text \<open>The reading that key number \<open>j\<close> sees: one per earlier key that is present.\<close>

definition find_reading :: "(bytes, stored_value) hashmap \<Rightarrow> bytes list \<Rightarrow> nat \<Rightarrow> nat \<Rightarrow> nat" where
  "find_reading st ks t j = t + length (filter (\<lambda>k. hm_get st k \<noteq> None) (take j ks))"

lemma find_one_clock:
  "snd (find_one clk t st nids pids k) = (if hm_get st k = None then t else Suc t)"
  by (auto simp: find_one_def split: option.split)

lemma find_loop_nth:
  "j < length ks \<Longrightarrow>
     fst (find_loop clk t st nids pids ks) ! j =
       fst (find_one clk (find_reading st ks t j) st nids pids (ks ! j))"
proof (induction ks arbitrary: t j)
  case Nil
  then show ?case by simp
next
  case (Cons k ks)
  show ?case
  proof (cases j)
    case 0
    then show ?thesis by (simp add: find_reading_def pair_simps)
  next
    case (Suc j')
    with Cons show ?thesis
      using find_one_clock [of clk t st nids pids k]
      by (simp add: find_reading_def pair_simps)
  qed
qed

lemma nearest_ids_length:
  "length (fst (nearest_ids P s)) \<le> 20" "length (snd (nearest_ids P s)) \<le> 20"
  "length (fst (nearest_ids P s)) = length (snd (nearest_ids P s))"
  by (simp_all add: nearest_ids_def Let_def)

section \<open>Reachable states\<close>

text \<open>
  Any interleaving of the public operations, and locks poisoned at any time. The history lists the STORE
  requests handled so far, each with the number of the first clock reading of its handler; the last
  component is the number of the next clock reading.
\<close>

fun stores_of :: "nat \<Rightarrow> dht_request \<Rightarrow> (nat \<times> store_request) list" where
  "stores_of t (ReqStore req) = [(t, req)]"
| "stores_of t _ = []"

inductive dht_reachable ::
    "'p peer_id_ops \<Rightarrow> clock \<Rightarrow> (nat \<times> store_request) list \<Rightarrow> 'p dht_storage \<Rightarrow> nat \<Rightarrow> bool" for P clk where
  start: "dht_reachable P clk [] (dht_storage_new p) 0"
| peers: "dht_reachable P clk h s t \<Longrightarrow> dht_reachable P clk h (update_peers ps s) t"
| cleanup: "dht_reachable P clk h s t \<Longrightarrow> cleanup_expired clk t s = (s', t') \<Longrightarrow>
    dht_reachable P clk h s' t'"
| request: "dht_reachable P clk h s t \<Longrightarrow> handle_request P clk t r s = (s', res, t') \<Longrightarrow>
    dht_reachable P clk (h @ stores_of t r) s' t'"
| poison_storage: "dht_reachable P clk h s t \<Longrightarrow> dht_reachable P clk h (s\<lparr>ds_storage_poisoned := True\<rparr>) t"
| poison_peers: "dht_reachable P clk h s t \<Longrightarrow> dht_reachable P clk h (s\<lparr>ds_peers_poisoned := True\<rparr>) t"

text \<open>
  Key number \<open>j\<close> of a request of the history asked for the entry, and the entry was unexpired at the very
  reading that the handler made for this key, reading number \<open>2 * j + 1\<close> of the request.
\<close>

definition stored_by :: "clock \<Rightarrow> (nat \<times> store_request) list \<Rightarrow> nat \<Rightarrow> bytes \<Rightarrow> stored_value \<Rightarrow> bool" where
  "stored_by clk h t k v \<longleftrightarrow> (\<exists>t0 req j. (t0, req) \<in> set h \<and> j < length (sq_keys req) \<and> sq_keys req ! j = k \<and> t0 + 2 * j + 1 < t \<and>
     v = requested_entry req j (clk (t0 + 2 * j)) \<and> f64_lt (clk (t0 + 2 * j + 1)) (sv_expiration_time v))"

definition dht_inv :: "clock \<Rightarrow> (nat \<times> store_request) list \<Rightarrow> nat \<Rightarrow> (bytes, stored_value) hashmap \<Rightarrow> bool" where
  "dht_inv clk h t st \<longleftrightarrow> hm_wf st \<and> (\<forall>k v. hm_get st k = Some v \<longrightarrow> stored_by clk h t k v)"

lemma stored_by_mono:
  assumes "stored_by clk h t k v" "t \<le> t'"
  shows "stored_by clk (h @ h') t' k v"
proof -
  obtain t0 req j where "(t0, req) \<in> set h" "j < length (sq_keys req)" "sq_keys req ! j = k" "t0 + 2 * j + 1 < t"
    "v = requested_entry req j (clk (t0 + 2 * j))" "f64_lt (clk (t0 + 2 * j + 1)) (sv_expiration_time v)"
    using assms(1) unfolding stored_by_def by blast
  then show ?thesis using assms(2) unfolding stored_by_def by (intro exI [of _ t0] exI [of _ req] exI [of _ j]) simp
qed

lemma stored_by_not_NaN: "stored_by clk h t k v \<Longrightarrow> sv_expiration_time v \<noteq> NaN"
  unfolding stored_by_def by (elim exE conjE) (auto simp: f64_lt_NaN)

lemma dht_inv_mono: "dht_inv clk h t st \<Longrightarrow> t \<le> t' \<Longrightarrow> dht_inv clk h t' st"
  using stored_by_mono [of clk h t _ _ t' "[]"] by (auto simp: dht_inv_def)

lemma last_accepted_source:
  "last_accepted clk req i ks t k cur = Some v \<Longrightarrow>
     cur = Some v \<or> (\<exists>j < length ks. ks ! j = k \<and> accepts clk req (i + j) (t + 2 * j) \<and> v = requested_entry req (i + j) (clk (t + 2 * j)))"
proof (induction ks arbitrary: i t cur)
  case (Cons key ks)
  let ?cur = "if key = k \<and> accepts clk req i t then Some (requested_entry req i (clk t)) else cur"
  have "last_accepted clk req (Suc i) ks (t + 2) k ?cur = Some v" using Cons.prems by simp
  from Cons.IH [OF this] show ?case
  proof
    assume here: "?cur = Some v"
    show ?thesis
    proof (cases "key = k \<and> accepts clk req i t")
      case True
      with here show ?thesis by (intro disjI2 exI [of _ 0]) simp
    next
      case False
      with here have "cur = Some v" by (simp only: if_False)
      then show ?thesis ..
    qed
  next
    assume "\<exists>j < length ks. ks ! j = k \<and> accepts clk req (Suc i + j) (t + 2 + 2 * j) \<and> v = requested_entry req (Suc i + j) (clk (t + 2 + 2 * j))"
    then obtain j where "j < length ks" "ks ! j = k" "accepts clk req (Suc i + j) (t + 2 + 2 * j)"
      "v = requested_entry req (Suc i + j) (clk (t + 2 + 2 * j))" by blast
    then show ?thesis by (intro disjI2 exI [of _ "Suc j"]) simp
  qed
qed simp

lemma handle_store_clock:
  "snd (snd (handle_store P clk t req s)) =
     (if ds_storage_poisoned s then t else t + 2 * length (sq_keys req))"
  by (simp add: handle_store_def pair_simps store_loop_clock)

lemma handle_store_inv:
  assumes "dht_inv clk h t (ds_storage s)"
  shows "dht_inv clk (h @ [(t, req)]) (snd (snd (handle_store P clk t req s))) (ds_storage (fst (handle_store P clk t req s)))"
proof (cases "ds_storage_poisoned s")
  case True
  with assms show ?thesis by (auto simp: handle_store_def pair_simps dht_inv_def intro: stored_by_mono)
next
  case False
  have "hm_wf (ds_storage (fst (handle_store P clk t req s)))"
    using assms False store_loop_wf by (simp add: handle_store_def pair_simps dht_inv_def)
  moreover have "stored_by clk (h @ [(t, req)]) (t + 2 * length (sq_keys req)) k v"
    if v: "hm_get (ds_storage (fst (handle_store P clk t req s))) k = Some v" for k v
    using last_accepted_source [OF v [unfolded handle_store_get [OF False]]]
  proof
    assume "hm_get (ds_storage s) k = Some v"
    then have "stored_by clk h t k v" using assms by (simp add: dht_inv_def)
    then show ?thesis by (rule stored_by_mono) simp
  next
    assume "\<exists>j < length (sq_keys req). sq_keys req ! j = k \<and> accepts clk req (0 + j) (t + 2 * j) \<and> v = requested_entry req (0 + j) (clk (t + 2 * j))"
    then obtain j where "j < length (sq_keys req)" "sq_keys req ! j = k" "accepts clk req j (t + 2 * j)"
      "v = requested_entry req j (clk (t + 2 * j))" by auto
    then show ?thesis unfolding stored_by_def accepts_def by (intro exI [of _ t] exI [of _ req] exI [of _ j]) simp
  qed
  ultimately show ?thesis using False by (simp add: dht_inv_def handle_store_clock)
qed

lemma cleanup_inv:
  assumes "dht_inv clk h t (ds_storage s)"
  shows "dht_inv clk h (snd (cleanup_expired clk t s)) (ds_storage (fst (cleanup_expired clk t s)))"
proof (cases "ds_storage_poisoned s")
  case True
  with assms show ?thesis by (simp add: cleanup_expired_def Let_def dht_inv_mono)
next
  case False
  have "stored_by clk h (Suc t) k v"
    if "hm_get (hm_retain (\<lambda>_ v. f64_lt (clk t) (sv_expiration_time v)) (ds_storage s)) k = Some v" for k v
    using that dht_inv_mono [OF assms, of "Suc t"]
    by (auto simp: hm_get_retain dht_inv_def split: option.splits if_splits)
  with False assms show ?thesis by (simp add: cleanup_expired_def Let_def dht_inv_def)
qed

lemma handle_find_clock: "t \<le> snd (handle_find P clk t req s)"
proof -
  have "t \<le> snd (find_loop clk t st nids pids ks)" for st nids pids ks
    by (induction ks arbitrary: t) (auto simp: pair_simps find_one_clock intro: le_trans Suc_leD)
  then show ?thesis by (simp add: handle_find_def pair_simps)
qed

lemma handle_request_inv:
  assumes "dht_inv clk h t (ds_storage s)"
  shows "dht_inv clk (h @ stores_of t r) (snd (snd (handle_request P clk t r s))) (ds_storage (fst (handle_request P clk t r s)))"
proof (cases r)
  case (ReqStore req)
  then show ?thesis using handle_store_inv [OF assms, of req P] by (simp add: pair_simps)
next
  case (ReqFind req)
  then show ?thesis using dht_inv_mono [OF assms handle_find_clock [of t P clk req s]] by (simp add: pair_simps)
qed (use dht_inv_mono [OF assms, of "Suc t"] in simp)

lemma dht_reachable_inv: "dht_reachable P clk h s t \<Longrightarrow> dht_inv clk h t (ds_storage s)"
proof (induction rule: dht_reachable.induct)
  case (start p)
  then show ?case by (simp add: dht_storage_new_def dht_inv_def)
next
  case (peers h s t ps)
  then show ?case by (simp add: update_peers_def)
next
  case (cleanup h s t s' t')
  then show ?case using cleanup_inv [of clk h t s] by simp
next
  case (request h s t r s' res t')
  then show ?case using handle_request_inv [of clk h t s r P] by simp
qed simp_all

section \<open>Properties\<close>

text \<open>
  C28: In every state the server can reach, whatever the requests, clean-ups and poisoned
  locks, the table has one entry per key, and every entry was asked for by a STORE request of
  the history and was unexpired at the reading that the handler of this request made for its
  key: nothing that is expired when it arrives is ever stored, and neither is a NaN expiration.
\<close>

theorem dht_table_invariant:
  assumes "dht_reachable P clk h s t"
  shows "distinct (map fst (ds_storage s)) \<and>
    (\<forall>(k, v) \<in> set (ds_storage s). sv_expiration_time v \<noteq> NaN \<and> stored_by clk h t k v)"
proof -
  from dht_reachable_inv [OF assms] have inv: "dht_inv clk h t (ds_storage s)" .
  then have wf: "hm_wf (ds_storage s)" by (simp add: dht_inv_def)
  have "sv_expiration_time v \<noteq> NaN \<and> stored_by clk h t k v" if "(k, v) \<in> set (ds_storage s)" for k v
  proof -
    have "hm_get (ds_storage s) k = Some v" using that hm_get_in_set [OF wf] by metis
    then have "stored_by clk h t k v" using inv by (simp add: dht_inv_def)
    then show ?thesis using stored_by_not_NaN by simp
  qed
  with wf show ?thesis by (auto simp: hm_wf_def)
qed

text \<open>
  C7: STORE then FIND. After a STORE of distinct keys, a FIND that asks for the \<open>j\<close>-th of them
  answers with the stored bytes and expiration as long as the expiration lies after the
  reading FIND makes, and with "not found" from then on, provided STORE accepted the entry
  (its expiration lay after the reading made for it).
\<close>

theorem dht_store_find:
  assumes "\<not> ds_storage_poisoned s" "distinct (sq_keys req)" "j < length (sq_keys req)"
    and "handle_store P clk t req s = (s', sres, t')" "sr_store_ok sres ! j"
    and "handle_find P clk' u fr s' = (fres, u')" "i < length (fq_keys fr)" "fq_keys fr ! i = sq_keys req ! j"
  shows "let e = requested_entry req j (clk (t + 2 * j));
             now = clk' (find_reading (ds_storage s') (fq_keys fr) u i);
             r = fp_results fres ! i
         in if f64_lt now (sv_expiration_time e)
            then fr_result_type r = result_type_as_i32 FoundRegular \<and> fr_value r = sv_value e \<and>
                 fr_expiration_time r = sv_expiration_time e
            else fr_result_type r = result_type_as_i32 NotFound \<and> fr_value r = []"
proof -
  have acc: "accepts clk req j (t + 2 * j)"
    using assms(1,3,4,5) store_loop_ok [of clk req 0 "sq_keys req" t "ds_storage s"]
    by (auto simp: handle_store_def pair_simps)
  have np: "\<not> ds_storage_poisoned s'"
    using handle_store_frame(3) [of P clk t req s] assms(1,4) by simp
  have "hm_get (ds_storage s') (sq_keys req ! j) = Some (requested_entry req j (clk (t + 2 * j)))"
    using handle_store_get [OF assms(1), of P clk t req] assms(4) acc
      last_accepted_nth [OF assms(3) refl assms(2), of clk req 0 t] by simp
  moreover have "fp_results fres ! i =
      fst (find_one clk' (find_reading (ds_storage s') (fq_keys fr) u i) (ds_storage s')
        (fst (nearest_ids P s')) (snd (nearest_ids P s')) (sq_keys req ! j))"
    using find_loop_nth [OF assms(7)] assms(6,8) np by (auto simp: handle_find_def pair_simps)
  ultimately show ?thesis by (simp add: find_one_def Let_def)
qed

text \<open>
  \<open>cleanup_expired\<close> is not observable. For any key and any reading not before the one
  \<open>cleanup_expired\<close> made, FIND answers the same on the cleaned table as on the table before.
\<close>

theorem cleanup_not_observable:
  assumes "hm_wf (ds_storage s)" "f64_le (clk t) (clk u)"
    and "cleanup_expired clk t s = (s', t')"
  shows "fst (find_one clk u (ds_storage s') nids pids key) =
         fst (find_one clk u (ds_storage s) nids pids key)"
proof (cases "ds_storage_poisoned s")
  case True
  with assms(3) show ?thesis by (auto simp: cleanup_expired_def)
next
  case False
  then have "ds_storage s' = hm_retain (\<lambda>_ v. f64_lt (clk t) (sv_expiration_time v)) (ds_storage s)"
    using assms(3) by (auto simp: cleanup_expired_def)
  then show ?thesis
    using assms(1) f64_le_lt_trans [OF assms(2)]
    by (auto simp: find_one_def hm_get_retain split: option.splits)
qed

text \<open>
  The answer to STORE has one flag per key, in the order of the keys, and the flag says
  whether the requested expiration (one hour from now when the request gives none) lies
  after the reading made for that key; with the lock poisoned every flag is false and the
  state is unchanged.
\<close>

theorem store_response_flags:
  "sr_store_ok (fst (snd (handle_store P clk t req s))) =
     (if ds_storage_poisoned s then replicate (length (sq_keys req)) False
      else map (\<lambda>j. f64_lt (clk (t + 2 * j + 1))
                      (unwrap_or (vec_get (sq_expiration_time req) j)
                         (f64_add (clk (t + 2 * j)) (Fin 3600)))) [0..<length (sq_keys req)]) \<and>
   fst (handle_store P clk t req s) =
     (if ds_storage_poisoned s then s
      else s\<lparr>ds_storage := fst (store_loop clk req 0 (sq_keys req) t (ds_storage s))\<rparr>)"
  using store_loop_ok [of clk req 0 "sq_keys req" t "ds_storage s"]
  by (simp add: handle_store_def pair_simps accepts_def requested_entry_def)

text \<open>Instances: one key stored at a clock that counts seconds, then looked up.\<close>

definition demo_clock :: clock where
  "demo_clock n = Fin (of_nat n)"

definition demo_store :: store_request where
  "demo_store = \<lparr>sq_auth = None, sq_keys = [ [7], [8] ], sq_subkeys = [ [], [] ],
     sq_values = [ [1, 2, 3], [4] ], sq_expiration_time = [Fin 10, Fin 3], sq_in_cache = [False, False],
     sq_peer = None\<rparr>"

definition demo_lookup :: find_request where
  "demo_lookup = \<lparr>fq_auth = None, fq_keys = [ [8], [7] ], fq_peer = None\<rparr>"

definition demo_table :: "bytes dht_storage" where
  "demo_table = (dht_storage_new [1])\<lparr>ds_storage :=
     [([7], \<lparr>sv_value = [1, 2, 3], sv_expiration_time = Fin 10, sv_in_cache = False\<rparr>)]\<rparr>"

lemma demo_store_run:
  "fst (handle_store raw_ops demo_clock 0 demo_store (dht_storage_new [1])) = demo_table"
  "sr_store_ok (fst (snd (handle_store raw_ops demo_clock 0 demo_store (dht_storage_new [1])))) = [True, False]"
  by (simp_all add: handle_store_def pair_simps demo_store_def dht_storage_new_def store_step_def
      demo_clock_def demo_table_def vec_get_def unwrap_or_def hm_insert_def)

theorem dht_table_invariant_witness:
  "dht_reachable raw_ops demo_clock [(0, demo_store)] demo_table 4 \<and> ds_storage demo_table \<noteq> [] \<and>
   stored_by demo_clock [(0, demo_store)] 4 (fst (hd (ds_storage demo_table))) (snd (hd (ds_storage demo_table)))"
proof -
  have "handle_request raw_ops demo_clock 0 (ReqStore demo_store) (dht_storage_new [1]) =
      (demo_table, Inr (ResStore (fst (snd (handle_store raw_ops demo_clock 0 demo_store (dht_storage_new [1]))))), 4)"
    using handle_store_clock [of raw_ops demo_clock 0 demo_store "dht_storage_new [1]"]
    by (simp add: pair_simps demo_store_run(1)) (simp add: demo_store_def dht_storage_new_def)
  from dht_reachable.request [OF dht_reachable.start this]
  have "dht_reachable raw_ops demo_clock [(0, demo_store)] demo_table 4" by simp
  with dht_table_invariant [OF this] show ?thesis by (simp add: demo_table_def)
qed

theorem dht_store_find_witness:
  "let r = fp_results (fst (handle_find raw_ops demo_clock 5 demo_lookup demo_table)) ! 1
   in fr_result_type r = 1 \<and> fr_value r = [1, 2, 3] \<and> fr_expiration_time r = Fin 10"
proof -
  have reading: "find_reading (ds_storage demo_table) (fq_keys demo_lookup) 5 1 = 5"
    by (simp add: demo_lookup_def demo_table_def find_reading_def hm_get_def)
  have entry: "requested_entry demo_store 0 d = \<lparr>sv_value = [1, 2, 3], sv_expiration_time = Fin 10, sv_in_cache = False\<rparr>" for d
    by (simp add: requested_entry_def demo_store_def vec_get_def unwrap_or_def)
  show ?thesis
    using dht_store_find [of "dht_storage_new [1]" demo_store 0 raw_ops demo_clock 0 demo_table
        "fst (snd (handle_store raw_ops demo_clock 0 demo_store (dht_storage_new [1])))"
        "snd (snd (handle_store raw_ops demo_clock 0 demo_store (dht_storage_new [1])))"
        demo_clock 5 demo_lookup "fst (handle_find raw_ops demo_clock 5 demo_lookup demo_table)"
        "snd (handle_find raw_ops demo_clock 5 demo_lookup demo_table)" 1] demo_store_run reading entry
    by (simp add: prod_eq_iff dht_storage_new_def demo_store_def demo_lookup_def demo_clock_def Let_def)
qed

theorem cleanup_not_observable_witness:
  "fst (find_one demo_clock 12 (ds_storage (fst (cleanup_expired demo_clock 11 demo_table))) [] [] [7]) =
   fst (find_one demo_clock 12 (ds_storage demo_table) [] [] [7]) \<and>
   ds_storage (fst (cleanup_expired demo_clock 11 demo_table)) = []"
  using cleanup_not_observable [of demo_table demo_clock 11 12
      "fst (cleanup_expired demo_clock 11 demo_table)" "snd (cleanup_expired demo_clock 11 demo_table)" "[]" "[]" "[7]"]
  by (simp add: demo_table_def demo_clock_def hm_wf_def f64_le_def cleanup_expired_def dht_storage_new_def hm_retain_def)

end
