(* ===== verification/Dht_Client.thy ===== *)
theory Dht_Client
  imports Dht_Server
begin

text \<open>
  The DHT client (\<open>kwaai-hivemind-dht/src/client.rs\<close>). libp2p's request-response behaviour
  is outside the repository: sending is modelled by the list of sent requests, and the
  request id it returns is an argument. The client's own state is the table of pending
  requests.

  Lemmas: each request is answered at most once, a mismatched or unknown answer is an
  error, and what one client stores another reads back through the server.
\<close>

datatype pending_request = PendingGet "bytes list" | PendingStore "bytes list"

type_synonym request_id = nat

record 'p hivemind_dht =
  hd_local_peer_id :: 'p
  hd_pending_requests :: "(request_id, pending_request) hashmap"
  hd_sent :: "(request_id \<times> 'p \<times> dht_request) list"

record store_result =
  str_key :: bytes
  str_stored :: bool

record get_result =
  gr_key :: bytes
  gr_value :: "dht_value option"

record 'p find_response_data =
  frd_results :: "get_result list"
  frd_nearest_peers :: "'p list"

datatype 'p response_data = DataStore "store_result list" | DataFind "'p find_response_data"

definition hivemind_dht_new :: "'p \<Rightarrow> 'p hivemind_dht" where
  "hivemind_dht_new p = \<lparr>hd_local_peer_id = p, hd_pending_requests = [], hd_sent = []\<rparr>"

text \<open>\<open>store_many\<close>: \<open>now\<close> is the clock reading of \<open>RequestAuthInfo::new\<close>.\<close>

definition store_many ::
    "'p peer_id_ops \<Rightarrow> f64 \<Rightarrow> request_id \<Rightarrow> 'p \<Rightarrow> (bytes \<times> dht_value) list \<Rightarrow> 'p hivemind_dht
      \<Rightarrow> 'p hivemind_dht \<times> request_id" where
  "store_many P now req_id peer entries c =
     (let ks = map fst entries;
          vals = map (\<lambda>(_, v). dv_value v) entries;
          expiration_times = map (\<lambda>(_, v). dv_expiration_time v) entries;
          in_cache = map (\<lambda>(_, v). dv_in_cache v) entries;
          sender = node_info_from_peer_id P (hd_local_peer_id c);
          subkeys = replicate (length ks) [];
          request = store_request_new now sender ks subkeys vals expiration_times in_cache
      in (c\<lparr>hd_sent := hd_sent c @ [(req_id, peer, ReqStore request)],
            hd_pending_requests := hm_insert req_id (PendingStore ks) (hd_pending_requests c)\<rparr>,
          req_id))"

definition client_store ::
    "'p peer_id_ops \<Rightarrow> f64 \<Rightarrow> request_id \<Rightarrow> 'p \<Rightarrow> bytes \<Rightarrow> dht_value \<Rightarrow> 'p hivemind_dht
      \<Rightarrow> 'p hivemind_dht \<times> request_id" where
  "client_store P now req_id peer key v c = store_many P now req_id peer [(key, v)] c"

definition get_many ::
    "'p peer_id_ops \<Rightarrow> f64 \<Rightarrow> request_id \<Rightarrow> 'p \<Rightarrow> bytes list \<Rightarrow> 'p hivemind_dht
      \<Rightarrow> 'p hivemind_dht \<times> request_id" where
  "get_many P now req_id peer ks c =
     (let sender = node_info_from_peer_id P (hd_local_peer_id c);
          request = find_request_new now sender ks
      in (c\<lparr>hd_sent := hd_sent c @ [(req_id, peer, ReqFind request)],
            hd_pending_requests := hm_insert req_id (PendingGet ks) (hd_pending_requests c)\<rparr>,
          req_id))"

definition client_get ::
    "'p peer_id_ops \<Rightarrow> f64 \<Rightarrow> request_id \<Rightarrow> 'p \<Rightarrow> bytes \<Rightarrow> 'p hivemind_dht
      \<Rightarrow> 'p hivemind_dht \<times> request_id" where
  "client_get P now req_id peer key c = get_many P now req_id peer [key] c"

text \<open>One FIND result: an unknown result type counts as not found; the clock is read only
  when a value came back.\<close>

definition get_result_of :: "clock \<Rightarrow> nat \<Rightarrow> bytes \<Rightarrow> find_result \<Rightarrow> get_result \<times> nat" where
  "get_result_of clk t key fr =
     (let rt = (case result_type_try_from (fr_result_type fr) of Inl _ \<Rightarrow> NotFound | Inr r \<Rightarrow> r) in
      case rt of
        NotFound \<Rightarrow> (\<lparr>gr_key = key, gr_value = None\<rparr>, t)
      | _ \<Rightarrow>
          (let dv = \<lparr>dv_value = fr_value fr, dv_expiration_time = fr_expiration_time fr,
                     dv_in_cache = False\<rparr>
           in if is_expired (clk t) dv then (\<lparr>gr_key = key, gr_value = None\<rparr>, Suc t)
              else (\<lparr>gr_key = key, gr_value = Some dv\<rparr>, Suc t)))"

fun get_results ::
    "clock \<Rightarrow> nat \<Rightarrow> bytes list \<Rightarrow> find_result list \<Rightarrow> get_result list \<times> nat" where
  "get_results clk t (k # ks) (fr # frs) =
     (let (g, t1) = get_result_of clk t k fr; (gs, t2) = get_results clk t1 ks frs
      in (g # gs, t2))"
| "get_results clk t _ _ = ([], t)"

definition nearest_peers_of :: "'p peer_id_ops \<Rightarrow> bytes list \<Rightarrow> find_result list \<Rightarrow> 'p list" where
  "nearest_peers_of P ks frs =
     concat (map (\<lambda>(_, fr). List.map_filter (pid_from_bytes P) (fr_nearest_peer_ids fr)) (zip ks frs))"

definition handle_response ::
    "'p peer_id_ops \<Rightarrow> clock \<Rightarrow> nat \<Rightarrow> request_id \<Rightarrow> dht_response \<Rightarrow> 'p hivemind_dht
      \<Rightarrow> 'p hivemind_dht \<times> (dht_error + 'p response_data) \<times> nat" where
  "handle_response P clk t request_id response c =
     (case hm_get (hd_pending_requests c) request_id of
        None \<Rightarrow> (c, Inl (Network ''Unknown request ID''), t)
      | Some pending \<Rightarrow>
          (let c' = c\<lparr>hd_pending_requests := hm_remove request_id (hd_pending_requests c)\<rparr> in
           case (pending, response) of
             (PendingStore ks, ResStore store_res) \<Rightarrow>
               (c', Inr (DataStore (map (\<lambda>(k, ok). \<lparr>str_key = k, str_stored = ok\<rparr>)
                                      (zip ks (sr_store_ok store_res)))), t)
           | (PendingGet ks, ResFind find_res) \<Rightarrow>
               (let (results, t') = get_results clk t ks (fp_results find_res) in
                (c', Inr (DataFind \<lparr>frd_results = results,
                                    frd_nearest_peers = nearest_peers_of P ks (fp_results find_res)\<rparr>), t'))
           | _ \<Rightarrow> (c', Inl (Network ''Response type mismatch with request''), t)))"

section \<open>Lemmas\<close>

lemma handle_response_pending:
  "hm_get (hd_pending_requests (fst (handle_response P clk t i r c))) k =
     (if k = i then None else hm_get (hd_pending_requests c) k)"
  by (auto simp: handle_response_def pair_simps split: option.splits pending_request.splits dht_response.splits)

lemma get_results_length:
  "length (fst (get_results clk t ks frs)) = min (length ks) (length frs)"
proof (induction ks arbitrary: t frs)
  case (Cons k ks)
  then show ?case by (cases frs) (simp_all add: pair_simps)
qed simp

lemma get_results_keys:
  "length ks \<le> length frs \<Longrightarrow> map gr_key (fst (get_results clk t ks frs)) = ks"
proof (induction ks arbitrary: t frs)
  case Nil
  then show ?case by (cases frs) auto
next
  case (Cons k ks)
  then obtain f fs where "frs = f # fs" by (cases frs) auto
  with Cons show ?case
    by (auto simp: pair_simps get_result_of_def split: result_type.splits sum.splits)
qed

text \<open>A value the client reports is not expired at some reading it made.\<close>

lemma get_results_unexpired:
  "g \<in> set (fst (get_results clk t ks frs)) \<Longrightarrow> gr_value g = Some d \<Longrightarrow>
     \<exists>u\<ge>t. \<not> f64_lt (dv_expiration_time d) (clk u)"
proof (induction ks arbitrary: t frs)
  case (Cons k ks)
  then obtain fr fs where frs: "frs = fr # fs" by (cases frs) auto
  let ?t1 = "snd (get_result_of clk t k fr)"
  from Cons.prems(1) frs consider (hd) "g = fst (get_result_of clk t k fr)"
    | (tl) "g \<in> set (fst (get_results clk ?t1 ks fs))"
    by (auto simp: pair_simps)
  then show ?case
  proof cases
    case hd
    with Cons.prems(2) have "\<not> f64_lt (dv_expiration_time d) (clk t)"
      by (auto simp: get_result_of_def is_expired_def Let_def split: result_type.splits sum.splits if_splits)
    then show ?thesis by blast
  next
    case tl
    have "t \<le> ?t1"
      by (auto simp: get_result_of_def Let_def split: result_type.splits sum.splits)
    with Cons.IH [OF tl Cons.prems(2)] show ?thesis by (meson le_trans)
  qed
qed simp

section \<open>A client, the network and a server\<close>

text \<open>
  One exchange: the network hands the client's last request to the server, and the
  server's answer back to the client.
\<close>

definition deliver ::
    "'p peer_id_ops \<Rightarrow> clock \<Rightarrow> nat \<Rightarrow> clock \<Rightarrow> nat \<Rightarrow> 'p dht_storage \<Rightarrow> 'p hivemind_dht
      \<Rightarrow> 'p dht_storage \<times> 'p hivemind_dht \<times> (dht_error + 'p response_data)" where
  "deliver P clkS ts clkC tc s c =
     (let (i, _, request) = last (hd_sent c);
          (s', res, _) = handle_request P clkS ts request s
      in case res of
           Inl e \<Rightarrow> (s', c, Inl e)
         | Inr response \<Rightarrow>
             (let (c', d, _) = handle_response P clkC tc i response c in (s', c', d)))"

lemma get_results_found:
  assumes "list_all2 (\<lambda>(k, v) fr. fr_result_type fr = result_type_as_i32 FoundRegular \<and>
             fr_value fr = dv_value v \<and> fr_expiration_time fr = dv_expiration_time v \<and>
             (\<forall>n. \<not> f64_lt (dv_expiration_time v) (clk n))) entries frs"
  shows "fst (get_results clk t (map fst entries) frs) =
    map (\<lambda>(k, v). \<lparr>gr_key = k, gr_value = Some (v\<lparr>dv_in_cache := False\<rparr>)\<rparr>) entries"
  using assms
proof (induction entries frs arbitrary: t rule: list_all2_induct)
  case (Cons e es fr frs)
  then show ?case
    by (cases e) (auto simp: pair_simps get_result_of_def result_type_try_from_def is_expired_def
        simp del: result_type_as_i32.simps)
qed simp

text \<open>The request \<open>store_many\<close> sends, and what the server makes of its \<open>j\<close>-th entry.\<close>

definition entries_request :: "'p peer_id_ops \<Rightarrow> f64 \<Rightarrow> 'p \<Rightarrow> (bytes \<times> dht_value) list \<Rightarrow> store_request" where
  "entries_request P now p entries =
     store_request_new now (node_info_from_peer_id P p) (map fst entries) (replicate (length entries) [])
       (map (\<lambda>(_, v). dv_value v) entries) (map (\<lambda>(_, v). dv_expiration_time v) entries)
       (map (\<lambda>(_, v). dv_in_cache v) entries)"

lemma store_many_sent:
  "store_many P now i srv entries c =
     (c\<lparr>hd_sent := hd_sent c @ [(i, srv, ReqStore (entries_request P now (hd_local_peer_id c) entries))],
        hd_pending_requests := hm_insert i (PendingStore (map fst entries)) (hd_pending_requests c)\<rparr>, i)"
  by (simp add: store_many_def entries_request_def Let_def)

lemma entries_request_keys [simp]: "sq_keys (entries_request P now p entries) = map fst entries"
  by (simp add: entries_request_def store_request_new_def)

lemma entries_request_entry:
  "j < length entries \<Longrightarrow> requested_entry (entries_request P now p entries) j d =
     \<lparr>sv_value = dv_value (snd (entries ! j)), sv_expiration_time = dv_expiration_time (snd (entries ! j)),
      sv_in_cache = dv_in_cache (snd (entries ! j))\<rparr>"
  by (simp add: requested_entry_def entries_request_def store_request_new_def vec_get_def unwrap_or_def
      case_prod_beta)

lemma handle_store_entries:
  assumes "\<not> ds_storage_poisoned s" "distinct (map fst entries)"
    and "\<forall>(k, v) \<in> set entries. \<forall>n. f64_lt (clk n) (dv_expiration_time v)"
    and req_def: "req = entries_request P now p entries"
  shows "sr_store_ok (fst (snd (handle_store P clk t req s))) = replicate (length entries) True"
    and "j < length entries \<Longrightarrow>
      hm_get (ds_storage (fst (handle_store P clk t req s))) (fst (entries ! j)) =
        Some (requested_entry req j (clk (t + 2 * j)))"
proof -
  have acc: "accepts clk req j u" if "j < length entries" for j u
    using bspec [OF assms(3) nth_mem [OF that]] that
    by (simp add: accepts_def req_def entries_request_entry case_prod_beta)
  have "map (\<lambda>j. accepts clk req j (t + 2 * j)) [0..<length entries] = replicate (length entries) True"
    by (rule nth_equalityI) (simp_all add: acc)
  then show "sr_store_ok (fst (snd (handle_store P clk t req s))) = replicate (length entries) True"
    using assms(1) store_loop_ok [of clk req 0 "sq_keys req" t "ds_storage s"]
    by (simp add: handle_store_def pair_simps) (simp add: req_def)
  show "hm_get (ds_storage (fst (handle_store P clk t req s))) (fst (entries ! j)) =
      Some (requested_entry req j (clk (t + 2 * j)))" if "j < length entries"
    using handle_store_get [OF assms(1), of P clk t req "fst (entries ! j)"] acc [OF that]
      last_accepted_nth [of j "sq_keys req" "fst (entries ! j)" clk req 0 t] that assms(2)
    by (simp add: req_def)
qed

section \<open>Properties\<close>

text \<open>
  C4: A value stored by one client is what another client reads. When a client stores
  entries under distinct keys and the server's clock has not reached any of the
  expirations, the client is told every entry was stored; a second client that then asks
  for the keys receives each key with the stored bytes and expiration (the cache flag is
  not transmitted), provided no expiration has passed on its own clock.
\<close>

theorem client_server_roundtrip:
  assumes "\<not> ds_storage_poisoned s" "distinct (map fst entries)"
    and "\<And>k v n. (k, v) \<in> set entries \<Longrightarrow>
           f64_lt (clkS n) (dv_expiration_time v) \<and> \<not> f64_lt (dv_expiration_time v) (clkB n)"
    and "deliver P clkS t clkA ta s (fst (store_many P nowA i srv entries a)) = (s', a', rA)"
    and "deliver P clkS t' clkB tb s' (fst (get_many P nowB j srv (map fst entries) b)) = (s'', b', rB)"
  shows "rA = Inr (DataStore (map (\<lambda>(k, _). \<lparr>str_key = k, str_stored = True\<rparr>) entries)) \<and>
    (\<exists>peers. rB = Inr (DataFind
       \<lparr>frd_results = map (\<lambda>(k, v). \<lparr>gr_key = k, gr_value = Some (v\<lparr>dv_in_cache := False\<rparr>)\<rparr>) entries,
        frd_nearest_peers = peers\<rparr>)) \<and> s'' = s'"
proof -
  define req where "req = entries_request P nowA (hd_local_peer_id a) entries"
  have fresh: "\<forall>(k, v) \<in> set entries. \<forall>n. f64_lt (clkS n) (dv_expiration_time v)"
    using assms(3) by blast
  note stored = handle_store_entries [OF assms(1,2) fresh req_def]
  have s': "s' = fst (handle_store P clkS t req s)"
    using assms(4) by (simp add: deliver_def store_many_sent pair_simps flip: req_def)
  then have np: "\<not> ds_storage_poisoned s'"
    using handle_store_frame(3) [of P clkS t req s] assms(1) by simp
  have A: "rA = Inr (DataStore (map (\<lambda>(k, ok). \<lparr>str_key = k, str_stored = ok\<rparr>)
      (zip (map fst entries) (replicate (length entries) True))))"
    using assms(4) stored(1)
    by (auto simp: deliver_def store_many_sent pair_simps handle_response_def simp flip: req_def)
  define frs where "frs = fst (find_loop clkS t' (ds_storage s') (fst (nearest_ids P s'))
    (snd (nearest_ids P s')) (map fst entries))"
  have "list_all2 (\<lambda>(k, v) fr. fr_result_type fr = result_type_as_i32 FoundRegular \<and>
      fr_value fr = dv_value v \<and> fr_expiration_time fr = dv_expiration_time v \<and>
      (\<forall>n. \<not> f64_lt (dv_expiration_time v) (clkB n))) entries frs"
  proof (rule list_all2_all_nthI)
    show "length entries = length frs" by (simp add: frs_def find_loop_length)
    fix m assume m: "m < length entries"
    let ?v = "snd (entries ! m)"
    have mem: "(fst (entries ! m), ?v) \<in> set entries" using m by simp
    have "frs ! m = fst (find_one clkS (find_reading (ds_storage s') (map fst entries) t' m) (ds_storage s')
        (fst (nearest_ids P s')) (snd (nearest_ids P s')) (fst (entries ! m)))"
      using m find_loop_nth [of m "map fst entries"] by (simp add: frs_def)
    then show "(\<lambda>(k, v) fr. fr_result_type fr = result_type_as_i32 FoundRegular \<and>
        fr_value fr = dv_value v \<and> fr_expiration_time fr = dv_expiration_time v \<and>
        (\<forall>n. \<not> f64_lt (dv_expiration_time v) (clkB n))) (entries ! m) (frs ! m)"
      using stored(2) [OF m] assms(3) [OF mem]
      by (simp add: find_one_def s' req_def entries_request_entry [OF m] case_prod_beta del: result_type_as_i32.simps)
  qed
  from get_results_found [OF this]
  have "\<exists>peers. rB = Inr (DataFind
      \<lparr>frd_results = map (\<lambda>(k, v). \<lparr>gr_key = k, gr_value = Some (v\<lparr>dv_in_cache := False\<rparr>)\<rparr>) entries,
       frd_nearest_peers = peers\<rparr>) \<and> s'' = s'"
    using assms(5) np
    by (auto simp: deliver_def get_many_def pair_simps handle_response_def handle_find_def
        find_request_new_def frs_def)
  with A show ?thesis by (simp add: zip_map1 zip_replicate2 case_prod_beta comp_def)
qed

text \<open>
  A request is answered at most once, and only by a response of its own kind. Handling a
  response removes the request's entry and no other; it succeeds exactly when the entry
  exists and its kind matches the response, so a second response to the same request is
  refused and leaves the client unchanged.
\<close>

theorem response_consumes_request:
  assumes "handle_response P clk t i res c = (c', r, t')"
  shows "(\<forall>k. hm_get (hd_pending_requests c') k =
            (if k = i then None else hm_get (hd_pending_requests c) k)) \<and>
    ((\<exists>d. r = Inr d) \<longleftrightarrow>
      (\<exists>ks x. hm_get (hd_pending_requests c) i = Some (PendingStore ks) \<and> res = ResStore x) \<or>
      (\<exists>ks x. hm_get (hd_pending_requests c) i = Some (PendingGet ks) \<and> res = ResFind x)) \<and>
    handle_response P clk t' i res' c' = (c', Inl (Network ''Unknown request ID''), t')"
proof -
  have pend: "hm_get (hd_pending_requests c') k = (if k = i then None else hm_get (hd_pending_requests c) k)" for k
    using handle_response_pending [of P clk t i res c k] assms by simp
  moreover have "(\<exists>d. r = Inr d) \<longleftrightarrow>
      (\<exists>ks x. hm_get (hd_pending_requests c) i = Some (PendingStore ks) \<and> res = ResStore x) \<or>
      (\<exists>ks x. hm_get (hd_pending_requests c) i = Some (PendingGet ks) \<and> res = ResFind x)"
    using assms by (auto simp: handle_response_def pair_simps split: option.splits pending_request.splits dht_response.splits)
  moreover have "handle_response P clk t' i res' c' = (c', Inl (Network ''Unknown request ID''), t')"
    using pend [of i] by (simp add: handle_response_def)
  ultimately show ?thesis by blast
qed

text \<open>Instances: two entries stored by client 2 and read by client 3.\<close>

definition demo_entries :: "(bytes \<times> dht_value) list" where
  "demo_entries = [([7], \<lparr>dv_value = [1, 2], dv_expiration_time = PosInf, dv_in_cache = True\<rparr>),
                   ([8], \<lparr>dv_value = [3], dv_expiration_time = PosInf, dv_in_cache = False\<rparr>)]"

theorem client_server_roundtrip_witness:
  "\<exists>s' a' rA s'' b' peers.
     deliver raw_ops demo_clock 0 demo_clock 0 (dht_storage_new [1])
       (fst (store_many raw_ops (Fin 0) 1 [1] demo_entries (hivemind_dht_new [2]))) = (s', a', rA) \<and>
     deliver raw_ops demo_clock 9 demo_clock 0 s'
       (fst (get_many raw_ops (Fin 9) 1 [1] [ [7], [8] ] (hivemind_dht_new [3]))) =
       (s'', b', Inr (DataFind \<lparr>frd_results =
          [\<lparr>gr_key = [7], gr_value = Some \<lparr>dv_value = [1, 2], dv_expiration_time = PosInf, dv_in_cache = False\<rparr>\<rparr>,
           \<lparr>gr_key = [8], gr_value = Some \<lparr>dv_value = [3], dv_expiration_time = PosInf, dv_in_cache = False\<rparr>\<rparr>],
          frd_nearest_peers = peers\<rparr>))"
proof -
  obtain s' a' rA where A: "deliver raw_ops demo_clock 0 demo_clock 0 (dht_storage_new [1])
      (fst (store_many raw_ops (Fin 0) 1 [1] demo_entries (hivemind_dht_new [2]))) = (s', a', rA)"
    by (metis prod_cases3)
  obtain s'' b' rB where B: "deliver raw_ops demo_clock 9 demo_clock 0 s'
      (fst (get_many raw_ops (Fin 9) 1 [1] (map fst demo_entries) (hivemind_dht_new [3]))) = (s'', b', rB)"
    by (metis prod_cases3)
  have "\<not> ds_storage_poisoned (dht_storage_new [1 :: u8])" "distinct (map fst demo_entries)"
    by (simp_all add: dht_storage_new_def demo_entries_def)
  moreover have "\<And>k v n. (k, v) \<in> set demo_entries \<Longrightarrow>
      f64_lt (demo_clock n) (dv_expiration_time v) \<and> \<not> f64_lt (dv_expiration_time v) (demo_clock n)"
    by (auto simp: demo_entries_def demo_clock_def)
  ultimately show ?thesis
    using client_server_roundtrip [OF _ _ _ A B] A B by (simp add: demo_entries_def)
qed

theorem response_consumes_request_witness:
  "let c = fst (client_get raw_ops (Fin 0) 5 [1] [7] (hivemind_dht_new [2]));
       (c', r, t') = handle_response raw_ops demo_clock 0 5 (ResStore \<lparr>sr_auth = None, sr_store_ok = [], sr_peer = None\<rparr>) c
   in hm_get (hd_pending_requests c) 5 \<noteq> None \<and> hm_get (hd_pending_requests c') 5 = None \<and>
      r = Inl (Network ''Response type mismatch with request'')"
  using response_consumes_request [of raw_ops demo_clock 0 5 "ResStore \<lparr>sr_auth = None, sr_store_ok = [], sr_peer = None\<rparr>"
      "fst (client_get raw_ops (Fin 0) 5 [1] [7] (hivemind_dht_new [2]))"]
  by (auto simp: client_get_def get_many_def handle_response_def hivemind_dht_new_def Let_def)

end
