(* ===== verification/Circuit_Breaker.thy ===== *)
theory Circuit_Breaker
  imports Kwaai_Prelude
begin

text \<open>
  The per-peer circuit breaker of the inference proxies
  (\<open>kwaai-cli/src/circuit_breaker.rs\<close>). An \<open>Instant\<close> is a number of nanoseconds, given to
  the operations that read the clock. The failure counter is a \<open>u32\<close> and wraps as in a
  release build. Every operation locks the whole table, so a concurrent history is a
  sequence of operations.

  The specification is the documented three-state machine per peer; \<open>abs_entry\<close> maps the code's entry
  to it. The comparison covers histories in which the operations of many peers are mixed; it shows that
  the code departs from the documentation exactly while a probe is out.
\<close>

section \<open>The program\<close>

datatype breaker_state = Closed | Open | HalfOpen

record peer_entry =
  pe_state :: breaker_state
  pe_failures :: u32
  pe_opened_at :: "nat option"

record 'p circuit_breaker =
  cb_peers :: "('p, peer_entry) hashmap"
  cb_open_duration :: nat

definition FAILURE_THRESHOLD :: u32 where
  "FAILURE_THRESHOLD = 3"

definition OPEN_DURATION :: nat where
  "OPEN_DURATION = 30 * 10 ^ 9"

definition peer_entry_default :: peer_entry where
  "peer_entry_default = \<lparr>pe_state = Closed, pe_failures = 0, pe_opened_at = None\<rparr>"

definition circuit_breaker_new :: "'p circuit_breaker" where
  "circuit_breaker_new = \<lparr>cb_peers = [], cb_open_duration = OPEN_DURATION\<rparr>"

text \<open>\<open>map.entry(peer).or_default()\<close>, and the table with the entry written back.\<close>

definition entry_or_default :: "'p \<Rightarrow> 'p circuit_breaker \<Rightarrow> peer_entry" where
  "entry_or_default peer cb = unwrap_or (hm_get (cb_peers cb) peer) peer_entry_default"

definition write_entry :: "'p \<Rightarrow> peer_entry \<Rightarrow> 'p circuit_breaker \<Rightarrow> 'p circuit_breaker" where
  "write_entry peer e cb = cb\<lparr>cb_peers := hm_insert peer e (cb_peers cb)\<rparr>"

definition allow :: "nat \<Rightarrow> 'p \<Rightarrow> 'p circuit_breaker \<Rightarrow> 'p circuit_breaker \<times> bool" where
  "allow now peer cb =
     (let entry = entry_or_default peer cb in
      case pe_state entry of
        Closed \<Rightarrow> (write_entry peer entry cb, True)
      | Open \<Rightarrow>
          (let elapsed = unwrap_or (map_option (\<lambda>t. now - t \<ge> cb_open_duration cb) (pe_opened_at entry)) False
           in if elapsed then (write_entry peer (entry\<lparr>pe_state := HalfOpen\<rparr>) cb, True)
              else (write_entry peer entry cb, False))
      | HalfOpen \<Rightarrow> (write_entry peer entry cb, True))"

definition record_success :: "'p \<Rightarrow> 'p circuit_breaker \<Rightarrow> 'p circuit_breaker" where
  "record_success peer cb = write_entry peer peer_entry_default cb"

definition record_failure :: "nat \<Rightarrow> 'p \<Rightarrow> 'p circuit_breaker \<Rightarrow> 'p circuit_breaker" where
  "record_failure now peer cb =
     (let entry = entry_or_default peer cb;
          entry1 = entry\<lparr>pe_failures := pe_failures entry + 1\<rparr>;
          should_open = (pe_failures entry1 \<ge> FAILURE_THRESHOLD \<or> pe_state entry1 = HalfOpen)
      in if should_open \<and> pe_state entry1 \<noteq> Open
         then write_entry peer (entry1\<lparr>pe_state := Open, pe_opened_at := Some now\<rparr>) cb
         else write_entry peer entry1 cb)"

section \<open>Histories\<close>

datatype breaker_op = Allow | Success | Failure

type_synonym 'p breaker_event = "'p \<times> nat \<times> breaker_op"

fun breaker_step :: "'p circuit_breaker \<Rightarrow> 'p breaker_event \<Rightarrow> 'p circuit_breaker" where
  "breaker_step cb (p, t, Allow) = fst (allow t p cb)"
| "breaker_step cb (p, t, Success) = record_success p cb"
| "breaker_step cb (p, t, Failure) = record_failure t p cb"

definition breaker_run :: "'p circuit_breaker \<Rightarrow> 'p breaker_event list \<Rightarrow> 'p circuit_breaker" where
  "breaker_run = foldl breaker_step"

definition events_of :: "'p \<Rightarrow> 'p breaker_event list \<Rightarrow> (nat \<times> breaker_op) list" where
  "events_of p h = map snd (filter (\<lambda>e. fst e = p) h)"

section \<open>Specification of one peer\<close>

text \<open>
  The machine of the module documentation. \<open>Counting n\<close>: \<open>n\<close> failures since the last success; all
  requests pass. \<open>Tripped t\<close>: requests are refused until \<open>d\<close> after \<open>t\<close>, and the first one from then on is the
  probe. \<open>Probing\<close>: the probe is out, no other request passes, and the next outcome decides.
\<close>

datatype spec_state = Counting nat | Tripped nat | Probing

fun spec_allows :: "nat \<Rightarrow> nat \<Rightarrow> spec_state \<Rightarrow> bool" where
  "spec_allows d now (Tripped t) = (d \<le> now - t)"
| "spec_allows d now Probing = False"
| "spec_allows d now (Counting n) = True"

fun spec_step :: "nat \<Rightarrow> spec_state \<Rightarrow> nat \<times> breaker_op \<Rightarrow> spec_state" where
  "spec_step d s (now, Success) = Counting 0"
| "spec_step d (Counting n) (now, Failure) = (if n < 2 then Counting (Suc n) else Tripped now)"
| "spec_step d (Tripped t) (now, Failure) = Tripped t"
| "spec_step d Probing (now, Failure) = Tripped now"
| "spec_step d (Tripped t) (now, Allow) = (if d \<le> now - t then Probing else Tripped t)"
| "spec_step d s (now, Allow) = s"

fun abs_entry :: "peer_entry \<Rightarrow> spec_state" where
  "abs_entry e = (case pe_state e of Closed \<Rightarrow> Counting (unat (pe_failures e))
     | Open \<Rightarrow> Tripped (case pe_opened_at e of Some t \<Rightarrow> t | None \<Rightarrow> 0) | HalfOpen \<Rightarrow> Probing)"

text \<open>A closed entry has counted fewer than three failures; an open one knows since when.\<close>

definition entry_ok :: "peer_entry \<Rightarrow> bool" where
  "entry_ok e \<longleftrightarrow> (pe_state e = Closed \<longrightarrow> pe_failures e < FAILURE_THRESHOLD) \<and>
     (pe_state e = Open \<longrightarrow> pe_opened_at e \<noteq> None)"

definition breaker_ok :: "'p circuit_breaker \<Rightarrow> bool" where
  "breaker_ok cb \<longleftrightarrow> (\<forall>p. entry_ok (entry_or_default p cb))"

section \<open>Refinement\<close>

lemma entry_write [simp]:
  "entry_or_default q (write_entry p e cb) = (if q = p then e else entry_or_default q cb)"
  by (simp add: entry_or_default_def write_entry_def unwrap_or_def)

lemma write_entry_duration [simp]: "cb_open_duration (write_entry p e cb) = cb_open_duration cb"
  by (simp add: write_entry_def)

text \<open>An entry below the threshold can count one more failure without wrapping.\<close>

lemma closed_count:
  assumes "n < (3 :: u32)"
  shows "unat (n + 1) = Suc (unat n)" "3 \<le> n + 1 \<longleftrightarrow> \<not> unat n < 2" "n + 1 < 3 \<longleftrightarrow> unat n < 2"
proof -
  have "unat n < 3" using assms by (simp add: word_less_nat_alt)
  then show "unat (n + 1) = Suc (unat n)"
    by (simp add: unat_word_ariths)
  then show "3 \<le> n + 1 \<longleftrightarrow> \<not> unat n < 2" "n + 1 < 3 \<longleftrightarrow> unat n < 2"
    by (auto simp: word_le_nat_alt word_less_nat_alt)
qed

lemma step_other: "p \<noteq> q \<Longrightarrow> entry_or_default q (breaker_step cb (p, t, x)) = entry_or_default q cb"
  by (cases x) (simp_all add: allow_def record_success_def record_failure_def Let_def split: breaker_state.split)

lemma step_duration: "cb_open_duration (breaker_step cb e) = cb_open_duration cb"
  by (cases "(cb, e)" rule: breaker_step.cases)
    (simp_all add: allow_def record_success_def record_failure_def Let_def split: breaker_state.split)

lemma step_refines:
  assumes "entry_ok (entry_or_default p cb)"
  shows "entry_ok (entry_or_default p (breaker_step cb (p, t, x))) \<and>
    abs_entry (entry_or_default p (breaker_step cb (p, t, x))) =
      spec_step (cb_open_duration cb) (abs_entry (entry_or_default p cb)) (t, x)"
proof (cases x)
  case Allow
  with assms show ?thesis
    by (auto simp: allow_def Let_def entry_ok_def unwrap_or_def split: breaker_state.splits option.splits)
next
  case Success
  then show ?thesis
    by (simp add: record_success_def peer_entry_default_def entry_ok_def FAILURE_THRESHOLD_def)
next
  case Failure
  with assms closed_count show ?thesis
    by (cases "pe_state (entry_or_default p cb)")
      (auto simp: record_failure_def Let_def entry_ok_def FAILURE_THRESHOLD_def not_less split: option.splits)
qed

lemma allow_refines:
  "entry_ok (entry_or_default p cb) \<Longrightarrow>
     snd (allow now p cb) =
       (spec_allows (cb_open_duration cb) now (abs_entry (entry_or_default p cb)) \<or> abs_entry (entry_or_default p cb) = Probing)"
  by (auto simp: allow_def Let_def entry_ok_def unwrap_or_def split: breaker_state.splits option.splits)

lemma run_refines:
  assumes "breaker_ok cb"
  shows "breaker_ok (breaker_run cb h) \<and> cb_open_duration (breaker_run cb h) = cb_open_duration cb \<and>
    abs_entry (entry_or_default p (breaker_run cb h)) =
      foldl (spec_step (cb_open_duration cb)) (abs_entry (entry_or_default p cb)) (events_of p h)"
  using assms
proof (induction h arbitrary: cb)
  case (Cons e h)
  obtain q t x where e: "e = (q, t, x)" by (cases e)
  have "breaker_ok (breaker_step cb e)"
    using Cons.prems step_refines [of q cb t x] step_other [of q _ cb t x]
    by (metis breaker_ok_def e)
  moreover have "foldl (spec_step (cb_open_duration cb)) (abs_entry (entry_or_default p cb)) (events_of p (e # h)) =
      foldl (spec_step (cb_open_duration cb)) (abs_entry (entry_or_default p (breaker_step cb e))) (events_of p h)"
    using Cons.prems step_refines [of q cb t x] step_other [of q p cb t x]
    by (auto simp: events_of_def e breaker_ok_def simp del: abs_entry.simps breaker_step.simps)
  ultimately show ?case
    using Cons.IH [of "breaker_step cb e"] by (simp add: breaker_run_def step_duration)
qed (simp_all add: breaker_run_def events_of_def)

lemma breaker_new_ok: "breaker_ok circuit_breaker_new"
  by (simp add: breaker_ok_def circuit_breaker_new_def entry_or_default_def unwrap_or_def
      peer_entry_default_def entry_ok_def FAILURE_THRESHOLD_def hm_get_def)

lemma breaker_new_abs:
  "abs_entry (entry_or_default p circuit_breaker_new) = Counting 0"
  "cb_open_duration circuit_breaker_new = 30000000000"
  by (simp_all add: circuit_breaker_new_def entry_or_default_def unwrap_or_def peer_entry_default_def
      hm_get_def OPEN_DURATION_def)

lemma new_run_allows:
  "snd (allow now p (breaker_run circuit_breaker_new h)) =
     (let s = foldl (spec_step 30000000000) (Counting 0) (events_of p h)
      in spec_allows 30000000000 now s \<or> s = Probing)"
  using run_refines [OF breaker_new_ok, of h p]
    allow_refines [of p "breaker_run circuit_breaker_new h" now]
  by (simp add: breaker_ok_def breaker_new_abs Let_def del: abs_entry.simps)

section \<open>What the specification means\<close>

definition no_success :: "(nat \<times> breaker_op) list \<Rightarrow> bool" where
  "no_success es \<longleftrightarrow> Success \<notin> snd ` set es"

definition failures_in :: "(nat \<times> breaker_op) list \<Rightarrow> nat" where
  "failures_in es = length (filter (\<lambda>e. snd e = Failure) es)"

lemma spec_counting:
  "no_success es \<Longrightarrow> n + failures_in es < 3 \<Longrightarrow>
     foldl (spec_step d) (Counting n) es = Counting (n + failures_in es)"
proof (induction es arbitrary: n)
  case (Cons e es)
  then show ?case by (cases e; cases "snd e") (auto simp: no_success_def failures_in_def)
qed (simp add: failures_in_def)

lemma spec_tripped:
  "no_success es \<Longrightarrow> (\<And>t x. (t, x) \<in> set es \<Longrightarrow> t - t0 < d) \<Longrightarrow>
     foldl (spec_step d) (Tripped t0) es = Tripped t0"
proof (induction es)
  case (Cons e es)
  then have "spec_step d (Tripped t0) e = Tripped t0"
    by (cases e; cases "snd e") (fastforce simp: no_success_def)+
  moreover have "foldl (spec_step d) (Tripped t0) es = Tripped t0"
    using Cons.prems by (intro Cons.IH) (auto simp: no_success_def)
  ultimately show ?case by simp
qed simp

section \<open>Properties\<close>

text \<open>
  C6: The breaker and its documentation. Whatever history of operations on any peers precedes, take
  the documented three-state machine after the events of one peer alone, with the production cooldown
  of 30 seconds. \<open>allow\<close> answers for the peer as that machine does, with one exception: while a probe is
  out the documentation lets no other request through, and the code lets every request through. The
  operations of other peers and the 32-bit failure counter never affect the answer.
\<close>

theorem breaker_refines_spec:
  "snd (allow now p (breaker_run circuit_breaker_new h)) =
     (let s = foldl (spec_step 30000000000) (Counting 0) (events_of p h)
      in spec_allows 30000000000 now s \<or> s = Probing)"
  by (rule new_run_allows)

text \<open>
  Three failures with no success between them trip the breaker: from the third failure
  at \<open>t3\<close> on, as long as neither a success is recorded nor the cooldown ends, \<open>allow\<close>
  refuses the peer; once 30 seconds have passed it admits the peer again.
\<close>

theorem breaker_trips:
  assumes "events_of p h = before @ (ts, Success) # a @ (t3, Failure) # b \<or>
           events_of p h = a @ (t3, Failure) # b"
    and "no_success a" "failures_in a = 2" "no_success b"
    and "\<And>t x. (t, x) \<in> set b \<Longrightarrow> t - t3 < 30000000000"
  shows "snd (allow now p (breaker_run circuit_breaker_new h)) \<longleftrightarrow> 30000000000 \<le> now - t3"
proof -
  have "foldl (spec_step 30000000000) (Counting 0) (a @ (t3, Failure) # b) = Tripped t3"
    using spec_counting [of a 0] spec_tripped [OF assms(4,5)] assms(2,3) by simp
  then have "foldl (spec_step 30000000000) (Counting 0) (events_of p h) = Tripped t3"
    using assms(1) by (auto simp: foldl_append)
  then show ?thesis by (simp add: new_run_allows)
qed

text \<open>
  Once the cooldown has ended every request is let through, not exactly one, until an
  outcome is recorded: after the trip at \<open>t3\<close>, any number of calls at times after the
  cooldown are all admitted.
\<close>

theorem half_open_admits_all:
  assumes "abs_entry (entry_or_default p cb) = Tripped t3" "breaker_ok cb"
    and "\<And>t. t \<in> set ts \<Longrightarrow> cb_open_duration cb \<le> t - t3"
    and "now \<in> set ts"
  shows "snd (allow now p (breaker_run cb (map (\<lambda>t. (p, t, Allow)) ts)))"
proof -
  have ev: "events_of p (map (\<lambda>t. (p, t, Allow)) ts) = map (\<lambda>t. (t, Allow)) ts"
    by (simp add: events_of_def filter_map comp_def)
  have probing: "foldl (spec_step d) Probing (map (\<lambda>t. (t, Allow)) us) = Probing" for d us
    by (induction us) simp_all
  have "foldl (spec_step (cb_open_duration cb)) (Tripped t3) (map (\<lambda>t. (t, Allow)) ts) = Probing"
    using assms(3,4) probing by (cases ts) auto
  then show ?thesis
    using run_refines [OF assms(2), of "map (\<lambda>t. (p, t, Allow)) ts" p] ev assms(1)
      allow_refines [of p "breaker_run cb (map (\<lambda>t. (p, t, Allow)) ts)" now]
    by (simp add: breaker_ok_def del: abs_entry.simps)
qed

text \<open>Instances: peer 1 fails at seconds 1, 2 and 3 while peer 2 succeeds.\<close>

definition demo_history :: "nat breaker_event list" where
  "demo_history = [(1, 1000000000, Failure), (2, 1500000000, Success), (1, 2000000000, Failure),
                   (2, 2500000000, Allow), (1, 3000000000, Failure)]"

lemma demo_history_events:
  "events_of 1 demo_history =
     [(1000000000, Failure), (2000000000, Failure)] @ (3000000000, Failure) # []"
  by (simp add: events_of_def demo_history_def)

theorem breaker_trips_witness:
  "\<not> snd (allow 32000000000 1 (breaker_run circuit_breaker_new demo_history)) \<and>
   snd (allow 33000000000 1 (breaker_run circuit_breaker_new demo_history))"
  using breaker_trips [OF disjI2 [OF demo_history_events], of 32000000000]
    breaker_trips [OF disjI2 [OF demo_history_events], of 33000000000]
  by (simp add: no_success_def failures_in_def)

theorem half_open_admits_all_witness:
  "snd (allow 40000000000 (1 :: nat) (breaker_run (breaker_run circuit_breaker_new demo_history)
      [(1, 40000000000, Allow), (1, 40000000000, Allow)]))"
proof -
  let ?cb = "breaker_run circuit_breaker_new demo_history"
  have "abs_entry (entry_or_default 1 ?cb) = Tripped 3000000000" "breaker_ok ?cb"
    "cb_open_duration ?cb = 30000000000"
    using run_refines [OF breaker_new_ok, of demo_history 1] demo_history_events
    by (simp_all add: breaker_new_abs del: abs_entry.simps)
  then show ?thesis
    using half_open_admits_all [of 1 ?cb 3000000000 "[40000000000, 40000000000]" 40000000000] by simp
qed

end
