(* ===== verification/Rust_Order.thy ===== *)
theory Rust_Order
  imports Kwaai_Prelude Rust_Float "HOL-Library.Multiset"
begin

text \<open>
  Comparison-based operations of the Rust standard library: \<open>Ordering::then_with\<close>, the stable
  \<open>sort_by\<close>, \<open>min_by_key\<close> (first minimum), \<open>max_by_key\<close> (last maximum), \<open>position\<close>,
  lexicographic comparison of strings, and the string functions \<open>contains\<close>, \<open>strip_prefix\<close>,
  \<open>split\<close>, \<open>splitn\<close>, \<open>trim_end_matches\<close> and \<open>parse\<close> of unsigned numbers.

  A comparator's contract is the locale \<open>total_cmp\<close>; its lemmas say that \<open>sort_by\<close> sorts. On a comparator that is not a
  total order (scores with NaN) the library may order the list otherwise or panic; the model keeps the result of an
  insertion sort there, and no ordering is claimed for such lists.
\<close>

section \<open>Comparators\<close>

fun then_with :: "ordering \<Rightarrow> ordering \<Rightarrow> ordering" where
  "then_with Equal o2 = o2"
| "then_with o1 _ = o1"

fun ordering_reverse :: "ordering \<Rightarrow> ordering" where
  "ordering_reverse Less = Greater"
| "ordering_reverse Equal = Equal"
| "ordering_reverse Greater = Less"

definition ord_cmp :: "'a :: linorder \<Rightarrow> 'a \<Rightarrow> ordering" where
  "ord_cmp a b = (if a < b then Less else if b < a then Greater else Equal)"

fun str_cmp :: "string \<Rightarrow> string \<Rightarrow> ordering" where
  "str_cmp [] [] = Equal"
| "str_cmp [] (_ # _) = Less"
| "str_cmp (_ # _) [] = Greater"
| "str_cmp (a # as) (b # bs) =
     then_with (ord_cmp (of_char a :: nat) (of_char b)) (str_cmp as bs)"

section \<open>Stable sorting\<close>

text \<open>
  \<open>sort_by\<close> is stable; on a comparator that is a total preorder its result is unique, and it
  is the one insertion from the right computes.
\<close>

fun insert_by :: "('a \<Rightarrow> 'a \<Rightarrow> ordering) \<Rightarrow> 'a \<Rightarrow> 'a list \<Rightarrow> 'a list" where
  "insert_by cmp x [] = [x]"
| "insert_by cmp x (y # ys) = (if cmp x y = Greater then y # insert_by cmp x ys else x # y # ys)"

definition sort_by :: "('a \<Rightarrow> 'a \<Rightarrow> ordering) \<Rightarrow> 'a list \<Rightarrow> 'a list" where
  "sort_by cmp xs = foldr (insert_by cmp) xs []"

lemma mset_insert_by [simp]: "mset (insert_by cmp x ys) = add_mset x (mset ys)"
  by (induction ys) auto

lemma mset_sort_by [simp]: "mset (sort_by cmp xs) = mset xs"
  by (induction xs) (simp_all add: sort_by_def)

lemma set_sort_by [simp]: "set (sort_by cmp xs) = set xs"
  by (metis mset_sort_by set_mset_mset)

lemma length_sort_by [simp]: "length (sort_by cmp xs) = length xs"
  by (metis mset_sort_by size_mset)

locale total_cmp =
  fixes D :: "'a set" and cmp :: "'a \<Rightarrow> 'a \<Rightarrow> ordering"
  assumes total: "a \<in> D \<Longrightarrow> b \<in> D \<Longrightarrow> cmp a b = Greater \<Longrightarrow> cmp b a \<noteq> Greater"
    and trans: "a \<in> D \<Longrightarrow> b \<in> D \<Longrightarrow> c \<in> D \<Longrightarrow> cmp a b \<noteq> Greater \<Longrightarrow> cmp b c \<noteq> Greater \<Longrightarrow> cmp a c \<noteq> Greater"
begin

lemma insert_by_sorted:
  "x \<in> D \<Longrightarrow> set ys \<subseteq> D \<Longrightarrow> sorted_wrt (\<lambda>a b. cmp a b \<noteq> Greater) ys \<Longrightarrow>
     sorted_wrt (\<lambda>a b. cmp a b \<noteq> Greater) (insert_by cmp x ys)"
proof (induction ys)
  case (Cons y ys)
  show ?case
  proof (cases "cmp x y = Greater")
    case True
    have "set (insert_by cmp x ys) = insert x (set ys)"
      by (metis mset.simps(2) mset_eq_setD mset_insert_by list.simps(15))
    with True Cons total [of x y] show ?thesis by auto
  next
    case False
    with Cons.prems trans [of x y] show ?thesis by auto
  qed
qed simp

lemma sort_by_sorted:
  "set xs \<subseteq> D \<Longrightarrow> sorted_wrt (\<lambda>a b. cmp a b \<noteq> Greater) (sort_by cmp xs)"
proof (induction xs)
  case (Cons x xs)
  then have "set (sort_by cmp xs) \<subseteq> D" by simp
  with Cons insert_by_sorted [of x "sort_by cmp xs"] show ?case by (simp add: sort_by_def)
qed (simp add: sort_by_def)

text \<open>The first element is one that no element precedes strictly.\<close>

lemma sort_by_hd:
  assumes "set xs \<subseteq> D" "x \<in> set xs"
  shows "cmp (hd (sort_by cmp xs)) x \<noteq> Greater"
proof (cases "sort_by cmp xs")
  case Nil
  with assms(2) show ?thesis by (metis empty_iff list.set(1) set_sort_by)
next
  case (Cons y ys)
  have "x \<in> set (y # ys)" using assms(2) Cons by (metis set_sort_by)
  moreover have "cmp y y \<noteq> Greater"
  proof -
    have "y \<in> D" using assms(1) Cons by (metis list.set_intros(1) set_sort_by subsetD)
    then show ?thesis using total [of y y] by blast
  qed
  ultimately show ?thesis using sort_by_sorted [OF assms(1)] Cons by auto
qed

end

lemma ord_cmp_simps [simp]:
  "ord_cmp a b = Greater \<longleftrightarrow> b < a" "ord_cmp a b = Less \<longleftrightarrow> a < b" "ord_cmp a b = Equal \<longleftrightarrow> a = b"
  by (auto simp: ord_cmp_def)

interpretation key_cmp: total_cmp UNIV "\<lambda>a b. ord_cmp (f a) (f b)" for f :: "'a \<Rightarrow> 'b :: linorder"
  by unfold_locales auto

section \<open>Extremal elements\<close>

text \<open>\<open>min_by_key\<close> returns the first minimum, \<open>max_by_key\<close> the last maximum.\<close>

fun min_by_key :: "('a \<Rightarrow> 'b :: linorder) \<Rightarrow> 'a list \<Rightarrow> 'a option" where
  "min_by_key f [] = None"
| "min_by_key f (x # xs) =
     (case min_by_key f xs of None \<Rightarrow> Some x | Some y \<Rightarrow> if f y < f x then Some y else Some x)"

fun max_by_key :: "('a \<Rightarrow> 'b :: linorder) \<Rightarrow> 'a list \<Rightarrow> 'a option" where
  "max_by_key f [] = None"
| "max_by_key f (x # xs) =
     (case max_by_key f xs of None \<Rightarrow> Some x | Some y \<Rightarrow> if f y < f x then Some x else Some y)"

lemma min_by_key_None [simp]: "min_by_key f xs = None \<longleftrightarrow> xs = []"
  by (cases xs) (auto split: option.splits)

lemma max_by_key_None [simp]: "max_by_key f xs = None \<longleftrightarrow> xs = []"
  by (cases xs) (auto split: option.splits)

lemma min_by_key_Some:
  "min_by_key f xs = Some x \<Longrightarrow> x \<in> set xs \<and> (\<forall>y \<in> set xs. f x \<le> f y)"
proof (induction xs arbitrary: x)
  case (Cons a xs)
  then show ?case
    by (cases "min_by_key f xs") (fastforce split: if_splits)+
qed simp

lemma max_by_key_Some:
  "max_by_key f xs = Some x \<Longrightarrow> x \<in> set xs \<and> (\<forall>y \<in> set xs. f y \<le> f x)"
proof (induction xs arbitrary: x)
  case (Cons a xs)
  then show ?case
    by (cases "max_by_key f xs") (fastforce split: if_splits)+
qed simp

fun position :: "('a \<Rightarrow> bool) \<Rightarrow> 'a list \<Rightarrow> nat option" where
  "position P [] = None"
| "position P (x # xs) = (if P x then Some 0 else map_option Suc (position P xs))"

lemma position_None: "position P xs = None \<longleftrightarrow> (\<forall>x \<in> set xs. \<not> P x)"
  by (induction xs) auto

lemma position_Some:
  "position P xs = Some i \<longleftrightarrow> i < length xs \<and> P (xs ! i) \<and> (\<forall>j<i. \<not> P (xs ! j))"
proof (induction xs arbitrary: i)
  case (Cons x xs)
  then show ?case
    by (cases i) (auto simp: less_Suc_eq_0_disj)
qed simp

section \<open>Strings\<close>

fun strip_prefix :: "string \<Rightarrow> string \<Rightarrow> string option" where
  "strip_prefix [] s = Some s"
| "strip_prefix (c # p) (d # s) = (if c = d then strip_prefix p s else None)"
| "strip_prefix (_ # _) [] = None"

definition starts_with :: "string \<Rightarrow> string \<Rightarrow> bool" where
  "starts_with p s \<longleftrightarrow> strip_prefix p s \<noteq> None"

fun str_contains :: "string \<Rightarrow> string \<Rightarrow> bool" where
  "str_contains p [] = (p = [])"
| "str_contains p (c # s) = (starts_with p (c # s) \<or> str_contains p s)"

text \<open>\<open>split(c)\<close> and \<open>splitn(n, c)\<close>: the pieces between separators, at least one.\<close>

fun split_char :: "char \<Rightarrow> string \<Rightarrow> string list" where
  "split_char c [] = [ [] ]"
| "split_char c (d # s) =
     (if d = c then [] # split_char c s
      else case split_char c s of [] \<Rightarrow> [ [d] ] | p # ps \<Rightarrow> (d # p) # ps)"

fun splitn_char :: "nat \<Rightarrow> char \<Rightarrow> string \<Rightarrow> string list" where
  "splitn_char 0 c s = []"
| "splitn_char (Suc 0) c s = [s]"
| "splitn_char (Suc (Suc n)) c s =
     (let p = takeWhile (\<lambda>d. d \<noteq> c) s in
      if length p = length s then [s] else p # splitn_char (Suc n) c (drop (Suc (length p)) s))"

definition trim_end_matches :: "(char \<Rightarrow> bool) \<Rightarrow> string \<Rightarrow> string" where
  "trim_end_matches P s = rev (dropWhile P (rev s))"

definition is_ascii_digit :: "char \<Rightarrow> bool" where
  "is_ascii_digit c \<longleftrightarrow> 48 \<le> (of_char c :: nat) \<and> (of_char c :: nat) \<le> 57"

definition digits_value :: "string \<Rightarrow> nat" where
  "digits_value s = foldl (\<lambda>v c. 10 * v + (of_char c - 48)) 0 s"

text \<open>\<open>str::parse\<close> for an unsigned type of \<open>w\<close> bits: an optional plus sign, then digits.\<close>

definition parse_uint :: "nat \<Rightarrow> string \<Rightarrow> nat option" where
  "parse_uint w s =
     (let ds = (case strip_prefix ''+'' s of Some r \<Rightarrow> r | None \<Rightarrow> s)
      in if ds \<noteq> [] \<and> list_all is_ascii_digit ds \<and> digits_value ds < 2 ^ w
         then Some (digits_value ds) else None)"

text \<open>Decimal printing.\<close>

fun show_nat :: "nat \<Rightarrow> string" where
  "show_nat n = (if n < 10 then [char_of (48 + n)] else show_nat (n div 10) @ [char_of (48 + n mod 10)])"

declare show_nat.simps [simp del]

lemma strip_prefix_append [simp]: "strip_prefix p (p @ s) = Some s"
  by (induction p) auto

lemma strip_prefix_Some: "strip_prefix p s = Some r \<longleftrightarrow> s = p @ r"
  by (induction p s rule: strip_prefix.induct) auto

lemma starts_with_iff: "starts_with p s \<longleftrightarrow> (\<exists>r. s = p @ r)"
  using strip_prefix_Some by (auto simp: starts_with_def)

lemma str_contains_iff: "str_contains p s \<longleftrightarrow> (\<exists>a b. s = a @ p @ b)"
proof (induction s)
  case (Cons c s)
  have "(\<exists>a b. c # s = a @ p @ b) \<longleftrightarrow> (\<exists>b. c # s = p @ b) \<or> (\<exists>a b. s = a @ p @ b)"
    by (metis append_Cons append_Nil neq_Nil_conv list.inject)
  with Cons show ?case by (simp add: starts_with_iff)
qed auto

lemma digit_char:
  "n < (10 :: nat) \<Longrightarrow> is_ascii_digit (char_of (48 + n))"
  "n < (10 :: nat) \<Longrightarrow> of_char (char_of (48 + n)) = 48 + n"
  by (simp_all add: is_ascii_digit_def)

lemma show_nat_digits: "list_all is_ascii_digit (show_nat n)"
  by (induction n rule: show_nat.induct)
    (subst show_nat.simps, simp add: digit_char del: char_of_nat)

lemma show_nat_nonempty [simp]: "show_nat n \<noteq> []"
  by (subst show_nat.simps) simp

lemma digits_value_show [simp]: "digits_value (show_nat n) = n"
proof (induction n rule: show_nat.induct)
  case (1 n)
  then show ?case
    by (subst show_nat.simps) (simp add: digits_value_def digit_char)
qed

lemma not_digit: "\<not> is_ascii_digit CHR ''+''" "\<not> is_ascii_digit CHR ''.''"
  by (simp_all add: is_ascii_digit_def)

lemma strip_plus_digits: "list_all is_ascii_digit ds \<Longrightarrow> strip_prefix ''+'' ds = None"
  by (cases ds) (auto simp: not_digit)

lemma parse_uint_show: "n < 2 ^ w \<Longrightarrow> parse_uint w (show_nat n) = Some n"
  by (simp add: parse_uint_def strip_plus_digits show_nat_digits)

text \<open>\<open>Iterator::max_by\<close>: of two elements the later one stays unless the comparison says
  \<open>Greater\<close>.\<close>

definition max_by :: "('a \<Rightarrow> 'a \<Rightarrow> ordering) \<Rightarrow> 'a list \<Rightarrow> 'a option" where
  "max_by cmp xs = (case xs of [] \<Rightarrow> None | x # rest \<Rightarrow> Some (foldl (\<lambda>a b. if cmp a b = Greater then a else b) x rest))"

lemma max_by_mem: "max_by cmp xs = Some x \<Longrightarrow> x \<in> set xs"
proof -
  have "foldl (\<lambda>a b. if cmp a b = Greater then a else b) a ys \<in> insert a (set ys)" for a ys
    by (induction ys arbitrary: a) auto
  then show "max_by cmp xs = Some x \<Longrightarrow> x \<in> set xs" by (auto simp: max_by_def split: list.splits)
qed

lemma max_by_None [simp]: "max_by cmp xs = None \<longleftrightarrow> xs = []"
  by (simp add: max_by_def split: list.splits)

text \<open>\<open>sort_by(|a, b| key(b).partial_cmp(&key(a)).unwrap_or(Equal))\<close>: decreasing keys. It is a total
  preorder on elements whose keys are not NaN.\<close>

definition f64_desc :: "('a \<Rightarrow> f64) \<Rightarrow> 'a \<Rightarrow> 'a \<Rightarrow> ordering" where
  "f64_desc key a b = unwrap_or (f64_partial_cmp (key b) (key a)) Equal"

lemma f64_desc_Greater:
  "key a \<noteq> NaN \<Longrightarrow> key b \<noteq> NaN \<Longrightarrow> f64_desc key a b \<noteq> Greater \<longleftrightarrow> f64_le (key b) (key a)"
  using f64_not_lt [of "key a" "key b"]
  by (auto simp: f64_desc_def f64_partial_cmp_def unwrap_or_def dest: f64_lt_asym)

interpretation f64_desc: total_cmp "{x. key x \<noteq> NaN}" "f64_desc key" for key :: "'a \<Rightarrow> f64"
proof
  fix a b c :: 'a
  assume "a \<in> {x. key x \<noteq> NaN}" "b \<in> {x. key x \<noteq> NaN}"
  then have nn: "key a \<noteq> NaN" "key b \<noteq> NaN" by simp_all
  show "f64_desc key a b = Greater \<Longrightarrow> f64_desc key b a \<noteq> Greater"
    using f64_desc_Greater [of key, OF nn] f64_desc_Greater [of key, OF nn(2,1)] f64_not_lt [OF nn]
    by (auto simp: f64_le_def)
  assume "c \<in> {x. key x \<noteq> NaN}" "f64_desc key a b \<noteq> Greater" "f64_desc key b c \<noteq> Greater"
  then show "f64_desc key a c \<noteq> Greater"
    using nn f64_desc_Greater [of key a b] f64_desc_Greater [of key b c] f64_desc_Greater [of key a c] f64_le_trans by blast
qed

end
