(* ===== verification/Shard_Chain.thy ===== *)
theory Shard_Chain
  imports Rust_Order Dht_Protocol
begin

text \<open>
  Block servers and their coverage of a model's blocks (\<open>kwaai-cli/src/shard_cmd.rs\<close> and
  \<open>rebalancer.rs\<close>): which range a node should serve, whether it should move, and the path of
  servers an inference session is pinned to. A \<open>usize\<close> is a natural number; where a sum may
  exceed its 64 bits the wrap-around is written out. A function that can panic returns an
  option, and \<open>None\<close> is the panic.

  Lemmas: the counted coverage is the number of other servers of a block; a proposed move
  never uncovers a block; the chosen window is the least covered; the pinned path exists
  exactly when every block is covered, and no path has fewer hops.
\<close>

section \<open>Entries and coverage\<close>

record 'p block_server_entry =
  be_peer_id :: 'p
  be_start_block :: nat
  be_end_block :: nat
  be_public_name :: string
  be_throughput :: f64
  be_trust_score :: "f64 option"

text \<open>\<open>for c in &mut coverage[s..e] { *c += 1 }\<close>: the slice panics unless \<open>s \<le> e \<le> len\<close>.\<close>

definition bump_range :: "nat \<Rightarrow> nat \<Rightarrow> nat list \<Rightarrow> nat list option" where
  "bump_range s e cov =
     (if s \<le> e \<and> e \<le> length cov
      then Some (take s cov @ map Suc (drop s (take e cov)) @ drop e cov) else None)"

fun count_others :: "'p \<Rightarrow> nat \<Rightarrow> 'p block_server_entry list \<Rightarrow> nat list \<Rightarrow> nat list option" where
  "count_others our total_blocks [] coverage = Some coverage"
| "count_others our total_blocks (entry # chain) coverage =
     (if be_peer_id entry = our then count_others our total_blocks chain coverage
      else let s = min (be_start_block entry) total_blocks;
               e = min (be_end_block entry) total_blocks
           in case bump_range s e coverage of
                None \<Rightarrow> None
              | Some coverage' \<Rightarrow> count_others our total_blocks chain coverage')"

definition min_or_zero :: "nat list \<Rightarrow> nat" where
  "min_or_zero xs = unwrap_or (min_by_key (\<lambda>x. x) xs) 0"

definition usize_add :: "nat \<Rightarrow> nat \<Rightarrow> nat" where
  "usize_add a b = (a + b) mod 2 ^ 64"

section \<open>Rebalancing\<close>

definition check_rebalance ::
    "'p block_server_entry list \<Rightarrow> 'p \<Rightarrow> nat \<Rightarrow> nat \<Rightarrow> nat \<Rightarrow> nat \<Rightarrow> nat \<Rightarrow> (nat \<times> nat) option option" where
  "check_rebalance chain our our_start our_end total_blocks target min_redundancy =
     (if total_blocks = 0 \<or> our_start \<ge> our_end then Some None
      else case count_others our total_blocks chain (replicate total_blocks 0) of
        None \<Rightarrow> None
      | Some coverage \<Rightarrow>
          (let a = min our_start total_blocks; b = min our_end total_blocks;
               our_min_coverage = min_or_zero (drop a (take b coverage))
           in if our_min_coverage < min_redundancy then Some None
              else case position (\<lambda>c. c = 0) coverage of
                None \<Rightarrow> Some None
              | Some gap_start \<Rightarrow>
                  Some (Some (gap_start, min (usize_add gap_start target) total_blocks))))"

definition pick_gap_from_chain ::
    "'p block_server_entry list \<Rightarrow> 'p \<Rightarrow> nat \<Rightarrow> nat \<Rightarrow> (nat \<times> nat) option" where
  "pick_gap_from_chain chain our total_blocks target_blocks =
     (if total_blocks = 0 then Some (0, 0)
      else let target = min target_blocks total_blocks in
        case count_others our total_blocks chain (replicate total_blocks 0) of
          None \<Rightarrow> None
        | Some coverage \<Rightarrow>
            (let min_cov = min_or_zero coverage;
                 start = (if min_cov = 0 then unwrap_or (position (\<lambda>c. c = 0) coverage) 0
                          else let n_windows = total_blocks - target + 1
                               in unwrap_or (min_by_key (\<lambda>i. sum_list (take target (drop i coverage)))
                                              [0..<n_windows]) 0)
             in Some (start, min (usize_add start target) total_blocks)))"

section \<open>The pinned path\<close>

definition covers :: "'p block_server_entry \<Rightarrow> nat \<Rightarrow> bool" where
  "covers e b \<longleftrightarrow> be_start_block e \<le> b \<and> be_end_block e > b"

function build_pinned_from ::
    "'p block_server_entry list \<Rightarrow> nat \<Rightarrow> 'p list \<Rightarrow> nat \<Rightarrow> nat + 'p block_server_entry list" where
  "build_pinned_from chain total_blocks failed pos =
     (if pos < total_blocks
      then case max_by_key be_end_block
                  (filter (\<lambda>e. be_peer_id e \<notin> set failed) (filter (\<lambda>e. covers e pos) chain)) of
             Some entry \<Rightarrow>
               (case build_pinned_from chain total_blocks failed (be_end_block entry) of
                  Inl gap \<Rightarrow> Inl gap
                | Inr path \<Rightarrow> Inr (entry # path))
           | None \<Rightarrow> Inl pos
      else Inr [])"
  by pat_completeness auto
termination
  by (relation "measure (\<lambda>(_, total_blocks, _, pos). total_blocks - pos)")
    (auto dest!: max_by_key_Some simp: covers_def)

declare build_pinned_from.simps [simp del]

text \<open>\<open>Inl b\<close> is the error "No server covers block b".\<close>

definition build_pinned_path ::
    "'p block_server_entry list \<Rightarrow> nat \<Rightarrow> 'p list \<Rightarrow> nat + 'p block_server_entry list" where
  "build_pinned_path chain total_blocks failed = build_pinned_from chain total_blocks failed 0"

text \<open>\<open>covered[start..end.min(total_blocks)].fill(true)\<close>\<close>

fun fill_covered :: "'p block_server_entry list \<Rightarrow> nat \<Rightarrow> bool list \<Rightarrow> bool list option" where
  "fill_covered [] total_blocks cov = Some cov"
| "fill_covered (entry # chain) total_blocks cov =
     (let s = be_start_block entry; e = min (be_end_block entry) total_blocks in
      if s \<le> e \<and> e \<le> length cov
      then fill_covered chain total_blocks (take s cov @ replicate (e - s) True @ drop e cov)
      else None)"

definition coverage_check :: "'p block_server_entry list \<Rightarrow> nat \<Rightarrow> bool option" where
  "coverage_check chain total_blocks =
     map_option (list_all (\<lambda>c. c)) (fill_covered chain total_blocks (replicate total_blocks False))"

section \<open>Coverage counts\<close>

definition other_servers :: "'p \<Rightarrow> 'p block_server_entry list \<Rightarrow> nat \<Rightarrow> nat" where
  "other_servers our chain b = length (filter (\<lambda>e. be_peer_id e \<noteq> our \<and> covers e b) chain)"

lemma bump_range_Some:
  "bump_range s e cov = Some cov' \<Longrightarrow>
     length cov' = length cov \<and> (\<forall>b < length cov. cov' ! b = cov ! b + (if s \<le> b \<and> b < e then 1 else 0))"
  by (auto simp: bump_range_def nth_append min_def split: if_splits)

lemma count_others_Some:
  "count_others our total_blocks chain cov = Some cov' \<Longrightarrow> length cov = total_blocks \<Longrightarrow>
     length cov' = total_blocks \<and> (\<forall>b < total_blocks. cov' ! b = cov ! b + other_servers our chain b)"
proof (induction chain arbitrary: cov)
  case (Cons e chain)
  show ?case
  proof (cases "be_peer_id e = our")
    case True
    with Cons show ?thesis by (simp add: other_servers_def)
  next
    case False
    with Cons.prems obtain c1 where c1: "bump_range (min (be_start_block e) total_blocks) (min (be_end_block e) total_blocks) cov = Some c1"
      "count_others our total_blocks chain c1 = Some cov'"
      by (auto simp: Let_def split: option.splits)
    from bump_range_Some [OF c1(1)] Cons.IH [OF c1(2)] Cons.prems(2) False show ?thesis
      by (auto simp: other_servers_def covers_def)
  qed
qed (simp add: other_servers_def)

lemma count_others_None:
  "length cov = total_blocks \<Longrightarrow> count_others our total_blocks chain cov = None \<longleftrightarrow>
     (\<exists>e \<in> set chain. be_peer_id e \<noteq> our \<and> min (be_end_block e) total_blocks < min (be_start_block e) total_blocks)"
proof (induction chain arbitrary: cov)
  case (Cons e chain)
  show ?case
  proof (cases "be_peer_id e = our \<or> min (be_end_block e) total_blocks < min (be_start_block e) total_blocks")
    case True
    with Cons show ?thesis by (auto simp: bump_range_def Let_def)
  next
    case False
    then have "min (be_start_block e) total_blocks \<le> min (be_end_block e) total_blocks" by linarith
    with Cons.prems obtain c1 where c1: "bump_range (min (be_start_block e) total_blocks) (min (be_end_block e) total_blocks) cov = Some c1"
      by (simp add: bump_range_def)
    with bump_range_Some [OF c1] Cons.prems have "length c1 = total_blocks" by simp
    with c1 Cons.IH [of c1] False show ?thesis by (auto simp: Let_def)
  qed
qed simp

lemma min_or_zero_bounds:
  "x \<in> set xs \<Longrightarrow> min_or_zero xs \<le> x" "xs \<noteq> [] \<Longrightarrow> min_or_zero xs \<in> set xs"
  using min_by_key_Some [of "\<lambda>x. x" xs]
  by (cases "min_by_key (\<lambda>x. x) xs"; force simp: min_or_zero_def unwrap_or_def)+

lemma count_zero_Some:
  "count_others our N chain (replicate N 0) = Some cov \<Longrightarrow>
     length cov = N \<and> (\<forall>b < N. cov ! b = other_servers our chain b)"
  using count_others_Some [of our N chain "replicate N 0" cov] by simp

lemma slice_min:
  assumes "k \<le> min_or_zero (drop a (take b xs))" "a \<le> i" "i < b" "b \<le> length xs"
  shows "k \<le> xs ! i"
proof -
  have "drop a (take b xs) ! (i - a) = xs ! i" using assms(2-4) by simp
  moreover have "drop a (take b xs) ! (i - a) \<in> set (drop a (take b xs))"
    using assms(2-4) by (intro nth_mem) auto
  ultimately show ?thesis using min_or_zero_bounds(1) assms(1) by (metis order_trans)
qed

lemma window_sum:
  "i + w \<le> length xs \<Longrightarrow> sum_list (take w (drop i xs)) = (\<Sum>b \<in> {i..<i + w}. xs ! b)"
proof -
  assume "i + w \<le> length xs"
  then have "sum_list (take w (drop i xs)) = (\<Sum>j \<in> {0..<w}. xs ! (j + i))"
    by (simp add: sum_list_sum_nth add.commute)
  also have "\<dots> = (\<Sum>b \<in> {0 + i..<w + i}. xs ! b)" by (rule sum.shift_bounds_nat_ivl [symmetric])
  finally show ?thesis by (simp add: add.commute)
qed

lemma least_window:
  assumes "w \<le> N" "length cov = N"
    and "s = unwrap_or (min_by_key (\<lambda>i. sum_list (take w (drop i cov))) [0..<N - w + 1]) 0"
  shows "s + w \<le> N" "i + w \<le> N \<Longrightarrow> (\<Sum>b \<in> {s..<s + w}. cov ! b) \<le> (\<Sum>b \<in> {i..<i + w}. cov ! b)"
proof -
  let ?f = "\<lambda>i. sum_list (take w (drop i cov))"
  obtain m where m: "min_by_key ?f [0..<N - w + 1] = Some m"
    using min_by_key_None [of ?f "[0..<N - w + 1]"] by (cases "min_by_key ?f [0..<N - w + 1]") auto
  with assms(3) have sm: "s = m" by (simp add: unwrap_or_def)
  have mem: "m \<in> {0..<N - w + 1}" and least: "\<And>j. j < N - w + 1 \<Longrightarrow> ?f m \<le> ?f j"
    using min_by_key_Some [OF m] by (auto simp del: upt_Suc)
  show sw: "s + w \<le> N" using mem assms(1) by (simp add: sm)
  show "(\<Sum>b \<in> {s..<s + w}. cov ! b) \<le> (\<Sum>b \<in> {i..<i + w}. cov ! b)" if "i + w \<le> N"
    using least [of i] that sw window_sum [of s w cov] window_sum [of i w cov] assms(2) by (simp add: sm)
qed

section \<open>Paths\<close>

text \<open>A path from \<open>pos\<close>: every hop covers the block at which the previous one stopped.\<close>

fun path_from :: "nat \<Rightarrow> 'p block_server_entry set \<Rightarrow> nat \<Rightarrow> 'p block_server_entry list \<Rightarrow> bool" where
  "path_from N usable pos [] \<longleftrightarrow> N \<le> pos"
| "path_from N usable pos (e # path) \<longleftrightarrow>
     pos < N \<and> e \<in> usable \<and> covers e pos \<and> path_from N usable (be_end_block e) path"

definition usable_servers :: "'p block_server_entry list \<Rightarrow> 'p list \<Rightarrow> 'p block_server_entry set" where
  "usable_servers chain failed = {e \<in> set chain. be_peer_id e \<notin> set failed}"

lemma path_covers:
  "path_from N U pos path \<Longrightarrow> pos \<le> b \<Longrightarrow> b < N \<Longrightarrow> \<exists>e \<in> U. covers e b"
proof (induction path arbitrary: pos)
  case (Cons e path)
  show ?case
  proof (cases "b < be_end_block e")
    case True
    with Cons.prems show ?thesis by (intro bexI [of _ e]) (auto simp: covers_def)
  next
    case False
    with Cons.IH [of "be_end_block e"] Cons.prems show ?thesis by simp
  qed
qed simp

lemma build_pinned_done: "N \<le> pos \<Longrightarrow> build_pinned_from chain N failed pos = Inr []"
  by (subst build_pinned_from.simps) simp

lemma build_pinned_step:
  "pos < N \<Longrightarrow> build_pinned_from chain N failed pos =
     (case max_by_key be_end_block (filter (\<lambda>e. be_peer_id e \<notin> set failed) (filter (\<lambda>e. covers e pos) chain)) of
        Some entry \<Rightarrow> (case build_pinned_from chain N failed (be_end_block entry) of
            Inl gap \<Rightarrow> Inl gap | Inr path \<Rightarrow> Inr (entry # path))
      | None \<Rightarrow> Inl pos)"
  by (subst build_pinned_from.simps) simp

lemma build_pinned_from_Inr:
  "build_pinned_from chain N failed pos = Inr path \<Longrightarrow> path_from N (usable_servers chain failed) pos path"
proof (induction chain N failed pos arbitrary: path rule: build_pinned_from.induct)
  case (1 chain N failed pos)
  let ?cs = "filter (\<lambda>e. be_peer_id e \<notin> set failed) (filter (\<lambda>e. covers e pos) chain)"
  show ?case
  proof (cases "pos < N")
    case True
    with 1 obtain e p where e: "max_by_key be_end_block ?cs = Some e"
      "build_pinned_from chain N failed (be_end_block e) = Inr p" "path = e # p"
      by (auto simp: build_pinned_step split: option.splits sum.splits)
    with True 1 max_by_key_Some [OF e(1)] show ?thesis by (simp add: usable_servers_def)
  next
    case False
    with 1 show ?thesis by (simp add: build_pinned_done)
  qed
qed

lemma build_pinned_from_Inl:
  "build_pinned_from chain N failed pos = Inl b \<Longrightarrow>
     pos \<le> b \<and> b < N \<and> (\<forall>e \<in> usable_servers chain failed. \<not> covers e b) \<and>
     (\<forall>c. pos \<le> c \<and> c < b \<longrightarrow> (\<exists>e \<in> usable_servers chain failed. covers e c))"
proof (induction chain N failed pos rule: build_pinned_from.induct)
  case (1 chain N failed pos)
  let ?cs = "filter (\<lambda>e. be_peer_id e \<notin> set failed) (filter (\<lambda>e. covers e pos) chain)"
  have pos: "pos < N" using "1.prems" build_pinned_done [of N pos chain failed] by (cases "pos < N") simp_all
  show ?case
  proof (cases "max_by_key be_end_block ?cs")
    case None
    then have "?cs = []" by simp
    with None pos "1.prems" show ?thesis
      by (auto simp: build_pinned_step usable_servers_def filter_empty_conv)
  next
    case (Some e)
    with pos "1.prems" have "build_pinned_from chain N failed (be_end_block e) = Inl b"
      by (auto simp: build_pinned_step split: sum.splits)
    note IH = "1.IH" [OF pos Some this]
    have e: "e \<in> usable_servers chain failed" "covers e pos"
      using max_by_key_Some [OF Some] by (simp_all add: usable_servers_def)
    have "\<exists>e \<in> usable_servers chain failed. covers e c" if "pos \<le> c" "c < b" for c
      using that IH e by (cases "c < be_end_block e") (auto simp: covers_def)
    with IH e(2) show ?thesis by (auto simp: covers_def)
  qed
qed

text \<open>Greedy stays ahead: no path that starts no further has fewer hops.\<close>

lemma build_pinned_from_shortest:
  assumes "build_pinned_from chain N failed pos = Inr path"
    and "path_from N (usable_servers chain failed) q alt" "q \<le> pos"
  shows "length path \<le> length alt"
  using assms
proof (induction alt arbitrary: pos path q)
  case Nil
  then show ?case by (simp add: build_pinned_done)
next
  case (Cons e alt)
  let ?cs = "filter (\<lambda>e. be_peer_id e \<notin> set failed) (filter (\<lambda>e. covers e pos) chain)"
  show ?case
  proof (cases "pos < N \<and> pos < be_end_block e")
    case False
    then consider "N \<le> pos" | "be_end_block e \<le> pos" by linarith
    then show ?thesis
    proof cases
      case 1
      with Cons.prems(1) show ?thesis by (simp add: build_pinned_done)
    next
      case 2
      with Cons.IH [OF Cons.prems(1), of "be_end_block e"] Cons.prems(2) show ?thesis by simp
    qed
  next
    case True
    with Cons.prems obtain b p where b: "max_by_key be_end_block ?cs = Some b"
      "build_pinned_from chain N failed (be_end_block b) = Inr p" "path = b # p"
      by (auto simp: build_pinned_step split: option.splits sum.splits)
    have "e \<in> set ?cs" using Cons.prems(2,3) True by (auto simp: covers_def usable_servers_def)
    with max_by_key_Some [OF b(1)] have "be_end_block e \<le> be_end_block b" by blast
    with Cons.IH [OF b(2), of "be_end_block e"] Cons.prems(2) b(3) show ?thesis by simp
  qed
qed

lemma fill_covered_Some:
  "fill_covered chain N cov = Some cov' \<Longrightarrow> length cov = N \<Longrightarrow>
     length cov' = N \<and> (\<forall>b < N. cov' ! b \<longleftrightarrow> cov ! b \<or> (\<exists>e \<in> set chain. covers e b))"
proof (induction chain arbitrary: cov)
  case (Cons e chain)
  let ?s = "be_start_block e" and ?e = "min (be_end_block e) N"
  let ?c = "take ?s cov @ replicate (?e - ?s) True @ drop ?e cov"
  from Cons.prems have ok: "?s \<le> ?e" "?e \<le> N" and c: "fill_covered chain N ?c = Some cov'"
    by (auto simp: Let_def split: if_splits)
  have len: "length ?c = N" using ok Cons.prems(2) by simp
  have "?c ! b \<longleftrightarrow> cov ! b \<or> covers e b" if "b < N" for b
    using ok that Cons.prems(2) by (auto simp: nth_append covers_def min_def)
  with Cons.IH [OF c len] show ?case by auto
qed simp

section \<open>Properties\<close>

text \<open>
  C16: The pinned path. \<open>build_pinned_path\<close> ends for every chain; it returns a path exactly
  when every block is covered by a server that has not failed, and then each hop is such
  a server and covers the block where the previous hop stopped, up to the last block. When
  it fails, the block it names is the first block of the model that has no usable server.
\<close>

theorem pinned_path_correct:
  "(\<exists>path. build_pinned_path chain N failed = Inr path \<and>
           path_from N (usable_servers chain failed) 0 path \<and>
           (\<forall>b. \<exists>e. N \<le> b \<or> e \<in> usable_servers chain failed \<and> covers e b)) \<or>
   (\<exists>b. build_pinned_path chain N failed = Inl b \<and> b < N \<and>
        usable_servers chain failed \<inter> {e. covers e b} = {} \<and>
        (\<forall>c. \<exists>e. b \<le> c \<or> e \<in> usable_servers chain failed \<and> covers e c))"
proof (cases "build_pinned_path chain N failed")
  case (Inl b)
  with build_pinned_from_Inl [of chain N failed 0 b]
  have "b < N" "\<forall>e \<in> usable_servers chain failed. \<not> covers e b" "\<And>c. c < b \<Longrightarrow> \<exists>e \<in> usable_servers chain failed. covers e c"
    by (auto simp: build_pinned_path_def)
  with Inl show ?thesis by (metis (no_types, lifting) disjoint_iff mem_Collect_eq not_le)
next
  case (Inr path)
  then have path: "path_from N (usable_servers chain failed) 0 path"
    using build_pinned_from_Inr by (auto simp: build_pinned_path_def)
  with path_covers [OF path] Inr show ?thesis by (metis not_less zero_le)
qed

text \<open>
  C17: The pinned path has the fewest hops: no sequence of usable servers that covers the
  blocks from 0 to the last one hop by hop is shorter.
\<close>

theorem pinned_path_shortest:
  assumes "build_pinned_path chain N failed = Inr path"
    and "path_from N (usable_servers chain failed) 0 alt"
  shows "length path \<le> length alt"
  using build_pinned_from_shortest [OF assms(1) [unfolded build_pinned_path_def] assms(2)] by simp

text \<open>
  C30: A proposed move is safe. When \<open>check_rebalance\<close> tells the node to move to \<open>[s, e)\<close>,
  every block of its current range has at least \<open>min_redundancy\<close> other servers (so with
  \<open>min_redundancy \<ge> 1\<close> leaving uncovers nothing), \<open>s\<close> is the first block that no other
  node serves, and \<open>[s, e)\<close> is a non-empty range of at most \<open>target\<close> blocks of the model.
\<close>

theorem rebalance_safe:
  assumes "check_rebalance chain our a b N target k = Some (Some (s, e))"
    and "0 < target" "N + target < 2 ^ 64"
  shows "(\<forall>i. a \<le> i \<and> i < b \<and> i < N \<longrightarrow> k \<le> other_servers our chain i) \<and>
    other_servers our chain s = 0 \<and> (\<forall>i < s. 0 < other_servers our chain i) \<and>
    s < e \<and> e \<le> N \<and> e - s \<le> target"
proof -
  from assms(1) obtain cov where cov: "count_others our N chain (replicate N 0) = Some cov"
    and k: "k \<le> min_or_zero (drop (min a N) (take (min b N) cov))"
    and s: "position (\<lambda>c. c = 0) cov = Some s" and e: "e = min (usize_add s target) N"
    by (auto simp: check_rebalance_def Let_def split: if_splits option.splits)
  note C = count_zero_Some [OF cov]
  have "s < N" "other_servers our chain s = 0" "\<forall>i < s. 0 < other_servers our chain i"
    using s C by (auto simp: position_Some)
  moreover have "k \<le> other_servers our chain i" if "a \<le> i \<and> i < b \<and> i < N" for i
    using slice_min [OF k, of i] that C by simp
  moreover have "usize_add s target = s + target" using \<open>s < N\<close> assms(3) by (simp add: usize_add_def)
  ultimately show ?thesis using assms(2) e by auto
qed

text \<open>
  The range a joining node picks is a non-empty range inside the model. If some block
  has no other server, the range starts at the first such block; otherwise it has the
  requested width and no window of that width is served by fewer other nodes in total.
\<close>

theorem pick_gap_best:
  assumes "pick_gap_from_chain chain our N target = Some (s, e)"
    and "0 < N" "0 < target" "2 * N < 2 ^ 64"
  shows "s < e \<and> e \<le> N \<and>
    (if \<exists>b<N. other_servers our chain b = 0
     then other_servers our chain s = 0 \<and> (\<forall>b < s. 0 < other_servers our chain b)
     else e = s + min target N \<and>
          (\<forall>i. i + min target N \<le> N \<longrightarrow>
             (\<Sum>b \<in> {s..<e}. other_servers our chain b) \<le>
             (\<Sum>b \<in> {i..<i + min target N}. other_servers our chain b)))"
proof -
  let ?w = "min target N"
  from assms(1,2) obtain cov where cov: "count_others our N chain (replicate N 0) = Some cov"
    and s: "s = (if min_or_zero cov = 0 then unwrap_or (position (\<lambda>c. c = 0) cov) 0
       else unwrap_or (min_by_key (\<lambda>i. sum_list (take ?w (drop i cov))) [0..<N - ?w + 1]) 0)"
    and e: "e = min (usize_add s ?w) N"
    by (auto simp: pick_gap_from_chain_def Let_def split: option.splits)
  note C = count_zero_Some [OF cov]
  have ne: "cov \<noteq> []" using C assms(2) by auto
  have zero: "min_or_zero cov = 0 \<longleftrightarrow> (\<exists>b<N. other_servers our chain b = 0)"
    using min_or_zero_bounds(1) [of _ cov] min_or_zero_bounds(2) [OF ne] C by (metis in_set_conv_nth le_zero_eq)
  have add: "usize_add s ?w = s + ?w" if "s \<le> N" using that assms(4) by (simp add: usize_add_def)
  show ?thesis
  proof (cases "min_or_zero cov = 0")
    case True
    then have "\<exists>c \<in> set cov. c = 0" using min_or_zero_bounds(2) [OF ne] by auto
    then obtain p where p: "position (\<lambda>c. c = 0) cov = Some p"
      by (cases "position (\<lambda>c. c = 0) cov") (auto simp: position_None)
    with s True have "s = p" by (simp add: unwrap_or_def)
    with p C have "s < N \<and> other_servers our chain s = 0 \<and> (\<forall>b < s. 0 < other_servers our chain b)"
      by (auto simp: position_Some)
    moreover have "\<exists>b<N. other_servers our chain b = 0" using True zero by blast
    ultimately show ?thesis using add assms(2,3) by (auto simp: e)
  next
    case False
    with s have sw: "s = unwrap_or (min_by_key (\<lambda>i. sum_list (take ?w (drop i cov))) [0..<N - ?w + 1]) 0" by simp
    have wN: "?w \<le> N" and lenN: "length cov = N" using C by simp_all
    note W = least_window [OF wN lenN sw]
    have eq: "(\<Sum>b \<in> {i..<i + ?w}. cov ! b) = (\<Sum>b \<in> {i..<i + ?w}. other_servers our chain b)" if "i + ?w \<le> N" for i
      using that C by (intro sum.cong) auto
    have e': "e = s + ?w" using add W(1) by (simp add: e)
    have "(\<Sum>b \<in> {s..<e}. other_servers our chain b) \<le> (\<Sum>b \<in> {i..<i + ?w}. other_servers our chain b)"
      if "i + ?w \<le> N" for i using W(2) [OF that] eq [OF that] eq [OF W(1)] e' by simp
    moreover have "\<not> (\<exists>b<N. other_servers our chain b = 0)" using False unfolding zero .
    ultimately show ?thesis using W(1) e' assms(2,3) by auto
  qed
qed

text \<open>
  Both functions panic on a malformed announcement. Choosing a range fails exactly when
  some other node announced a range whose end lies before its start (after clipping to
  the model), which the slice indexing does not tolerate.
\<close>

theorem pick_gap_panics:
  assumes "0 < N"
  shows "pick_gap_from_chain chain our N target = None \<longleftrightarrow>
    (\<exists>e \<in> set chain. be_peer_id e \<noteq> our \<and> be_end_block e < be_start_block e \<and> be_end_block e < N)"
proof -
  have "pick_gap_from_chain chain our N target = None \<longleftrightarrow> count_others our N chain (replicate N 0) = None"
    using assms by (simp add: pick_gap_from_chain_def Let_def split: option.split)
  moreover have "min x N < min y N \<longleftrightarrow> x < y \<and> x < N" for x y by linarith
  ultimately show ?thesis using count_others_None [of "replicate N 0" N our chain] by simp
qed

text \<open>
  When \<open>coverage_check\<close> returns, its answer is right: true exactly when every block of
  the model lies in some announced range, which is when a path can be pinned.
\<close>

theorem coverage_check_correct:
  assumes "coverage_check chain N = Some ok"
  shows "(ok \<longleftrightarrow> (\<forall>b<N. \<exists>e \<in> set chain. covers e b)) \<and>
         (ok \<longleftrightarrow> (\<exists>path. build_pinned_path chain N [] = Inr path))"
proof -
  obtain cov where cov: "fill_covered chain N (replicate N False) = Some cov" "ok = list_all (\<lambda>c. c) cov"
    using assms by (auto simp: coverage_check_def)
  have ok: "ok \<longleftrightarrow> (\<forall>b<N. \<exists>e \<in> set chain. covers e b)"
    using fill_covered_Some [OF cov(1)] by (auto simp: cov(2) list_all_length)
  have U: "usable_servers chain [] = set chain" by (simp add: usable_servers_def)
  have "(\<exists>path. build_pinned_path chain N [] = Inr path) \<longleftrightarrow> (\<forall>b<N. \<exists>e \<in> set chain. covers e b)"
    using build_pinned_from_Inr [of chain N "[]" 0] build_pinned_from_Inl [of chain N "[]" 0]
    unfolding build_pinned_path_def U by (metis le0 path_covers sum.exhaust)
  with ok show ?thesis by blast
qed

text \<open>Instances: peers 1 and 2 serve the first block of two, peer 3 both.\<close>

definition demo_entry :: "nat \<Rightarrow> nat \<Rightarrow> nat \<Rightarrow> nat block_server_entry" where
  "demo_entry p a b = \<lparr>be_peer_id = p, be_start_block = a, be_end_block = b, be_public_name = ''node'',
     be_throughput = Fin 0, be_trust_score = None\<rparr>"

lemma demo_entry_sel [simp]:
  "be_peer_id (demo_entry p a b) = p" "be_start_block (demo_entry p a b) = a"
  "be_end_block (demo_entry p a b) = b" "covers (demo_entry p a b) i \<longleftrightarrow> a \<le> i \<and> i < b"
  by (simp_all add: demo_entry_def covers_def)

lemma two_zeros: "replicate 2 x = [x, x]"
  by (simp add: numeral_2_eq_2)

theorem pinned_path_shortest_witness:
  "build_pinned_path [demo_entry 1 0 1, demo_entry 3 0 2, demo_entry 2 1 2] 2 [] = Inr [demo_entry 3 0 2] \<and>
   length [demo_entry 3 0 2] \<le> length [demo_entry 1 0 1, demo_entry 2 1 2]"
proof -
  have "build_pinned_path [demo_entry 1 0 1, demo_entry 3 0 2, demo_entry 2 1 2] 2 [] = Inr [demo_entry 3 0 2]"
    by (simp add: build_pinned_path_def build_pinned_step build_pinned_done)
  with pinned_path_shortest [OF this, of "[demo_entry 1 0 1, demo_entry 2 1 2]"] show ?thesis
    by (simp add: usable_servers_def)
qed

theorem rebalance_safe_witness:
  "check_rebalance [demo_entry 1 0 1, demo_entry 2 0 1] 1 0 1 2 1 1 = Some (Some (1, 2)) \<and>
   1 \<le> other_servers 1 [demo_entry 1 0 1, demo_entry 2 0 1] 0"
proof -
  have r: "check_rebalance [demo_entry 1 0 1, demo_entry 2 0 1] 1 0 1 2 1 1 = Some (Some (1, 2))"
    by (simp add: check_rebalance_def two_zeros bump_range_def min_or_zero_def unwrap_or_def usize_add_def)
  from rebalance_safe [OF r] have "1 \<le> other_servers 1 [demo_entry 1 0 1, demo_entry 2 0 1] 0" by simp
  with r show ?thesis by blast
qed

theorem pick_gap_best_witness:
  "pick_gap_from_chain [demo_entry 3 0 2, demo_entry 2 0 1] 1 2 1 = Some (1, 2) \<and>
   (\<Sum>b \<in> {1..<2}. other_servers 1 [demo_entry 3 0 2, demo_entry 2 0 1] b) \<le>
   (\<Sum>b \<in> {0..<1}. other_servers 1 [demo_entry 3 0 2, demo_entry 2 0 1] b)"
proof -
  have r: "pick_gap_from_chain [demo_entry 3 0 2, demo_entry 2 0 1] 1 2 1 = Some (1, 2)"
    by (simp add: pick_gap_from_chain_def two_zeros bump_range_def min_or_zero_def unwrap_or_def usize_add_def)
  have full: "\<not> (\<exists>b<2. other_servers 1 [demo_entry 3 0 2, demo_entry 2 0 1] b = 0)"
    by (simp add: other_servers_def)
  have pre: "0 < (2::nat)" "0 < (1::nat)" "2 * 2 < (2::nat) ^ 64" by simp_all
  note best = pick_gap_best [OF r pre, unfolded if_not_P [OF full]]
  show ?thesis
    using r best [THEN conjunct2, THEN conjunct2, THEN conjunct2, THEN spec, of 0] by simp
qed

theorem pick_gap_panics_witness:
  "pick_gap_from_chain [demo_entry 3 5 2] 1 8 4 = None"
  using pick_gap_panics [of 8 "[demo_entry 3 5 2]" 1 4] by simp

theorem coverage_check_correct_witness:
  "coverage_check [demo_entry 1 0 1, demo_entry 2 1 2] 2 = Some True \<and>
   (\<exists>path. build_pinned_path [demo_entry 1 0 1, demo_entry 2 1 2] 2 [] = Inr path)"
proof -
  have r: "coverage_check [demo_entry 1 0 1, demo_entry 2 1 2] 2 = Some True"
    by (simp add: coverage_check_def two_zeros)
  from coverage_check_correct [OF r] r show ?thesis by simp
qed

end
