(* ===== verification/Shard_Circuits.thy ===== *)
theory Shard_Circuits
  imports Shard_Chain
begin

text \<open>
  Version gate, block counts and saved circuits (\<open>kwaai-cli/src/shard_cmd.rs\<close>).

  The circuits file holds a text of an unspecified type \<open>'f\<close>, \<open>None\<close> while there is no readable
  file; JSON is a pair of functions between circuit lists and texts, SHA-1 with hex encoding
  and the printed form of a peer id are parameters too. Readings of \<open>now_epoch\<close> (64-bit seconds)
  are arguments in the order in which a command takes them, and so is whether writing the file
  succeeds.

  Lemmas: a saved circuit comes back until its time to live has passed since its last use; in
  every history of commands the saved circuits have a covering pinned path.
\<close>

section \<open>Versions\<close>

definition MIN_VERSION :: "nat \<times> nat \<times> nat" where
  "MIN_VERSION = (0, 3, 15)"

definition parse_kwaai_version :: "string \<Rightarrow> (nat \<times> nat \<times> nat) option" where
  "parse_kwaai_version s0 =
     (let s = unwrap_or (strip_prefix ''kwaai-'' s0) s0;
          parts = splitn_char 3 CHR ''.'' s
      in Option.bind (vec_get parts 0) (\<lambda>p0. Option.bind (parse_uint 32 p0) (\<lambda>maj.
         Option.bind (vec_get parts 1) (\<lambda>p1. Option.bind (parse_uint 32 p1) (\<lambda>mi.
         Option.bind (vec_get parts 2) (\<lambda>p2.
         Option.bind (parse_uint 32 (trim_end_matches (\<lambda>c. \<not> is_ascii_digit c) p2)) (\<lambda>pat.
         Some (maj, mi, pat))))))))"

fun version_ge :: "nat \<times> nat \<times> nat \<Rightarrow> nat \<times> nat \<times> nat \<Rightarrow> bool" where
  "version_ge (a, b, c) (x, y, z) \<longleftrightarrow> x < a \<or> x = a \<and> (y < b \<or> y = b \<and> z \<le> c)"

definition version_meets_minimum :: "string \<Rightarrow> bool" where
  "version_meets_minimum version_str =
     (case parse_kwaai_version version_str of Some v \<Rightarrow> version_ge v MIN_VERSION | None \<Rightarrow> False)"

definition show_version :: "nat \<times> nat \<times> nat \<Rightarrow> string" where
  "show_version = (\<lambda>(a, b, c). ''kwaai-'' @ show_nat a @ ''.'' @ show_nat b @ ''.'' @ show_nat c)"

lemma splitn_digits:
  assumes "list_all is_ascii_digit ds"
  shows "splitn_char (Suc (Suc n)) CHR ''.'' (ds @ CHR ''.'' # rest) = ds # splitn_char (Suc n) CHR ''.'' rest"
proof -
  have "takeWhile (\<lambda>d. d \<noteq> CHR ''.'') (ds @ CHR ''.'' # rest) = ds"
    using assms not_digit(2) by (subst takeWhile_append2) (auto simp: list_all_iff)
  then show ?thesis by (simp add: Let_def)
qed

lemma trim_end_digits:
  assumes "list_all is_ascii_digit ds" "ds \<noteq> []" "list_all (\<lambda>c. \<not> is_ascii_digit c) suffix"
  shows "trim_end_matches (\<lambda>c. \<not> is_ascii_digit c) (ds @ suffix) = ds"
proof -
  have "dropWhile (\<lambda>c. \<not> is_ascii_digit c) (rev suffix @ rev ds) = dropWhile (\<lambda>c. \<not> is_ascii_digit c) (rev ds)"
    using assms(3) by (subst dropWhile_append2) (auto simp: list_all_iff)
  also have "\<dots> = rev ds"
    using assms(1,2) by (cases "rev ds") (auto simp: list_all_iff)
  finally show ?thesis by (simp add: trim_end_matches_def)
qed

lemma parse_show_version:
  assumes "maj < 2 ^ 32" "mi < 2 ^ 32" "pat < 2 ^ 32" "list_all (\<lambda>c. \<not> is_ascii_digit c) suffix"
  shows "parse_kwaai_version (show_version (maj, mi, pat) @ suffix) = Some (maj, mi, pat)"
proof -
  have "splitn_char 3 CHR ''.'' (show_nat maj @ CHR ''.'' # show_nat mi @ CHR ''.'' # show_nat pat @ suffix) =
      [show_nat maj, show_nat mi, show_nat pat @ suffix]"
    by (simp add: numeral_3_eq_3 splitn_digits show_nat_digits del: splitn_char.simps(3))
  then show ?thesis
    using assms by (simp add: parse_kwaai_version_def show_version_def unwrap_or_def vec_get_def
        parse_uint_show trim_end_digits show_nat_digits)
qed

section \<open>Block counts\<close>

definition VALID_BLOCK_COUNTS :: "u64 list" where
  "VALID_BLOCK_COUNTS = [4, 8, 16, 32]"

text \<open>\<open>(v as i64 - n as i64).unsigned_abs()\<close>, with the subtraction wrapping.\<close>

definition block_distance :: "u64 \<Rightarrow> u64 \<Rightarrow> nat" where
  "block_distance v n = nat \<bar>sint (v - n)\<bar>"

definition snap_to_valid_blocks :: "u64 \<Rightarrow> u64" where
  "snap_to_valid_blocks n = unwrap_or (min_by_key (\<lambda>v. block_distance v n) VALID_BLOCK_COUNTS) 4"

lemma block_distance_int:
  assumes "uint n < 2 ^ 63" "uint v < 2 ^ 63"
  shows "block_distance v n = nat \<bar>uint v - uint n\<bar>"
proof -
  have "v - n = word_of_int (uint v - uint n)" by simp
  then have "sint (v - n) = signed_take_bit 63 (uint v - uint n)"
    by (simp only: sint_sbintrunc') simp
  also have "\<dots> = uint v - uint n"
    using assms by (intro signed_take_bit_int_eq_self) (use uint_ge_0 [of v] uint_ge_0 [of n] in linarith)+
  finally show ?thesis by (simp add: block_distance_def)
qed

lemma snap_closed_form:
  assumes "n < 2 ^ 63"
  shows "snap_to_valid_blocks n = (if n \<le> 6 then 4 else if n \<le> 12 then 8 else if n \<le> 24 then 16 else 32)"
proof -
  have n: "uint n < 2 ^ 63" using assms by (simp add: word_less_def)
  have d: "block_distance 4 n = nat \<bar>4 - uint n\<bar>" "block_distance 8 n = nat \<bar>8 - uint n\<bar>"
    "block_distance 16 n = nat \<bar>16 - uint n\<bar>" "block_distance 32 n = nat \<bar>32 - uint n\<bar>"
    using block_distance_int [OF n, of 4] block_distance_int [OF n, of 8]
      block_distance_int [OF n, of 16] block_distance_int [OF n, of 32] by simp_all
  have "n \<le> 6 \<longleftrightarrow> uint n \<le> 6" "n \<le> 12 \<longleftrightarrow> uint n \<le> 12" "n \<le> 24 \<longleftrightarrow> uint n \<le> 24"
    by (simp_all add: word_le_def)
  then show ?thesis
    unfolding snap_to_valid_blocks_def VALID_BLOCK_COUNTS_def
    using uint_ge_0 [of n] by (simp add: d unwrap_or_def) linarith
qed

section \<open>Circuits\<close>

record serializable_entry =
  se_peer_id_b58 :: string
  se_start_block :: nat
  se_end_block :: nat
  se_public_name :: string

record circuit =
  ci_id :: string
  ci_pinned_path :: "serializable_entry list"
  ci_chain :: "serializable_entry list"
  ci_total_blocks :: nat
  ci_ttl_secs :: u64
  ci_created_epoch :: u64
  ci_last_used_epoch :: u64

text \<open>The libraries the commands use: the printed form of a peer id and its parser, the id made
  from a seed, and the JSON text of the circuits file.\<close>

record ('p, 'f) circuit_lib =
  cl_to_base58 :: "'p \<Rightarrow> string"
  cl_parse_peer :: "string \<Rightarrow> 'p option"
  cl_circuit_id :: "string \<Rightarrow> string"
  cl_to_json :: "circuit list \<Rightarrow> 'f"
  cl_from_json :: "'f \<Rightarrow> circuit list option"

definition from_entry :: "('p, 'f) circuit_lib \<Rightarrow> 'p block_server_entry \<Rightarrow> serializable_entry" where
  "from_entry L e = \<lparr>se_peer_id_b58 = cl_to_base58 L (be_peer_id e), se_start_block = be_start_block e,
     se_end_block = be_end_block e, se_public_name = be_public_name e\<rparr>"

definition to_entry :: "('p, 'f) circuit_lib \<Rightarrow> serializable_entry \<Rightarrow> 'p block_server_entry option" where
  "to_entry L s = map_option (\<lambda>peer_id.
     \<lparr>be_peer_id = peer_id, be_start_block = se_start_block s, be_end_block = se_end_block s,
      be_public_name = se_public_name s, be_throughput = Fin 0, be_trust_score = None\<rparr>)
     (cl_parse_peer L (se_peer_id_b58 s))"

definition load_circuits :: "('p, 'f) circuit_lib \<Rightarrow> 'f option \<Rightarrow> circuit list" where
  "load_circuits L file = (case file of None \<Rightarrow> [] | Some text \<Rightarrow> unwrap_or (cl_from_json L text) [])"

definition save_circuits ::
    "('p, 'f) circuit_lib \<Rightarrow> bool \<Rightarrow> circuit list \<Rightarrow> 'f option \<Rightarrow> 'f option \<times> (string + unit)" where
  "save_circuits L ok circuits file =
     (if ok then (Some (cl_to_json L circuits), Inr ()) else (file, Inl ''write circuits file''))"

definition u64_saturating_sub :: "u64 \<Rightarrow> u64 \<Rightarrow> u64" where
  "u64_saturating_sub a b = (if b \<le> a then a - b else 0)"

definition circuit_live :: "u64 \<Rightarrow> circuit \<Rightarrow> bool" where
  "circuit_live now c \<longleftrightarrow> u64_saturating_sub now (ci_last_used_epoch c) < ci_ttl_secs c"

definition prune_circuits :: "u64 \<Rightarrow> circuit list \<Rightarrow> circuit list" where
  "prune_circuits now circuits = filter (circuit_live now) circuits"

definition circuit_matches :: "string \<Rightarrow> circuit \<Rightarrow> bool" where
  "circuit_matches i c \<longleftrightarrow> ci_id c = i \<or> starts_with i (ci_id c)"

definition load_circuit_by_id ::
    "('p, 'f) circuit_lib \<Rightarrow> u64 \<Rightarrow> string \<Rightarrow> 'f option \<Rightarrow> string + circuit" where
  "load_circuit_by_id L now i file =
     (case find (circuit_matches i) (prune_circuits now (load_circuits L file)) of
        Some c \<Rightarrow> Inr c
      | None \<Rightarrow> Inl (''Circuit '' @ i @ '' not found (expired or never created)''))"

text \<open>The discovered chain is an argument. \<open>clk\<close> gives the four readings of the clock.\<close>

definition name_filtered :: "string option \<Rightarrow> 'p block_server_entry list \<Rightarrow> string + 'p block_server_entry list" where
  "name_filtered name_filter chain =
     (case name_filter of
        None \<Rightarrow> Inr chain
      | Some f \<Rightarrow>
          (let filtered = filter (\<lambda>e. str_contains f (be_public_name e)) chain in
           if filtered = [] then Inl (''No block servers matched name filter '' @ f) else Inr filtered))"

definition cmd_circuit_create ::
    "('p, 'f) circuit_lib \<Rightarrow> (nat \<Rightarrow> u64) \<Rightarrow> bool \<Rightarrow> 'p \<Rightarrow> nat \<Rightarrow> u64 \<Rightarrow> string option \<Rightarrow> 'p block_server_entry list
      \<Rightarrow> 'f option \<Rightarrow> 'f option \<times> (string + string)" where
  "cmd_circuit_create L clk ok our_peer_id total_blocks ttl_minutes name_filter discovered file =
     (case name_filtered name_filter discovered of
        Inl e \<Rightarrow> (file, Inl e)
      | Inr chain \<Rightarrow>
          (case build_pinned_path chain total_blocks [] of
             Inl gap \<Rightarrow> (file, Inl (''No server covers block '' @ show_nat gap))
           | Inr pinned_path \<Rightarrow>
               (let seed = show_nat (unat (clk 0)) @ cl_to_base58 L our_peer_id;
                    i = cl_circuit_id L seed;
                    c = \<lparr>ci_id = i, ci_pinned_path = map (from_entry L) pinned_path,
                         ci_chain = map (from_entry L) chain, ci_total_blocks = total_blocks,
                         ci_ttl_secs = ttl_minutes * 60, ci_created_epoch = clk 1, ci_last_used_epoch = clk 2\<rparr>;
                    circuits = prune_circuits (clk 3) (load_circuits L file) @ [c]
                in case save_circuits L ok circuits file of
                     (file', Inl e) \<Rightarrow> (file', Inl e)
                   | (file', Inr _) \<Rightarrow> (file', Inr i))))"

definition cmd_circuit_list ::
    "('p, 'f) circuit_lib \<Rightarrow> u64 \<Rightarrow> bool \<Rightarrow> 'f option \<Rightarrow> 'f option \<times> (string + circuit list)" where
  "cmd_circuit_list L now ok file =
     (let circuits = prune_circuits now (load_circuits L file) in
      case save_circuits L ok circuits file of
        (file', Inl e) \<Rightarrow> (file', Inl e)
      | (file', Inr _) \<Rightarrow> (file', Inr circuits))"

definition cmd_circuit_close ::
    "('p, 'f) circuit_lib \<Rightarrow> bool \<Rightarrow> string \<Rightarrow> 'f option \<Rightarrow> 'f option \<times> (string + nat)" where
  "cmd_circuit_close L ok i file =
     (let all = load_circuits L file;
          circuits = filter (\<lambda>c. ci_id c \<noteq> i \<and> \<not> starts_with i (ci_id c)) all;
          removed = length all - length circuits
      in case save_circuits L ok circuits file of
           (file', Inl e) \<Rightarrow> (file', Inl e)
         | (file', Inr _) \<Rightarrow> (file', Inr removed))"

fun touch_first :: "string \<Rightarrow> u64 \<Rightarrow> circuit list \<Rightarrow> circuit list" where
  "touch_first i now [] = []"
| "touch_first i now (c # cs) =
     (if ci_id c = i then c\<lparr>ci_last_used_epoch := now\<rparr> # cs else c # touch_first i now cs)"

text \<open>Resolving the \<open>--circuit\<close> argument of \<open>shard run\<close>: the circuit is looked up with the first
  reading, its last use set with the second, and the entries of its chain that parse are used.
  A failure to write the file is ignored.\<close>

definition use_circuit ::
    "('p, 'f) circuit_lib \<Rightarrow> (nat \<Rightarrow> u64) \<Rightarrow> bool \<Rightarrow> string \<Rightarrow> 'f option
      \<Rightarrow> 'f option \<times> (string + 'p block_server_entry list)" where
  "use_circuit L clk ok circuit_id file =
     (case load_circuit_by_id L (clk 0) circuit_id file of
        Inl e \<Rightarrow> (file, Inl e)
      | Inr c \<Rightarrow>
          (let all = touch_first (ci_id c) (clk 1) (load_circuits L file);
               file' = fst (save_circuits L ok all file)
           in (file', Inr (List.map_filter (to_entry L) (ci_chain c)))))"

section \<open>Reusing a circuit\<close>

text \<open>Documented behaviour of the libraries: a printed peer id parses back to the peer id, and a
  written JSON text reads back as the same list.\<close>

definition circuit_lib_ok :: "('p, 'f) circuit_lib \<Rightarrow> bool" where
  "circuit_lib_ok L \<longleftrightarrow> (\<forall>p. cl_parse_peer L (cl_to_base58 L p) = Some p) \<and>
     (\<forall>cs. cl_from_json L (cl_to_json L cs) = Some cs)"

definition plain_entry :: "'p block_server_entry \<Rightarrow> 'p block_server_entry" where
  "plain_entry e = e\<lparr>be_throughput := Fin 0, be_trust_score := None\<rparr>"

lemma plain_entry_simps [simp]:
  "be_peer_id (plain_entry e) = be_peer_id e" "be_start_block (plain_entry e) = be_start_block e"
  "be_end_block (plain_entry e) = be_end_block e" "covers (plain_entry e) = covers e"
  "from_entry L (plain_entry e) = from_entry L e"
  by (auto simp: plain_entry_def from_entry_def covers_def fun_eq_iff)

lemma to_from_entry: "circuit_lib_ok L \<Longrightarrow> to_entry L (from_entry L e) = Some (plain_entry e)"
  by (cases e) (simp add: circuit_lib_ok_def to_entry_def from_entry_def plain_entry_def)

lemma to_entries:
  "circuit_lib_ok L \<Longrightarrow> List.map_filter (to_entry L) (map (from_entry L) es) = map plain_entry es"
  by (induction es) (simp_all add: to_from_entry)

lemma load_saved: "circuit_lib_ok L \<Longrightarrow> load_circuits L (Some (cl_to_json L cs)) = cs"
  by (simp add: circuit_lib_ok_def load_circuits_def unwrap_or_def)

lemma max_by_key_map: "max_by_key k (map f xs) = map_option f (max_by_key (\<lambda>x. k (f x)) xs)"
  by (induction xs) (auto split: option.splits)

lemma build_pinned_plain:
  "build_pinned_from (map plain_entry chain) N [] pos = map_sum id (map plain_entry) (build_pinned_from chain N [] pos)"
proof (induction chain N "[] :: 'a list" pos rule: build_pinned_from.induct)
  case (1 chain N pos)
  have sel: "max_by_key be_end_block (filter (\<lambda>e. covers e pos) (map plain_entry chain)) =
      map_option plain_entry (max_by_key be_end_block (filter (\<lambda>e. covers e pos) chain))"
    by (simp add: filter_map comp_def max_by_key_map)
  show ?case
  proof (cases "pos < N")
    case True
    show ?thesis
    proof (cases "max_by_key be_end_block (filter (\<lambda>e. covers e pos) chain)")
      case None
      then show ?thesis by (simp add: build_pinned_step [OF True] sel)
    next
      case (Some e)
      then have "build_pinned_from (map plain_entry chain) N [] (be_end_block e) =
          map_sum id (map plain_entry) (build_pinned_from chain N [] (be_end_block e))"
        using "1" [OF True] by simp
      then show ?thesis
        by (cases "build_pinned_from chain N [] (be_end_block e)") (simp_all add: build_pinned_step [OF True] sel Some)
    qed
  qed (simp add: build_pinned_done)
qed

text \<open>What every saved circuit satisfies: its pinned path is the one of its chain.\<close>

definition circuit_ok :: "('p, 'f) circuit_lib \<Rightarrow> circuit \<Rightarrow> bool" where
  "circuit_ok L c \<longleftrightarrow> (\<exists>chain path. ci_chain c = map (from_entry L) chain \<and>
     ci_pinned_path c = map (from_entry L) path \<and> build_pinned_path chain (ci_total_blocks c) [] = Inr path)"

inductive circuits_reachable :: "('p, 'f) circuit_lib \<Rightarrow> 'f option \<Rightarrow> bool" for L :: "('p, 'f) circuit_lib" where
  fresh: "circuits_reachable L None"
| create: "circuits_reachable L file \<Longrightarrow>
    circuits_reachable L (fst (cmd_circuit_create L clk ok our N ttl name_filter discovered file))"
| list: "circuits_reachable L file \<Longrightarrow> circuits_reachable L (fst (cmd_circuit_list L now ok file))"
| close: "circuits_reachable L file \<Longrightarrow> circuits_reachable L (fst (cmd_circuit_close L ok i file))"
| used: "circuits_reachable L file \<Longrightarrow> circuits_reachable L (fst (use_circuit L clk ok i file))"

lemma save_circuits_load:
  "circuit_lib_ok L \<Longrightarrow> load_circuits L (fst (save_circuits L ok cs file)) = (if ok then cs else load_circuits L file)"
  by (simp add: save_circuits_def load_saved)

lemma touch_first_ok: "\<forall>c \<in> set cs. circuit_ok L c \<Longrightarrow> \<forall>c \<in> set (touch_first i now cs). circuit_ok L c"
  by (induction cs) (auto simp: circuit_ok_def)

lemma create_file:
  "fst (cmd_circuit_create L clk ok our N ttl nf discovered file) =
     (case name_filtered nf discovered of Inl _ \<Rightarrow> file | Inr chain \<Rightarrow>
       (case build_pinned_path chain N [] of Inl _ \<Rightarrow> file | Inr path \<Rightarrow>
         fst (save_circuits L ok (prune_circuits (clk 3) (load_circuits L file) @
           [\<lparr>ci_id = cl_circuit_id L (show_nat (unat (clk 0)) @ cl_to_base58 L our),
             ci_pinned_path = map (from_entry L) path, ci_chain = map (from_entry L) chain, ci_total_blocks = N,
             ci_ttl_secs = ttl * 60, ci_created_epoch = clk 1, ci_last_used_epoch = clk 2\<rparr>]) file)))"
  by (simp add: cmd_circuit_create_def Let_def split: sum.splits prod.splits)

lemma circuits_reachable_ok:
  assumes "circuit_lib_ok L" "circuits_reachable L file"
  shows "\<forall>c \<in> set (load_circuits L file). circuit_ok L c"
  using assms(2)
proof induction
  case fresh
  show ?case by (simp add: load_circuits_def)
next
  case (create fl clk ok our N ttl nf discovered)
  show ?case
  proof (cases "name_filtered nf discovered")
    case (Inr chain)
    show ?thesis
    proof (cases "build_pinned_path chain N []")
      case (Inr path)
      then have "circuit_ok L (circuit.make i (map (from_entry L) path) (map (from_entry L) chain) N t c u)" for i t c u
        unfolding circuit_ok_def by (simp add: circuit.make_def) blast
      with create.IH show ?thesis
        by (simp add: create_file save_circuits_load [OF assms(1)] prune_circuits_def Inr \<open>name_filtered nf discovered = Inr chain\<close>
            circuit.make_def)
    qed (use create.IH in \<open>simp add: create_file Inr\<close>)
  qed (use create.IH in \<open>simp add: create_file\<close>)
next
  case (list fl now ok)
  have "fst (cmd_circuit_list L now ok fl) = fst (save_circuits L ok (prune_circuits now (load_circuits L fl)) fl)"
    by (simp add: cmd_circuit_list_def Let_def split: sum.splits prod.splits)
  with list.IH show ?case by (auto simp: save_circuits_load [OF assms(1)] prune_circuits_def)
next
  case (close fl ok i)
  have "fst (cmd_circuit_close L ok i fl) = fst (save_circuits L ok
      (filter (\<lambda>c. ci_id c \<noteq> i \<and> \<not> starts_with i (ci_id c)) (load_circuits L fl)) fl)"
    by (simp add: cmd_circuit_close_def Let_def split: sum.splits prod.splits)
  with close.IH show ?case by (auto simp: save_circuits_load [OF assms(1)])
next
  case (used fl clk ok i)
  show ?case
  proof (cases "load_circuit_by_id L (clk 0) i fl")
    case (Inr c)
    with touch_first_ok [OF used.IH] used.IH show ?thesis
      by (simp add: use_circuit_def Let_def save_circuits_load [OF assms(1)])
  qed (use used.IH in \<open>simp add: use_circuit_def\<close>)
qed

text \<open>
  C12: A reused circuit is the circuit that was made. In every file that the circuit commands
  can produce, the entries that \<open>shard run --circuit\<close> takes from the file belong to a live
  circuit with the wanted id (or prefix), and the pinned path computed from them is the saved
  one: same peers, ranges and order, from block 0 to the last block.
\<close>

theorem circuit_reuse:
  assumes "circuit_lib_ok L" "circuits_reachable L file" "use_circuit L clk ok i file = (file', Inr entries)"
  shows "\<exists>c path. c \<in> set (load_circuits L file) \<and> circuit_live (clk 0) c \<and> circuit_matches i c \<and>
    build_pinned_path entries (ci_total_blocks c) [] = Inr path \<and> map (from_entry L) path = ci_pinned_path c \<and>
    path_from (ci_total_blocks c) (set entries) 0 path"
proof -
  obtain c where c: "find (circuit_matches i) (prune_circuits (clk 0) (load_circuits L file)) = Some c"
    and en: "entries = List.map_filter (to_entry L) (ci_chain c)"
    using assms(3) by (auto simp: use_circuit_def load_circuit_by_id_def Let_def split: option.splits sum.splits)
  from c have mem: "c \<in> set (load_circuits L file)" "circuit_live (clk 0) c" "circuit_matches i c"
    by (auto simp: find_Some_iff prune_circuits_def dest: nth_mem)
  with circuits_reachable_ok [OF assms(1,2)] obtain chain path where
    p: "ci_chain c = map (from_entry L) chain" "ci_pinned_path c = map (from_entry L) path"
      "build_pinned_path chain (ci_total_blocks c) [] = Inr path"
    unfolding circuit_ok_def by blast
  have "entries = map plain_entry chain" using en p(1) by (simp add: to_entries [OF assms(1)])
  with p(3) have b: "build_pinned_path entries (ci_total_blocks c) [] = Inr (map plain_entry path)"
    by (simp add: build_pinned_path_def build_pinned_plain)
  moreover have "path_from (ci_total_blocks c) (set entries) 0 (map plain_entry path)"
    using build_pinned_from_Inr [OF b [unfolded build_pinned_path_def]] by (simp add: usable_servers_def)
  ultimately show ?thesis using mem p(2) by (intro exI [of _ c] exI [of _ "map plain_entry path"]) simp
qed

lemma find_append: "find P (xs @ ys) = (case find P xs of Some x \<Rightarrow> Some x | None \<Rightarrow> find P ys)"
  by (induction xs) auto

lemma touch_first_skip: "\<forall>c \<in> set cs. ci_id c \<noteq> i \<Longrightarrow> touch_first i now (cs @ ds) = cs @ touch_first i now ds"
  by (induction cs) auto

text \<open>Looking up a circuit that no circuit before it matches.\<close>

lemma load_last_circuit:
  assumes "circuit_lib_ok L" "\<forall>c \<in> set cs. \<not> circuit_matches i c" "ci_id c = i"
  shows "load_circuit_by_id L now i (Some (cl_to_json L (cs @ [c]))) =
    (if circuit_live now c then Inr c else Inl (''Circuit '' @ i @ '' not found (expired or never created)''))"
proof -
  have "find (circuit_matches i) (filter (circuit_live now) cs) = None"
    using assms(2) by (simp add: find_None_iff)
  then show ?thesis
    using assms(3) by (simp add: load_circuit_by_id_def load_saved [OF assms(1)] prune_circuits_def find_append circuit_matches_def)
qed

text \<open>
  C19: The life of a circuit. After \<open>circuit create\<close> returns id \<open>i\<close>, and as long as no other
  circuit matches it, looking up \<open>i\<close> succeeds exactly until the time to live has passed since
  the circuit was made. Using it in that time gives the servers of its chain, and from then on
  the time to live counts from that use.
\<close>

theorem circuit_lifetime:
  assumes "circuit_lib_ok L"
    and "cmd_circuit_create L clk True our N ttl nf discovered file = (file', Inr i)"
    and "\<forall>c \<in> set (load_circuits L file). \<not> circuit_matches i c"
    and "name_filtered nf discovered = Inr chain"
  shows "isl (load_circuit_by_id L now i file') = (ttl * 60 \<le> u64_saturating_sub now (clk 2)) \<and>
    (if u64_saturating_sub (clk' 0) (clk 2) < ttl * 60
     then \<exists>file''. use_circuit L clk' True i file' = (file'', Inr (map plain_entry chain)) \<and>
            isl (load_circuit_by_id L now i file'') = (ttl * 60 \<le> u64_saturating_sub now (clk' 1))
     else isl (snd (use_circuit L clk' True i file')))"
proof -
  from assms(2,4) obtain path where path: "build_pinned_path chain N [] = Inr path"
    and i: "i = cl_circuit_id L (show_nat (unat (clk 0)) @ cl_to_base58 L our)"
    by (auto simp: cmd_circuit_create_def save_circuits_def Let_def split: sum.splits)
  define c where "c u = \<lparr>ci_id = i, ci_pinned_path = map (from_entry L) path, ci_chain = map (from_entry L) chain,
    ci_total_blocks = N, ci_ttl_secs = ttl * 60, ci_created_epoch = clk 1, ci_last_used_epoch = u\<rparr>" for u
  define cs where "cs = prune_circuits (clk 3) (load_circuits L file)"
  have file': "file' = Some (cl_to_json L (cs @ [c (clk 2)]))"
    using assms(2,4) path i by (simp add: cmd_circuit_create_def save_circuits_def Let_def c_def cs_def)
  have no: "\<forall>c \<in> set cs. \<not> circuit_matches i c" using assms(3) by (simp add: cs_def prune_circuits_def)
  then have ids: "\<forall>c \<in> set cs. ci_id c \<noteq> i" by (auto simp: circuit_matches_def)
  have live: "circuit_live t (c u) \<longleftrightarrow> u64_saturating_sub t u < ttl * 60" for t u
    by (simp add: circuit_live_def c_def)
  have ld: "load_circuit_by_id L t i (Some (cl_to_json L (cs @ [c u]))) =
      (if u64_saturating_sub t u < ttl * 60 then Inr (c u)
       else Inl (''Circuit '' @ i @ '' not found (expired or never created)''))" for t u
    using load_last_circuit [OF assms(1) no, of "c u" t] by (simp only: live) (simp add: c_def)
  have touch: "touch_first i u (cs @ [c (clk 2)]) = cs @ [c u]" for u
    by (simp add: touch_first_skip [OF ids]) (simp add: c_def)
  have "use_circuit L clk' True i file' = (Some (cl_to_json L (cs @ [c (clk' 1)])), Inr (map plain_entry chain))"
    if "u64_saturating_sub (clk' 0) (clk 2) < ttl * 60"
  proof -
    have "ci_id (c (clk 2)) = i" "ci_chain (c (clk 2)) = map (from_entry L) chain" by (simp_all add: c_def)
    with that show ?thesis
      by (simp add: use_circuit_def file' ld load_saved [OF assms(1)] touch save_circuits_def to_entries [OF assms(1)])
  qed
  moreover have "isl (snd (use_circuit L clk' True i file'))" if "\<not> u64_saturating_sub (clk' 0) (clk 2) < ttl * 60"
    using that by (simp add: use_circuit_def file' ld)
  ultimately show ?thesis by (auto simp: file' ld)
qed

text \<open>
  The version gate. A printed version, with any suffix without digits such as
  \<open>-rc\<close>, passes the gate exactly when it is at least 0.3.15 in lexicographic order.
\<close>

theorem version_gate:
  assumes "maj < 2 ^ 32" "mi < 2 ^ 32" "pat < 2 ^ 32" "list_all (\<lambda>c. \<not> is_ascii_digit c) suffix"
  shows "version_meets_minimum (show_version (maj, mi, pat) @ suffix) =
    (0 < maj \<or> 3 < mi \<or> mi = 3 \<and> 15 \<le> pat)"
  unfolding version_meets_minimum_def parse_show_version [OF assms] by (auto simp: MIN_VERSION_def)

text \<open>
  A requested block count snaps to the nearest of 4, 8, 16 and 32, the smaller one when two
  are equally near, for every count below \<open>2 ^ 63\<close>.
\<close>

theorem snap_nearest:
  assumes "n < 2 ^ 63"
  shows "snap_to_valid_blocks n \<in> set VALID_BLOCK_COUNTS \<and>
    (\<forall>v \<in> set VALID_BLOCK_COUNTS.
       \<bar>uint (snap_to_valid_blocks n) - uint n\<bar> \<le> \<bar>uint v - uint n\<bar> \<and>
       (\<bar>uint (snap_to_valid_blocks n) - uint n\<bar> < \<bar>uint v - uint n\<bar> \<or> snap_to_valid_blocks n \<le> v))"
proof -
  have "n \<le> 6 \<longleftrightarrow> uint n \<le> 6" "n \<le> 12 \<longleftrightarrow> uint n \<le> 12" "n \<le> 24 \<longleftrightarrow> uint n \<le> 24"
    by (simp_all add: word_le_def)
  then show ?thesis
    unfolding snap_closed_form [OF assms] VALID_BLOCK_COUNTS_def
    using uint_ge_0 [of n] by (simp split: if_splits) linarith
qed

section \<open>Instances\<close>

definition demo_lib :: "(nat, circuit list) circuit_lib" where
  "demo_lib = \<lparr>cl_to_base58 = (\<lambda>p. replicate p CHR ''a''), cl_parse_peer = (\<lambda>s. Some (length s)),
     cl_circuit_id = (\<lambda>_. ''c0ffee''), cl_to_json = (\<lambda>cs. cs), cl_from_json = Some\<rparr>"

definition demo_clock :: "nat \<Rightarrow> u64" where
  "demo_clock _ = 5"

lemma demo_lib_ok: "circuit_lib_ok demo_lib"
  by (simp add: circuit_lib_ok_def demo_lib_def)

lemma demo_pinned: "build_pinned_path [demo_entry 9 0 2] 2 [] = Inr [demo_entry 9 0 2]"
  by (simp add: build_pinned_path_def build_pinned_step build_pinned_done covers_def demo_entry_def)

definition demo_circuit :: circuit where
  "demo_circuit = \<lparr>ci_id = ''c0ffee'', ci_pinned_path = [from_entry demo_lib (demo_entry 9 0 2)],
     ci_chain = [from_entry demo_lib (demo_entry 9 0 2)], ci_total_blocks = 2, ci_ttl_secs = 60,
     ci_created_epoch = 5, ci_last_used_epoch = 5\<rparr>"

lemma demo_create:
  "cmd_circuit_create demo_lib demo_clock True 1 2 1 None [demo_entry 9 0 2] None = (Some [demo_circuit], Inr ''c0ffee'')"
  by (simp add: cmd_circuit_create_def name_filtered_def demo_pinned load_circuits_def prune_circuits_def
      save_circuits_def Let_def demo_circuit_def demo_clock_def) (simp add: demo_lib_def)

lemma demo_use:
  "use_circuit demo_lib demo_clock True ''c0'' (Some [demo_circuit]) = (Some [demo_circuit], Inr [demo_entry 9 0 2])"
proof -
  have "load_circuits demo_lib (Some [demo_circuit]) = [demo_circuit]"
    by (simp add: load_circuits_def demo_lib_def unwrap_or_def)
  moreover have "circuit_live 5 demo_circuit" "circuit_matches ''c0'' demo_circuit"
    by (simp_all add: circuit_live_def u64_saturating_sub_def circuit_matches_def starts_with_def demo_circuit_def)
  ultimately show ?thesis
    by (simp add: use_circuit_def load_circuit_by_id_def prune_circuits_def demo_clock_def save_circuits_def)
      (simp add: demo_circuit_def demo_lib_def to_entry_def from_entry_def demo_entry_def)
qed

theorem circuit_reuse_witness:
  "\<exists>c path. c \<in> set (load_circuits demo_lib (Some [demo_circuit])) \<and>
    build_pinned_path [demo_entry 9 0 2] (ci_total_blocks c) [] = Inr path \<and> map (from_entry demo_lib) path = ci_pinned_path c"
proof -
  have "circuits_reachable demo_lib (Some [demo_circuit])"
    using circuits_reachable.create [OF circuits_reachable.fresh, of demo_lib demo_clock True 1 2 1 None "[demo_entry 9 0 2]"]
    by (simp only: demo_create fst_conv)
  from circuit_reuse [OF demo_lib_ok this demo_use] show ?thesis by blast
qed

theorem circuit_lifetime_witness:
  "isl (load_circuit_by_id demo_lib 65 ''c0ffee'' (Some [demo_circuit])) = True \<and>
   isl (load_circuit_by_id demo_lib 64 ''c0ffee'' (Some [demo_circuit])) = False"
proof -
  have no: "\<forall>c \<in> set (load_circuits demo_lib None). \<not> circuit_matches ''c0ffee'' c" by (simp add: load_circuits_def)
  have nf: "name_filtered None [demo_entry 9 0 2] = Inr [demo_entry 9 0 2]" by (simp add: name_filtered_def)
  show ?thesis
    using conjunct1 [OF circuit_lifetime [OF demo_lib_ok demo_create no nf, of 65 demo_clock]]
      conjunct1 [OF circuit_lifetime [OF demo_lib_ok demo_create no nf, of 64 demo_clock]]
    by (simp add: demo_clock_def u64_saturating_sub_def)
qed

theorem version_gate_witness:
  "version_meets_minimum (show_version (0, 3, 15) @ ''-rc'') \<and> \<not> version_meets_minimum (show_version (0, 3, 14) @ ''-rc'')"
  using version_gate [of 0 3 15 "''-rc''"] version_gate [of 0 3 14 "''-rc''"] by (simp add: is_ascii_digit_def)

theorem snap_nearest_witness: "snap_to_valid_blocks 12 \<in> set VALID_BLOCK_COUNTS"
  using snap_nearest [of 12] by simp

end
