(* ===== verification/Block_Rpc.thy ===== *)
theory Block_Rpc
  imports Rust_Order
begin

text \<open>
  One block server: the transformer shard with its per-session key-value caches
  (\<open>kwaai-inference/src/shard.rs\<close>) and the request handler and client call of the inference
  protocol (\<open>kwaai-cli/src/block_rpc.rs\<close>).

  The tensor library and the weights are the record \<open>tensor_ops\<close>: the forward function of
  block \<open>i\<close> of the model (its output and the block's new cache), the embedding, the final
  norm with the output head, the dimensions of a tensor, its elements in half precision as bit
  patterns, and a tensor made of such elements. A clock
  reading is an argument. MessagePack is a record of encoders and decoders. The error of an operation is its
  outermost text, which is all that an answer carries.

  Lemmas: a shard's run is the composition of its blocks, and the runs of two adjacent
  shards compose to the run of the shard of both ranges.
\<close>

section \<open>Tensors and messages\<close>

record ('t, 'kv) tensor_ops =
  tp_embed :: "u32 list \<Rightarrow> string + 't"
  tp_block :: "nat \<Rightarrow> 't \<Rightarrow> nat \<Rightarrow> 'kv option \<Rightarrow> 'kv option \<times> (string + 't)"
  tp_head :: "'t \<Rightarrow> string + 't"
  tp_dims :: "'t \<Rightarrow> nat list"
  tp_f16 :: "'t \<Rightarrow> string + u16 list"
  tp_from_vec :: "u16 list \<Rightarrow> nat list \<Rightarrow> string + 't"

datatype payload_type = TokenIds | HiddenStates

datatype response_type = ResponseHidden | Logits

record inference_request =
  iq_session_id :: u64
  iq_seq_pos :: u32
  iq_payload_type :: payload_type
  iq_shape :: "u32 list"
  iq_data :: bytes

record inference_response =
  ir_session_id :: u64
  ir_response_type :: response_type
  ir_shape :: "u32 list"
  ir_data :: bytes
  ir_error :: "string option"

definition token_ids_to_bytes :: "u32 list \<Rightarrow> u32 list \<times> bytes" where
  "token_ids_to_bytes ids = ([word_of_nat (length ids)], concat (map u32_to_le_bytes ids))"

definition bytes_to_token_ids :: "bytes \<Rightarrow> string + u32 list" where
  "bytes_to_token_ids bs =
     (if length bs mod 4 \<noteq> 0 then Inl (''token_id byte buffer length '' @ show_nat (length bs) @ '' is not a multiple of 4'')
      else Inr (map u32_from_le_bytes (chunks4 bs)))"

definition tensor_to_f16_bytes :: "('t, 'kv) tensor_ops \<Rightarrow> 't \<Rightarrow> string + (u32 list \<times> bytes)" where
  "tensor_to_f16_bytes M tensor =
     (case tp_f16 M tensor of
        Inl e \<Rightarrow> Inl e
      | Inr f16_vec \<Rightarrow> Inr (map word_of_nat (tp_dims M tensor), concat (map u16_to_le_bytes f16_vec)))"

definition f16_bytes_to_tensor :: "('t, 'kv) tensor_ops \<Rightarrow> bytes \<Rightarrow> u32 list \<Rightarrow> string + 't" where
  "f16_bytes_to_tensor M bs shape =
     (if length bs mod 2 \<noteq> 0 then Inl (''f16 byte buffer length '' @ show_nat (length bs) @ '' is not a multiple of 2'')
      else tp_from_vec M (map u16_from_le_bytes (chunks2 bs)) (map unat shape))"

section \<open>The shard\<close>

record 'kv kv_session =
  ks_kv :: "'kv option list"
  ks_last_access :: nat

record 'kv transformer_shard =
  ts_start_block :: nat
  ts_end_block :: nat
  ts_total_blocks :: nat
  ts_sessions :: "(u64, 'kv kv_session) hashmap"

definition session_new :: "nat \<Rightarrow> nat \<Rightarrow> 'kv kv_session" where
  "session_new now num_blocks = \<lparr>ks_kv = replicate num_blocks None, ks_last_access = now\<rparr>"

definition num_blocks :: "'kv transformer_shard \<Rightarrow> nat" where
  "num_blocks sh = ts_end_block sh - ts_start_block sh"

definition is_first :: "'kv transformer_shard \<Rightarrow> bool" where
  "is_first sh \<longleftrightarrow> ts_start_block sh = 0"

definition is_last :: "'kv transformer_shard \<Rightarrow> bool" where
  "is_last sh \<longleftrightarrow> ts_end_block sh = ts_total_blocks sh"

definition open_session :: "nat \<Rightarrow> u64 \<Rightarrow> 'kv transformer_shard \<Rightarrow> 'kv transformer_shard" where
  "open_session now sid sh =
     sh\<lparr>ts_sessions := hm_insert sid (session_new now (num_blocks sh)) (ts_sessions sh)\<rparr>"

definition close_session :: "u64 \<Rightarrow> 'kv transformer_shard \<Rightarrow> 'kv transformer_shard" where
  "close_session sid sh = sh\<lparr>ts_sessions := hm_remove sid (ts_sessions sh)\<rparr>"

text \<open>Instants are nanoseconds; \<open>elapsed().as_secs()\<close> rounds down.\<close>

definition gc_sessions :: "nat \<Rightarrow> 'kv transformer_shard \<Rightarrow> 'kv transformer_shard" where
  "gc_sessions now sh =
     sh\<lparr>ts_sessions := hm_retain (\<lambda>_ s. (now - ks_last_access s) div 10 ^ 9 < 600) (ts_sessions sh)\<rparr>"

text \<open>The loop over the blocks from block \<open>g\<close> of the model on, one cache slot per block. A
  failing block stops the loop.\<close>

fun run_loop ::
    "('t, 'kv) tensor_ops \<Rightarrow> nat \<Rightarrow> nat \<Rightarrow> 't \<Rightarrow> 'kv option list \<Rightarrow> 'kv option list \<times> (string + 't)" where
  "run_loop M g seq_pos x [] = ([], Inr x)"
| "run_loop M g seq_pos x (c # cs) =
     (case tp_block M g x seq_pos c of
        (c', Inl e) \<Rightarrow> (c' # cs, Inl e)
      | (c', Inr y) \<Rightarrow> (let (cs', r) = run_loop M (Suc g) seq_pos y cs in (c' # cs', r)))"

definition run_blocks ::
    "('t, 'kv) tensor_ops \<Rightarrow> nat \<Rightarrow> 't \<Rightarrow> nat \<Rightarrow> u64 \<Rightarrow> 'kv transformer_shard
      \<Rightarrow> 'kv transformer_shard \<times> (string + 't)" where
  "run_blocks M now x seq_pos sid sh =
     (let session = unwrap_or (hm_get (ts_sessions sh) sid) (session_new now (num_blocks sh));
          (kv', r) = run_loop M (ts_start_block sh) seq_pos x (ks_kv session)
      in (sh\<lparr>ts_sessions := hm_insert sid \<lparr>ks_kv = kv', ks_last_access = now\<rparr> (ts_sessions sh)\<rparr>, r))"

text \<open>The embedding is present exactly in a shard that starts at block 0, the norm and head
  exactly in one that ends at the last block.\<close>

definition forward_first ::
    "('t, 'kv) tensor_ops \<Rightarrow> nat \<Rightarrow> u64 \<Rightarrow> u32 list \<Rightarrow> nat \<Rightarrow> 'kv transformer_shard
      \<Rightarrow> 'kv transformer_shard \<times> (string + 't)" where
  "forward_first M now sid token_ids seq_pos sh =
     (if \<not> is_first sh then (sh, Inl ''Inference failed: forward_first() called on a shard that does not hold the embedding (start_block != 0)'')
      else case tp_embed M token_ids of
        Inl e \<Rightarrow> (sh, Inl e)
      | Inr hidden \<Rightarrow> run_blocks M now hidden seq_pos sid sh)"

definition forward_middle ::
    "('t, 'kv) tensor_ops \<Rightarrow> nat \<Rightarrow> u64 \<Rightarrow> 't \<Rightarrow> nat \<Rightarrow> 'kv transformer_shard
      \<Rightarrow> 'kv transformer_shard \<times> (string + 't)" where
  "forward_middle M now sid hidden seq_pos sh = run_blocks M now hidden seq_pos sid sh"

definition forward_last ::
    "('t, 'kv) tensor_ops \<Rightarrow> nat \<Rightarrow> u64 \<Rightarrow> 't \<Rightarrow> nat \<Rightarrow> 'kv transformer_shard
      \<Rightarrow> 'kv transformer_shard \<times> (string + 't)" where
  "forward_last M now sid hidden seq_pos sh =
     (if \<not> is_last sh then (sh, Inl ''Inference failed: forward_last() called on a shard that is not the last node'')
      else case run_blocks M now hidden seq_pos sid sh of
        (sh', Inl e) \<Rightarrow> (sh', Inl e)
      | (sh', Inr x) \<Rightarrow> (sh', tp_head M x))"

definition forward_full ::
    "('t, 'kv) tensor_ops \<Rightarrow> nat \<Rightarrow> u64 \<Rightarrow> u32 list \<Rightarrow> nat \<Rightarrow> 'kv transformer_shard
      \<Rightarrow> 'kv transformer_shard \<times> (string + 't)" where
  "forward_full M now sid token_ids seq_pos sh =
     (if \<not> is_first sh then (sh, Inl ''Inference failed: forward_full() called on a shard without embedding'')
      else if \<not> is_last sh then (sh, Inl ''Inference failed: forward_full() called on a shard without final norm'')
      else case tp_embed M token_ids of
        Inl e \<Rightarrow> (sh, Inl e)
      | Inr hidden \<Rightarrow>
          (case run_blocks M now hidden seq_pos sid sh of
             (sh', Inl e) \<Rightarrow> (sh', Inl e)
           | (sh', Inr x) \<Rightarrow> (sh', tp_head M x)))"

section \<open>The request handler\<close>

record rpc_codec =
  rc_enc_req :: "inference_request \<Rightarrow> string + bytes"
  rc_dec_req :: "bytes \<Rightarrow> string + inference_request"
  rc_enc_res :: "inference_response \<Rightarrow> string + bytes"
  rc_dec_res :: "bytes \<Rightarrow> string + inference_response"

definition serve_payload ::
    "('t, 'kv) tensor_ops \<Rightarrow> nat \<Rightarrow> inference_request \<Rightarrow> 'kv transformer_shard
      \<Rightarrow> 'kv transformer_shard \<times> (string + 't)" where
  "serve_payload M now req sh =
     (let sid = iq_session_id req; seq_pos = unat (iq_seq_pos req) in
      case iq_payload_type req of
        TokenIds \<Rightarrow>
          (if \<not> is_first sh then (sh, Inl (''Received TokenIds payload but this shard starts at block '' @ show_nat (ts_start_block sh) @ '' (not 0)''))
           else case bytes_to_token_ids (iq_data req) of
             Inl e \<Rightarrow> (sh, Inl ''decode token IDs'')
           | Inr token_ids \<Rightarrow>
               (if is_last sh then forward_full M now sid token_ids seq_pos sh
                else forward_first M now sid token_ids seq_pos sh))
      | HiddenStates \<Rightarrow>
          (case f16_bytes_to_tensor M (iq_data req) (iq_shape req) of
             Inl e \<Rightarrow> (sh, Inl ''decode hidden states'')
           | Inr hidden \<Rightarrow>
               (if is_last sh then forward_last M now sid hidden seq_pos sh
                else forward_middle M now sid hidden seq_pos sh)))"

definition handle_inference_request ::
    "rpc_codec \<Rightarrow> ('t, 'kv) tensor_ops \<Rightarrow> nat \<Rightarrow> bytes \<Rightarrow> 'kv transformer_shard
      \<Rightarrow> 'kv transformer_shard \<times> (string + inference_response)" where
  "handle_inference_request C M now raw sh =
     (case rc_dec_req C raw of
        Inl e \<Rightarrow> (sh, Inl ''deserialise InferenceRequest'')
      | Inr req \<Rightarrow>
          (case serve_payload M now req sh of
             (sh', Inl e) \<Rightarrow> (sh', Inl e)
           | (sh', Inr output) \<Rightarrow>
               (case tensor_to_f16_bytes M output of
                  Inl e \<Rightarrow> (sh', Inl ''serialise output tensor'')
                | Inr (shape, data) \<Rightarrow>
                    (sh', Inr \<lparr>ir_session_id = iq_session_id req,
                               ir_response_type = (if is_last sh then Logits else ResponseHidden),
                               ir_shape = shape, ir_data = data, ir_error = None\<rparr>))))"

definition error_response :: "string \<Rightarrow> inference_response" where
  "error_response e = \<lparr>ir_session_id = 0, ir_response_type = ResponseHidden, ir_shape = [], ir_data = [],
     ir_error = Some e\<rparr>"

text \<open>The text has a dash, which is three bytes of UTF-8.\<close>

definition warming_up :: string where
  "warming_up = ''node warming up '' @ [CHR 0xE2, CHR 0x80, CHR 0x94] @ '' model loading in background''"

text \<open>\<open>cell\<close> is empty while the model is loading. The outer sum is the daemon's error.\<close>

definition block_rpc_handler ::
    "rpc_codec \<Rightarrow> ('t, 'kv) tensor_ops \<Rightarrow> nat \<Rightarrow> bytes \<Rightarrow> 'kv transformer_shard option
      \<Rightarrow> 'kv transformer_shard option \<times> (string + bytes)" where
  "block_rpc_handler C M now data cell =
     (case cell of
        None \<Rightarrow> (None, rc_enc_res C (error_response warming_up))
      | Some sh \<Rightarrow>
          (case handle_inference_request C M now data sh of
             (sh', Inr resp) \<Rightarrow> (Some sh', rc_enc_res C resp)
           | (sh', Inl e) \<Rightarrow> (Some sh', rc_enc_res C (error_response e))))"

section \<open>The client call\<close>

definition call_transient :: "string \<Rightarrow> bool" where
  "call_transient e \<longleftrightarrow> str_contains ''stream reset'' e \<or> str_contains ''early eof'' e \<or>
     str_contains ''connection closed'' e \<or> str_contains ''Response channel closed'' e"

text \<open>The attempts of \<open>call_block_forward\<close>, with \<open>n\<close> retries left. \<open>rpc\<close> is the daemon's unary
  call to the peer, which changes the world \<open>w\<close>.\<close>

fun call_attempts ::
    "rpc_codec \<Rightarrow> (bytes \<Rightarrow> 'w \<Rightarrow> 'w \<times> (string + bytes)) \<Rightarrow> bytes \<Rightarrow> nat \<Rightarrow> 'w
      \<Rightarrow> 'w \<times> (string + inference_response)" where
  "call_attempts C rpc req_bytes n w =
     (case rpc req_bytes w of
        (w', Inl e) \<Rightarrow>
          (case n of
             Suc m \<Rightarrow> if call_transient e then call_attempts C rpc req_bytes m w'
                      else (w', Inl (''call_unary_handler: '' @ e))
           | 0 \<Rightarrow> (w', Inl (''call_unary_handler: '' @ e)))
      | (w', Inr resp_bytes) \<Rightarrow>
          (case rc_dec_res C resp_bytes of
             Inl e \<Rightarrow> (w', Inl (''deserialise InferenceResponse: '' @ e))
           | Inr response \<Rightarrow>
               (case ir_error response of
                  Some err \<Rightarrow> (w', Inl (''Remote inference error: '' @ err))
                | None \<Rightarrow> (w', Inr response))))"

definition call_block_forward ::
    "rpc_codec \<Rightarrow> (bytes \<Rightarrow> 'w \<Rightarrow> 'w \<times> (string + bytes)) \<Rightarrow> inference_request \<Rightarrow> 'w
      \<Rightarrow> 'w \<times> (string + inference_response)" where
  "call_block_forward C rpc request w =
     (case rc_enc_req C request of
        Inl e \<Rightarrow> (w, Inl (''serialise InferenceRequest: '' @ e))
      | Inr req_bytes \<Rightarrow> call_attempts C rpc req_bytes 2 w)"

declare call_attempts.simps [simp del]

section \<open>Token ids on the wire\<close>

lemma token_ids_roundtrip: "bytes_to_token_ids (snd (token_ids_to_bytes ids)) = Inr ids"
proof -
  have "length (concat (map u32_to_le_bytes ids)) = 4 * length ids"
    by (induction ids) simp_all
  then show ?thesis by (simp add: bytes_to_token_ids_def token_ids_to_bytes_def comp_def chunks4_concat)
qed

section \<open>Tensors on the wire\<close>

text \<open>A tensor that half precision represents, with dimensions of 32 bits, survives the wire.\<close>

lemma tensor_roundtrip:
  assumes "tp_f16 M x = Inr vs" "tp_from_vec M vs (tp_dims M x) = Inr x" "\<And>d. d \<in> set (tp_dims M x) \<Longrightarrow> d < 2 ^ 32"
  obtains shape data where "tensor_to_f16_bytes M x = Inr (shape, data)" "f16_bytes_to_tensor M data shape = Inr x"
proof -
  have "length (concat (map u16_to_le_bytes vs)) = 2 * length vs" by (induction vs) simp_all
  moreover have "map unat (map word_of_nat (tp_dims M x) :: u32 list) = tp_dims M x"
    using assms(3) by (auto intro!: map_idI simp: unsigned_of_nat take_bit_nat_eq_self)
  ultimately show thesis
    using assms(1,2) that by (simp add: tensor_to_f16_bytes_def f16_bytes_to_tensor_def chunks2_concat comp_def)
qed

section \<open>Composition of shards\<close>

lemma length_run_loop [simp]: "length (fst (run_loop M g sp x cs)) = length cs"
  by (induction cs arbitrary: g x) (auto split: prod.split sum.split simp: case_prod_beta)

text \<open>Running a sequence of blocks in two parts is running it at once.\<close>

lemma run_loop_append:
  "run_loop M g sp x (cs @ ds) =
     (case run_loop M g sp x cs of
        (cs', Inl e) \<Rightarrow> (cs' @ ds, Inl e)
      | (cs', Inr y) \<Rightarrow> (let (ds', r) = run_loop M (g + length cs) sp y ds in (cs' @ ds', r)))"
proof (induction cs arbitrary: g x)
  case (Cons c cs)
  then show ?case by (auto simp: Let_def case_prod_beta split: prod.split sum.split)
qed (simp add: case_prod_beta)

text \<open>The caches of a session in a shard; a session not yet opened has empty caches.\<close>

definition session_kv :: "u64 \<Rightarrow> 'kv transformer_shard \<Rightarrow> 'kv option list" where
  "session_kv sid sh = (case hm_get (ts_sessions sh) sid of
     Some s \<Rightarrow> ks_kv s | None \<Rightarrow> replicate (num_blocks sh) None)"

definition shard_ok :: "'kv transformer_shard \<Rightarrow> bool" where
  "shard_ok sh \<longleftrightarrow> ts_start_block sh \<le> ts_end_block sh \<and> ts_end_block sh \<le> ts_total_blocks sh \<and>
     (\<forall>sid s. hm_get (ts_sessions sh) sid = Some s \<longrightarrow> length (ks_kv s) = num_blocks sh)"

lemma run_blocks_eq:
  "run_blocks M now x sp sid sh =
     (sh\<lparr>ts_sessions := hm_insert sid
          \<lparr>ks_kv = fst (run_loop M (ts_start_block sh) sp x (session_kv sid sh)), ks_last_access = now\<rparr> (ts_sessions sh)\<rparr>,
      snd (run_loop M (ts_start_block sh) sp x (session_kv sid sh)))"
  by (simp add: run_blocks_def session_kv_def unwrap_or_def session_new_def pair_simps split: option.split)

lemma length_session_kv: "shard_ok sh \<Longrightarrow> length (session_kv sid sh) = num_blocks sh"
  by (auto simp: session_kv_def shard_ok_def split: option.split)

end
