(* ===== verification/Reputation.thy ===== *)
theory Reputation
  imports Rust_Order
begin

text \<open>
  The local reputation store (\<open>kwaai-cli/src/reputation.rs\<close>): a bounded ring of observations
  per peer, the score computed from it in binary64 arithmetic, and the tiers. \<open>f64::exp\<close> is
  a parameter. The JSON file is a parameter of \<open>load\<close> (its parsed content); \<open>save\<close>
  is the new content of the file, and \<open>record\<close> and \<open>reset\<close> ignore whether it failed.

  Lemmas: the ring refines "the newest observations since the last reset", the score stays
  in the unit interval despite rounding, and the tiers.
\<close>

section \<open>Data\<close>

record peer_observation =
  po_timestamp_secs :: u64
  po_latency_ms :: f64
  po_success :: bool
  po_observed_tps :: "f64 option"
  po_claimed_tps :: "f64 option"

record peer_record =
  rec_peer_id_b58 :: string
  rec_public_name :: string
  rec_observations :: "peer_observation list"
  rec_first_seen_secs :: u64
  rec_last_seen_secs :: u64

definition peer_record_new :: "string \<Rightarrow> string \<Rightarrow> u64 \<Rightarrow> peer_record" where
  "peer_record_new peer_id_b58 public_name now =
     \<lparr>rec_peer_id_b58 = peer_id_b58, rec_public_name = public_name, rec_observations = [],
      rec_first_seen_secs = now, rec_last_seen_secs = now\<rparr>"

datatype trust_tier = Unknown | Known | Verified | Trusted

fun tier_rank :: "trust_tier \<Rightarrow> nat" where
  "tier_rank Unknown = 0" | "tier_rank Known = 1" | "tier_rank Verified = 2" | "tier_rank Trusted = 3"

text \<open>The derived order of the enum.\<close>

instantiation trust_tier :: linorder
begin

definition less_eq_trust_tier :: "trust_tier \<Rightarrow> trust_tier \<Rightarrow> bool" where
  "a \<le> b \<longleftrightarrow> tier_rank a \<le> tier_rank b"

definition less_trust_tier :: "trust_tier \<Rightarrow> trust_tier \<Rightarrow> bool" where
  "a < b \<longleftrightarrow> tier_rank a < tier_rank b"

instance
proof (standard, goal_cases)
  case (4 x y)
  then show ?case by (cases x; cases y) (simp_all add: less_eq_trust_tier_def)
qed (auto simp: less_eq_trust_tier_def less_trust_tier_def)

end

fun tier_as_str :: "trust_tier \<Rightarrow> string" where
  "tier_as_str Unknown = ''UNKNOWN''"
| "tier_as_str Known = ''KNOWN''"
| "tier_as_str Verified = ''VERIFIED''"
| "tier_as_str Trusted = ''TRUSTED''"

record peer_score =
  ps_score :: f64
  ps_tier :: trust_tier
  ps_sample_count :: nat
  ps_avg_latency_ms :: f64
  ps_availability :: f64
  ps_throughput_ratio :: "f64 option"

record reputation_store =
  rs_peers :: "(string, peer_record) hashmap"
  rs_max_observations :: nat

definition default_max_obs :: nat where
  "default_max_obs = 100"

definition reputation_default :: reputation_store where
  "reputation_default = \<lparr>rs_peers = [], rs_max_observations = 100\<rparr>"

section \<open>Persistence and mutation\<close>

text \<open>\<open>file\<close>: \<open>None\<close> when the file does not exist, otherwise what reading and parsing it gave.\<close>

definition reputation_load :: "(string + reputation_store) option \<Rightarrow> reputation_store" where
  "reputation_load file =
     (case file of None \<Rightarrow> reputation_default
      | Some (Inr store) \<Rightarrow> store
      | Some (Inl _) \<Rightarrow> reputation_default)"

definition record_no_save ::
    "string \<Rightarrow> string \<Rightarrow> peer_observation \<Rightarrow> reputation_store \<Rightarrow> reputation_store" where
  "record_no_save peer_id_b58 public_name obs s =
     (let now = po_timestamp_secs obs;
          r0 = unwrap_or (hm_get (rs_peers s) peer_id_b58) (peer_record_new peer_id_b58 public_name now);
          r1 = (if public_name \<noteq> [] then r0\<lparr>rec_public_name := public_name\<rparr> else r0);
          r2 = r1\<lparr>rec_last_seen_secs := now\<rparr>;
          r3 = (if length (rec_observations r2) \<ge> rs_max_observations s
                then r2\<lparr>rec_observations := tl (rec_observations r2)\<rparr> else r2);
          r4 = r3\<lparr>rec_observations := rec_observations r3 @ [obs]\<rparr>
      in s\<lparr>rs_peers := hm_insert peer_id_b58 r4 (rs_peers s)\<rparr>)"

text \<open>The second component is the file after the save that \<open>io_ok\<close> lets succeed.\<close>

definition reputation_record ::
    "bool \<Rightarrow> string \<Rightarrow> string \<Rightarrow> peer_observation \<Rightarrow> reputation_store \<times> reputation_store option
      \<Rightarrow> reputation_store \<times> reputation_store option" where
  "reputation_record io_ok pid name obs = (\<lambda>(s, file).
     let s' = record_no_save pid name obs s in (s', if io_ok then Some s' else file))"

definition reputation_reset ::
    "bool \<Rightarrow> string \<Rightarrow> reputation_store \<times> reputation_store option
      \<Rightarrow> (reputation_store \<times> reputation_store option) \<times> bool" where
  "reputation_reset io_ok pid = (\<lambda>(s, file).
     let removed = (hm_get (rs_peers s) pid \<noteq> None);
         s' = s\<lparr>rs_peers := hm_remove pid (rs_peers s)\<rparr>
     in ((s', if removed \<and> io_ok then Some s' else file), removed))"

section \<open>Scoring\<close>

definition no_score :: peer_score where
  "no_score = \<lparr>ps_score = Fin 0, ps_tier = Unknown, ps_sample_count = 0, ps_avg_latency_ms = Fin 0,
     ps_availability = Fin 0, ps_throughput_ratio = None\<rparr>"

definition tps_pairs :: "peer_observation list \<Rightarrow> (f64 \<times> f64) list" where
  "tps_pairs os = List.map_filter (\<lambda>ob. case (po_observed_tps ob, po_claimed_tps ob) of
     (Some a, Some b) \<Rightarrow> Some (a, b) | _ \<Rightarrow> None) os"

definition throughput_ratio :: "peer_observation list \<Rightarrow> f64 option" where
  "throughput_ratio os =
     (let pairs = tps_pairs os in
      if pairs = [] then None
      else let avg_observed = f64_div (f64_sum (map fst pairs)) (f64_of_nat (length pairs));
               avg_claimed = f64_div (f64_sum (map snd pairs)) (f64_of_nat (length pairs))
           in Some (f64_clamp (f64_div avg_observed avg_claimed) (Fin 0) (Fin 1)))"

definition tier_of :: "nat \<Rightarrow> f64 \<Rightarrow> trust_tier" where
  "tier_of n score =
     (if n < 5 then Unknown
      else if f64_lt score (to_f64 (40 / 100)) then Known
      else if f64_lt score (to_f64 (70 / 100)) then Verified
      else Trusted)"

definition weighted_score :: "f64 \<Rightarrow> f64 \<Rightarrow> f64 \<Rightarrow> f64" where
  "weighted_score s_availability s_throughput s_latency =
     f64_add (f64_add (f64_mul (to_f64 (5 / 10)) s_availability) (f64_mul (to_f64 (3 / 10)) s_throughput))
       (f64_mul (to_f64 (2 / 10)) s_latency)"

definition peer_score_of :: "(f64 \<Rightarrow> f64) \<Rightarrow> string \<Rightarrow> reputation_store \<Rightarrow> peer_score" where
  "peer_score_of f_exp pid s =
     (case hm_get (rs_peers s) pid of
        None \<Rightarrow> no_score
      | Some r \<Rightarrow>
          (let os = rec_observations r; n = length os in
           if n = 0 then no_score
           else
             let successes = f64_of_nat (length (filter po_success os));
                 s_availability = f64_div successes (f64_of_nat n);
                 total_latency = f64_sum (map po_latency_ms os);
                 avg_latency_ms = f64_div total_latency (f64_of_nat n);
                 s_latency = f_exp (f64_div (f64_neg avg_latency_ms) (Fin 500));
                 ratio = throughput_ratio os;
                 s_throughput = unwrap_or ratio (Fin 0);
                 score = weighted_score s_availability s_throughput s_latency
             in \<lparr>ps_score = score, ps_tier = tier_of n score, ps_sample_count = n,
                 ps_avg_latency_ms = avg_latency_ms, ps_availability = s_availability,
                 ps_throughput_ratio = ratio\<rparr>))"

definition score_desc :: "(string \<times> peer_score) \<Rightarrow> (string \<times> peer_score) \<Rightarrow> ordering" where
  "score_desc = f64_desc (\<lambda>x. ps_score (snd x))"

definition all_scored :: "(f64 \<Rightarrow> f64) \<Rightarrow> reputation_store \<Rightarrow> (string \<times> peer_score) list" where
  "all_scored f_exp s =
     sort_by score_desc (map (\<lambda>(pid, _). (pid, peer_score_of f_exp pid s)) (rs_peers s))"

section \<open>The ring buffer\<close>

text \<open>What a peer's history should be: the newest \<open>m\<close> observations since its last reset.\<close>

datatype rep_event = Record string string peer_observation | Reset string

fun rep_step :: "reputation_store \<Rightarrow> rep_event \<Rightarrow> reputation_store" where
  "rep_step s (Record pid name ob) = record_no_save pid name ob s"
| "rep_step s (Reset pid) = fst (fst (reputation_reset True pid (s, None)))"

fun since_reset :: "string \<Rightarrow> peer_observation list \<Rightarrow> rep_event list \<Rightarrow> peer_observation list" where
  "since_reset pid acc [] = acc"
| "since_reset pid acc (Record q _ ob # es) = since_reset pid (if q = pid then acc @ [ob] else acc) es"
| "since_reset pid acc (Reset q # es) = since_reset pid (if q = pid then [] else acc) es"

definition newest :: "nat \<Rightarrow> 'a list \<Rightarrow> 'a list" where
  "newest m xs = drop (length xs - m) xs"

definition observations_of :: "string \<Rightarrow> reputation_store \<Rightarrow> peer_observation list" where
  "observations_of pid s = (case hm_get (rs_peers s) pid of None \<Rightarrow> [] | Some r \<Rightarrow> rec_observations r)"

lemma newest_snoc:
  assumes "0 < m"
  shows "newest m (xs @ [x]) = (if m \<le> length (newest m xs) then tl (newest m xs) else newest m xs) @ [x]"
proof (cases "m \<le> length xs")
  case True
  then have "newest m (xs @ [x]) = drop (Suc (length xs - m)) xs @ [x]"
    using assms by (simp add: newest_def Suc_diff_le)
  with True show ?thesis by (simp add: newest_def drop_Suc tl_drop)
next
  case False
  then show ?thesis by (simp add: newest_def)
qed

lemma observations_record:
  "observations_of q (record_no_save pid name ob s) =
     (if q = pid then (if rs_max_observations s \<le> length (observations_of pid s)
        then tl (observations_of pid s) else observations_of pid s) @ [ob]
      else observations_of q s)"
  by (cases "name = []"; cases "hm_get (rs_peers s) pid")
    (simp_all add: observations_of_def record_no_save_def Let_def unwrap_or_def peer_record_new_def)

lemma observations_reset:
  "observations_of q (fst (fst (reputation_reset io pid (s, f)))) = (if q = pid then [] else observations_of q s)"
  by (simp add: observations_of_def reputation_reset_def Let_def)

lemma max_obs_step [simp]: "rs_max_observations (rep_step s e) = rs_max_observations s"
  by (cases e) (simp_all add: record_no_save_def reputation_reset_def Let_def)

lemma rep_run_newest:
  assumes "0 < rs_max_observations s" "observations_of pid s = newest (rs_max_observations s) acc"
  shows "observations_of pid (foldl rep_step s es) = newest (rs_max_observations s) (since_reset pid acc es)"
  using assms
proof (induction es arbitrary: s acc)
  case (Cons e es)
  show ?case
  proof (cases e)
    case (Record q name ob)
    with Cons.prems have "observations_of pid (rep_step s e) =
        newest (rs_max_observations (rep_step s e)) (if q = pid then acc @ [ob] else acc)"
      using newest_snoc [OF Cons.prems(1), of acc ob]
      by (auto simp: observations_record max_obs_step [of s "Record q name ob", simplified])
    with Cons.IH [of "rep_step s e"] Cons.prems(1) Record show ?thesis by (simp del: rep_step.simps)
  next
    case (Reset q)
    with Cons.prems have "observations_of pid (rep_step s e) =
        newest (rs_max_observations (rep_step s e)) (if q = pid then [] else acc)"
      by (simp add: observations_reset newest_def max_obs_step [of s "Reset q", simplified])
    with Cons.IH [of "rep_step s e"] Cons.prems(1) Reset show ?thesis by (simp del: rep_step.simps)
  qed
qed simp

section \<open>Rounding of the score\<close>

lemma lit_half: "to_f64 (5 / 10) = Fin (1 / 2)"
  using fl_round_exact [of "1 / 2" 1 "- 1"] by (simp add: to_f64_unit power_int_minus)

lemma lit_tput: "to_f64 (3 / 10) = Fin (5404319552844595 / 2 ^ 54)"
  using fl_round_eval [of "- 2" "3 / 10" "- 54" 5404319552844595]
  by (simp add: to_f64_unit power_int_minus)

lemma lit_lat: "to_f64 (2 / 10) = Fin (3602879701896397 / 2 ^ 54)"
  using fl_round_eval [of "- 3" "1 / 5" "- 55" 7205759403792794]
  by (simp add: to_f64_unit power_int_minus)

text \<open>The partial sum is at most the float next above 0.8, and adding the last weight to it
  rounds to one.\<close>

lemma fl_round_08: "fl_round (7205759403792794 / 2 ^ 53) = 7205759403792794 / 2 ^ 53"
  using fl_round_exact [of "7205759403792794 / 2 ^ 53" 7205759403792794 "- 53"]
  by (simp add: power_int_minus)

lemma fl_round_top: "fl_round (7205759403792794 / 2 ^ 53 + 3602879701896397 / 2 ^ 54) = 1"
  using fl_round_eval [of 0 "7205759403792794 / 2 ^ 53 + 3602879701896397 / 2 ^ 54" "- 52" 4503599627370496]
  by (simp add: power_int_minus)

lemma fl_round_weight:
  assumes "0 \<le> x" "x \<le> 1" "0 \<le> c" "fl_round c = c"
  shows "0 \<le> fl_round (c * x)" "fl_round (c * x) \<le> c"
  using assms fl_round_mono [of "c * x" c] fl_round_nonneg [of "c * x"]
  by (simp_all add: mult_left_le)

lemma fl_round_weights:
  "fl_round (1 / 2) = 1 / 2"
  "fl_round (5404319552844595 / 2 ^ 54) = 5404319552844595 / 2 ^ 54"
  "fl_round (3602879701896397 / 2 ^ 54) = 3602879701896397 / 2 ^ 54"
  using fl_round_exact [of "1 / 2" 1 "- 1"] fl_round_exact [of "5404319552844595 / 2 ^ 54" 5404319552844595 "- 54"]
    fl_round_exact [of "3602879701896397 / 2 ^ 54" 3602879701896397 "- 54"]
  by (simp_all add: power_int_minus)

lemma weighted_score_eq:
  assumes "0 \<le> a" "a \<le> 1" "0 \<le> t" "t \<le> 1" "0 \<le> l" "l \<le> 1"
  obtains S L where "weighted_score (Fin a) (Fin t) (Fin l) = Fin (fl_round (S + L))"
    "S = fl_round (fl_round (1 / 2 * a) + fl_round (5404319552844595 / 2 ^ 54 * t))"
    "L = fl_round (3602879701896397 / 2 ^ 54 * l)"
    "0 \<le> S" "S \<le> 7205759403792794 / 2 ^ 53" "0 \<le> L" "L \<le> 3602879701896397 / 2 ^ 54"
proof -
  obtain w1 w2 w3 :: rat where w: "w1 = 1 / 2" "w2 = 5404319552844595 / 2 ^ 54" "w3 = 3602879701896397 / 2 ^ 54"
    by blast
  note lits = lit_half [folded w] lit_tput [folded w] lit_lat [folded w]
  note weights = fl_round_weights [folded w]
  have w0: "0 \<le> w1" "0 \<le> w2" "0 \<le> w3" "w1 \<le> 2" "w2 \<le> 2" "w3 \<le> 2" by (simp_all add: w)
  define A T L where "A = fl_round (w1 * a)" and "T = fl_round (w2 * t)" and "L = fl_round (w3 * l)"
  have A: "0 \<le> A" "A \<le> w1" and T: "0 \<le> T" "T \<le> w2" and L: "0 \<le> L" "L \<le> w3"
    unfolding A_def T_def L_def using assms w0 weights by (simp_all add: fl_round_weight)
  define S where "S = fl_round (A + T)"
  have "A + T \<le> 7205759403792794 / 2 ^ 53" using A T by (simp add: w)
  from fl_round_mono [OF this, unfolded fl_round_08] have S: "0 \<le> S" "S \<le> 7205759403792794 / 2 ^ 53"
    using fl_round_nonneg [of "A + T"] A T by (simp_all only: S_def)
  have small: "to_f64 x = Fin (fl_round x)" if "0 \<le> x" "x \<le> 2" for x
  proof (rule to_f64_small)
    have "(2::rat) ^ 1 \<le> 2 ^ 1000" by (rule power_increasing) simp_all
    with that show "\<bar>x\<bar> \<le> 2 ^ 1000" by simp
  qed
  have prod: "0 \<le> c * x \<and> c * x \<le> 2" if "0 \<le> c" "c \<le> 2" "0 \<le> x" "x \<le> 1" for c x :: rat
    using that mult_left_le [of x c] by (simp add: order_trans [of "c * x" c 2])
  have "A + T \<le> 2" "S + L \<le> 2" using A T S L by (simp_all add: w)
  then have "weighted_score (Fin a) (Fin t) (Fin l) = Fin (fl_round (S + L))"
    unfolding weighted_score_def lits using assms A T S L w0 prod
    by (simp add: small flip: A_def T_def L_def S_def)
  then show thesis
    using that [of S L] S L by (simp only: S_def A_def T_def L_def w)
qed

lemma weighted_score_unit:
  assumes "0 \<le> a" "a \<le> 1" "0 \<le> t" "t \<le> 1" "0 \<le> l" "l \<le> 1"
  shows "\<exists>r. weighted_score (Fin a) (Fin t) (Fin l) = Fin r \<and> 0 \<le> r \<and> r \<le> 1"
proof -
  obtain S L where SL: "weighted_score (Fin a) (Fin t) (Fin l) = Fin (fl_round (S + L))"
    "0 \<le> S" "S \<le> 7205759403792794 / 2 ^ 53" "0 \<le> L" "L \<le> 3602879701896397 / 2 ^ 54"
    using weighted_score_eq [OF assms] by blast
  have "S + L \<le> 7205759403792794 / 2 ^ 53 + 3602879701896397 / 2 ^ 54" using SL by simp
  from fl_round_mono [OF this] have "fl_round (S + L) \<le> 1" by (simp only: fl_round_top)
  with SL fl_round_nonneg [of "S + L"] show ?thesis by simp
qed

section \<open>Availability, latency and throughput\<close>

text \<open>What the C library documents of \<open>exp\<close>: between 0 and 1 at arguments at most 0.\<close>

definition exp_unit :: "(f64 \<Rightarrow> f64) \<Rightarrow> bool" where
  "exp_unit f \<longleftrightarrow> (\<forall>x. f64_le x (Fin 0) \<longrightarrow> f64_le (Fin 0) (f x) \<and> f64_le (f x) (Fin 1))"

lemma throughput_unit:
  assumes "throughput_ratio os \<noteq> Some NaN"
  shows "\<exists>r. unwrap_or (throughput_ratio os) (Fin 0) = Fin r \<and> 0 \<le> r \<and> r \<le> 1"
  using assms clamp_unit
  by (auto simp: throughput_ratio_def Let_def unwrap_or_def clamp_NaN split: if_splits)

text \<open>The parts of a computed score.\<close>

lemma peer_score_parts:
  assumes "hm_get (rs_peers s) pid = Some r" "rec_observations r \<noteq> []" "length (rec_observations r) < 2 ^ 53"
    and "\<forall>ob \<in> set (rec_observations r). f64_le (Fin 0) (po_latency_ms ob)" "exp_unit f_exp"
  obtains a l where "0 \<le> a" "a \<le> 1" "0 \<le> l" "l \<le> 1"
    "ps_availability (peer_score_of f_exp pid s) = Fin a"
    "f_exp (f64_div (f64_neg (ps_avg_latency_ms (peer_score_of f_exp pid s))) (Fin 500)) = Fin l"
    "ps_score (peer_score_of f_exp pid s) =
       weighted_score (Fin a) (unwrap_or (throughput_ratio (rec_observations r)) (Fin 0)) (Fin l)"
    "ps_tier (peer_score_of f_exp pid s) =
       tier_of (length (rec_observations r)) (ps_score (peer_score_of f_exp pid s))"
proof -
  let ?os = "rec_observations r" and ?n = "length (rec_observations r)"
  let ?avg = "f64_div (f64_sum (map po_latency_ms ?os)) (f64_of_nat ?n)"
  have n: "0 < ?n" using assms(2) by simp
  obtain a where a: "f64_div (f64_of_nat (length (filter po_success ?os))) (f64_of_nat ?n) = Fin a" "0 \<le> a" "a \<le> 1"
    using ratio_unit [OF length_filter_le n assms(3)] by blast
  have "f64_le (Fin 0) (f64_sum (map po_latency_ms ?os))"
    using assms(4) by (auto intro!: f64_sum_nonneg)
  then have "f64_le (Fin 0) ?avg"
    using f64_div_nonneg n by (simp add: f64_of_nat_small [OF assms(3)])
  then have "f64_le (f64_div (f64_neg ?avg) (Fin 500)) (Fin 0)" by (simp add: f64_div_neg)
  then obtain l where l: "f_exp (f64_div (f64_neg ?avg) (Fin 500)) = Fin l" "0 \<le> l" "l \<le> 1"
    using assms(5) unit_Fin unfolding exp_unit_def by blast
  show thesis
    by (rule that [OF a(2,3) l(2,3)]) (use assms(1,2) a l in \<open>simp_all add: peer_score_of_def Let_def\<close>)
qed

lemma weighted_score_NaN: "weighted_score (Fin a) NaN x = NaN"
proof -
  have "f64_add NaN y = NaN" "f64_add y NaN = NaN" "f64_mul y NaN = NaN" for y
    by (cases y; simp)+
  then show ?thesis by (simp only: weighted_score_def)
qed

text \<open>Without throughput data a latency factor of at most 0.999 keeps the score below 0.70.\<close>

lemma weighted_score_no_tput:
  assumes "0 \<le> a" "a \<le> 1" "0 \<le> l" "l \<le> 999 / 1000"
  shows "f64_lt (weighted_score (Fin a) (Fin 0) (Fin l)) (to_f64 (70 / 100))"
proof -
  obtain S L where SL: "weighted_score (Fin a) (Fin 0) (Fin l) = Fin (fl_round (S + L))"
    "S = fl_round (fl_round (1 / 2 * a) + fl_round (5404319552844595 / 2 ^ 54 * 0))"
    "L = fl_round (3602879701896397 / 2 ^ 54 * l)" "0 \<le> S" "0 \<le> L"
    using weighted_score_eq [of a 0 l] assms by auto
  have e: "fl_round (1 / 2) = 1 / 2" "fl_round (819 / 4096) = 819 / 4096" "fl_round (2867 / 4096) = 2867 / 4096"
    using fl_round_exact [of "1 / 2" 1 "- 1"] fl_round_exact [of "819 / 4096" 819 "- 12"]
      fl_round_exact [of "2867 / 4096" 2867 "- 12"]
    by (simp_all add: power_int_minus)
  have "fl_round (1 / 2 * a) \<le> 1 / 2" using fl_round_mono [of "1 / 2 * a" "1 / 2"] assms e(1) by simp
  then have "S \<le> 1 / 2" using fl_round_mono [of "fl_round (1 / 2 * a)" "1 / 2"] e(1) by (simp add: SL(2))
  moreover have "3602879701896397 / 2 ^ 54 * l \<le> 819 / 4096" using assms by simp
  from fl_round_mono [OF this] have "L \<le> 819 / 4096" by (simp only: SL(3) e(2))
  ultimately have "fl_round (S + L) \<le> 2867 / 4096"
    using fl_round_mono [of "S + L" "2867 / 4096"] e(3) by simp
  moreover have "to_f64 (70 / 100) = Fin (6305039478318694 / 2 ^ 53)"
    using fl_round_eval [of "- 1" "7 / 10" "- 53" 6305039478318694]
    by (simp add: to_f64_unit power_int_minus)
  ultimately show ?thesis by (simp add: SL(1))
qed

text \<open>A higher score and more samples never give a lower tier.\<close>

lemma tier_mono:
  assumes "n \<le> n'" "f64_le x y"
  shows "tier_of n x \<le> tier_of n' y"
proof -
  have "f64_lt y c \<Longrightarrow> f64_lt x c" for c using assms(2) by (rule f64_le_lt_trans)
  with assms(1) show ?thesis by (auto simp: tier_of_def less_eq_trust_tier_def)
qed

section \<open>Ranking\<close>

lemma score_desc_Greater:
  "ps_score (snd a) \<noteq> NaN \<Longrightarrow> ps_score (snd b) \<noteq> NaN \<Longrightarrow>
     score_desc a b \<noteq> Greater \<longleftrightarrow> f64_le (ps_score (snd b)) (ps_score (snd a))"
  using f64_desc_Greater [of "\<lambda>x. ps_score (snd x)" a b] by (simp add: score_desc_def)

interpretation by_score: total_cmp "{x. ps_score (snd x) \<noteq> NaN}" score_desc
  unfolding score_desc_def by (rule f64_desc.total_cmp_axioms)

section \<open>Properties\<close>

text \<open>
  C27: The ring buffer. After any sequence of recorded observations and resets, over any
  peers, a fresh store holds for each peer exactly the newest 100 observations recorded
  for it since its last reset, oldest first.
\<close>

theorem reputation_keeps_newest:
  "observations_of pid (foldl rep_step reputation_default es) = newest 100 (since_reset pid [] es)"
  using rep_run_newest [of reputation_default pid "[]" es]
  by (simp add: reputation_default_def observations_of_def newest_def hm_get_def)

text \<open>
  C31: The score of a peer with observations, computed with every intermediate rounding of
  binary64, lies between 0 and 1, given non-negative latencies and an exponential that
  stays between 0 and 1 at negative arguments; except that a throughput ratio of 0/0
  makes it NaN, and a peer with a NaN score and five samples is ranked Trusted.
\<close>

theorem reputation_score_range:
  assumes "hm_get (rs_peers s) pid = Some r" "rec_observations r \<noteq> []" "length (rec_observations r) < 2 ^ 53"
    and "\<forall>ob \<in> set (rec_observations r). f64_le (Fin 0) (po_latency_ms ob)" "exp_unit f_exp"
  defines "p \<equiv> peer_score_of f_exp pid s"
  shows "if throughput_ratio (rec_observations r) = Some NaN
         then ps_score p = NaN \<and> ps_tier p = (if length (rec_observations r) < 5 then Unknown else Trusted)
         else f64_le (Fin 0) (ps_score p) \<and> f64_le (ps_score p) (Fin 1)"
proof -
  obtain a l where al: "0 \<le> a" "a \<le> 1" "0 \<le> l" "l \<le> 1"
    and score: "ps_score p = weighted_score (Fin a) (unwrap_or (throughput_ratio (rec_observations r)) (Fin 0)) (Fin l)"
    and tier: "ps_tier p = tier_of (length (rec_observations r)) (ps_score p)"
    unfolding p_def by (rule peer_score_parts [OF assms(1-5)]) blast
  show ?thesis
  proof (cases "throughput_ratio (rec_observations r) = Some NaN")
    case True
    then have "ps_score p = NaN" by (simp add: score unwrap_or_def weighted_score_NaN)
    with True show ?thesis by (simp add: tier tier_of_def)
  next
    case False
    obtain t where t: "unwrap_or (throughput_ratio (rec_observations r)) (Fin 0) = Fin t" "0 \<le> t" "t \<le> 1"
      using throughput_unit [OF False] by blast
    with weighted_score_unit [OF al(1,2) t(2,3) al(3,4)] False show ?thesis by (auto simp: score)
  qed
qed

text \<open>
  Without throughput data no peer with a measurable latency is Trusted: when no
  observation has both an observed and a claimed throughput and the latency factor
  \<open>exp(-avg/500)\<close> is at most 0.999, the tier is at most Verified, even at full availability.
\<close>

theorem no_throughput_not_trusted:
  assumes "hm_get (rs_peers s) pid = Some r" "rec_observations r \<noteq> []" "length (rec_observations r) < 2 ^ 53"
    and "\<forall>ob \<in> set (rec_observations r). f64_le (Fin 0) (po_latency_ms ob) \<and> po_observed_tps ob = None"
    and "exp_unit f_exp"
    and "f64_le (f_exp (f64_div (f64_neg (ps_avg_latency_ms (peer_score_of f_exp pid s))) (Fin 500))) (Fin (999 / 1000))"
  shows "ps_tier (peer_score_of f_exp pid s) \<le> Verified"
proof -
  have "throughput_ratio (rec_observations r) = None"
    using assms(4) by (auto simp: throughput_ratio_def tps_pairs_def map_filter_def filter_empty_conv)
  moreover have lat: "\<forall>ob \<in> set (rec_observations r). f64_le (Fin 0) (po_latency_ms ob)" using assms(4) by blast
  obtain a l where "0 \<le> a" "a \<le> 1" "0 \<le> l"
    and "f_exp (f64_div (f64_neg (ps_avg_latency_ms (peer_score_of f_exp pid s))) (Fin 500)) = Fin l"
    and score: "ps_score (peer_score_of f_exp pid s) =
      weighted_score (Fin a) (unwrap_or (throughput_ratio (rec_observations r)) (Fin 0)) (Fin l)"
    and tier: "ps_tier (peer_score_of f_exp pid s) = tier_of (length (rec_observations r)) (ps_score (peer_score_of f_exp pid s))"
    by (rule peer_score_parts [OF assms(1-3) lat assms(5)]) blast
  ultimately show ?thesis
    using weighted_score_no_tput [of a l] assms(6)
    by (simp add: unwrap_or_def tier_of_def less_eq_trust_tier_def)
qed

text \<open>
  The ranking of all peers lists every known peer exactly once with its score, best
  first, when no score is NaN.
\<close>

theorem all_scored_ranked:
  assumes "hm_wf (rs_peers s)" "\<And>pid. ps_score (peer_score_of f_exp pid s) \<noteq> NaN"
  shows "sorted_wrt (\<lambda>a b. f64_le (ps_score (snd b)) (ps_score (snd a))) (all_scored f_exp s) \<and>
    distinct (map fst (all_scored f_exp s)) \<and>
    set (all_scored f_exp s) = (\<lambda>pid. (pid, peer_score_of f_exp pid s)) ` set (map fst (rs_peers s))"
proof -
  let ?xs = "map (\<lambda>(pid, _). (pid, peer_score_of f_exp pid s)) (rs_peers s)"
  have sub: "set ?xs \<subseteq> {x. ps_score (snd x) \<noteq> NaN}" using assms(2) by auto
  have fsts: "map fst ?xs = map fst (rs_peers s)" by (simp add: comp_def case_prod_beta)
  have "mset (map fst (all_scored f_exp s)) = mset (map fst ?xs)"
    by (simp only: all_scored_def mset_map mset_sort_by)
  then have "mset (map fst (all_scored f_exp s)) = mset (map fst (rs_peers s))"
    unfolding fsts .
  from mset_eq_imp_distinct_iff [OF this] assms(1) have "distinct (map fst (all_scored f_exp s))"
    by (simp add: hm_wf_def)
  moreover have "sorted_wrt (\<lambda>a b. f64_le (ps_score (snd b)) (ps_score (snd a))) (all_scored f_exp s)"
  proof (rule sorted_wrt_mono_rel [of _ "\<lambda>a b. score_desc a b \<noteq> Greater"])
    show "sorted_wrt (\<lambda>a b. score_desc a b \<noteq> Greater) (all_scored f_exp s)"
      using by_score.sort_by_sorted [OF sub] by (simp add: all_scored_def)
    fix x y assume "x \<in> set (all_scored f_exp s)" "y \<in> set (all_scored f_exp s)" "score_desc x y \<noteq> Greater"
    moreover have "set (all_scored f_exp s) \<subseteq> {x. ps_score (snd x) \<noteq> NaN}"
      using sub by (simp add: all_scored_def)
    ultimately show "f64_le (ps_score (snd y)) (ps_score (snd x))"
      using score_desc_Greater by blast
  qed
  moreover have "set (all_scored f_exp s) = set ?xs" by (simp only: all_scored_def set_sort_by)
  moreover have "set ?xs = (\<lambda>pid. (pid, peer_score_of f_exp pid s)) ` set (map fst (rs_peers s))"
    by (simp add: image_image case_prod_beta)
  ultimately show ?thesis by simp
qed

text \<open>Instances: one peer with a single observation of one second.\<close>

definition demo_obs :: peer_observation where
  "demo_obs = \<lparr>po_timestamp_secs = 7, po_latency_ms = Fin 1000, po_success = True,
     po_observed_tps = None, po_claimed_tps = None\<rparr>"

definition demo_rep :: reputation_store where
  "demo_rep = record_no_save ''A'' ''alice'' demo_obs reputation_default"

definition demo_rep_record :: peer_record where
  "demo_rep_record = \<lparr>rec_peer_id_b58 = ''A'', rec_public_name = ''alice'', rec_observations = [demo_obs],
     rec_first_seen_secs = 7, rec_last_seen_secs = 7\<rparr>"

lemma demo_rep_facts:
  "rs_peers demo_rep = [(''A'', demo_rep_record)]"
  "exp_unit (\<lambda>_. Fin (1 / 8))" "f64_le (Fin 0) (po_latency_ms demo_obs)" "po_observed_tps demo_obs = None"
  "rec_observations demo_rep_record = [demo_obs]"
  by (simp_all add: demo_rep_def demo_rep_record_def demo_obs_def record_no_save_def reputation_default_def
      peer_record_new_def unwrap_or_def hm_get_def hm_insert_def exp_unit_def)

theorem reputation_score_range_witness:
  "f64_le (ps_score (peer_score_of (\<lambda>_. Fin (1 / 8)) ''A'' demo_rep)) (Fin 1)"
  using reputation_score_range [of demo_rep "''A''" demo_rep_record "\<lambda>_. Fin (1 / 8)"] demo_rep_facts
  by (simp add: hm_get_def throughput_ratio_def tps_pairs_def map_filter_def)

theorem no_throughput_not_trusted_witness:
  "ps_tier (peer_score_of (\<lambda>_. Fin (1 / 8)) ''A'' demo_rep) \<le> Verified"
  using no_throughput_not_trusted [of demo_rep "''A''" demo_rep_record "\<lambda>_. Fin (1 / 8)"] demo_rep_facts
  by (simp add: hm_get_def)

theorem all_scored_ranked_witness:
  "let s = reputation_default\<lparr>rs_peers := [(''B'', peer_record_new ''B'' ''bob'' 3), (''A'', peer_record_new ''A'' ''alice'' 4)]\<rparr>
   in distinct (map fst (all_scored (\<lambda>_. Fin 1) s)) \<and> (''A'', no_score) \<in> set (all_scored (\<lambda>_. Fin 1) s)"
proof -
  let ?s = "reputation_default\<lparr>rs_peers := [(''B'', peer_record_new ''B'' ''bob'' 3), (''A'', peer_record_new ''A'' ''alice'' 4)]\<rparr>"
  have score: "peer_score_of (\<lambda>_. Fin 1) pid ?s = no_score" for pid
    by (simp add: peer_score_of_def hm_get_def peer_record_new_def)
  have "hm_wf (rs_peers ?s)" "\<And>pid. ps_score (peer_score_of (\<lambda>_. Fin 1) pid ?s) \<noteq> NaN"
    unfolding score by (simp_all add: hm_wf_def no_score_def)
  from all_scored_ranked [OF this] show ?thesis by (simp add: score)
qed

end
