(* ===== verification/Shard_Forward.thy ===== *)
theory Shard_Forward
  imports Shard_Chain Block_Rpc Reputation
begin

text \<open>
  Forwarding one request through the block servers (\<open>forward_through_chain\<close> of
  \<open>kwaai-cli/src/shard_cmd.rs\<close>). The network is a function from the peer, the request and
  the state of the world to a new state and the answer or an error text (a timeout is such
  an error); the call to the local server is another. The n-th call has its own duration
  and time stamp.

  Lemmas: the hops that answered cover the model block by block, a peer is blacklisted only
  after an error that is not transient, and when every block has a reliable server the
  request is answered.
\<close>

section \<open>The environment and the state\<close>

record ('p, 'w) forward_env =
  fe_chain :: "'p block_server_entry list"
  fe_total_blocks :: nat
  fe_session_id :: u64
  fe_seq_pos :: u32
  fe_our_peer_id :: "'p option"
  fe_local_port :: "u16 option"
  fe_call :: "'p \<Rightarrow> inference_request \<Rightarrow> 'w \<Rightarrow> 'w \<times> (string + inference_response)"
  fe_local_call :: "u16 \<Rightarrow> inference_request \<Rightarrow> 'w \<Rightarrow> 'w \<times> (string + inference_response)"
  fe_hop_ms :: "nat \<Rightarrow> f64"
  fe_now_secs :: "nat \<Rightarrow> u64"
  fe_base58 :: "'p \<Rightarrow> string"

type_synonym hop_timing = "string \<times> nat \<times> nat \<times> f64"

record ('p, 'w) forward_state =
  fs_world :: 'w
  fs_failed :: "'p list"
  fs_hops :: "hop_timing list"
  fs_reputation :: "reputation_store option"
  fs_calls :: nat

datatype forward_error = NoServer nat | AllFailed nat nat | EmptyChain

section \<open>Candidates\<close>

text \<open>\<open>Option<f64>::partial_cmp\<close>: \<open>None\<close> is below every value.\<close>

fun option_partial_cmp :: "f64 option \<Rightarrow> f64 option \<Rightarrow> ordering option" where
  "option_partial_cmp None None = Some Equal"
| "option_partial_cmp None (Some _) = Some Less"
| "option_partial_cmp (Some _) None = Some Greater"
| "option_partial_cmp (Some a) (Some b) = f64_partial_cmp a b"

definition candidate_cmp ::
    "('p, 'w) forward_env \<Rightarrow> 'p block_server_entry \<Rightarrow> 'p block_server_entry \<Rightarrow> ordering" where
  "candidate_cmp E a b =
     then_with (ord_cmp (be_end_block b) (be_end_block a))
       (then_with (unwrap_or (option_partial_cmp (be_trust_score b) (be_trust_score a)) Equal)
          (if fe_local_port E = None then Equal
           else ord_cmp (fe_our_peer_id E = Some (be_peer_id b)) (fe_our_peer_id E = Some (be_peer_id a))))"

definition candidates_at :: "('p, 'w) forward_env \<Rightarrow> 'p list \<Rightarrow> nat \<Rightarrow> 'p block_server_entry list" where
  "candidates_at E failed pos =
     sort_by (candidate_cmp E)
       (filter (\<lambda>e. be_peer_id e \<notin> set failed) (filter (\<lambda>e. covers e pos) (fe_chain E)))"

section \<open>One position\<close>

definition dispatch ::
    "('p, 'w) forward_env \<Rightarrow> 'p block_server_entry \<Rightarrow> inference_request \<Rightarrow> 'w
      \<Rightarrow> 'w \<times> (string + inference_response)" where
  "dispatch E c request w =
     (if fe_our_peer_id E = Some (be_peer_id c)
      then case fe_local_port E of
             Some port \<Rightarrow> fe_local_call E port request w
           | None \<Rightarrow> (w, Inl ''shard serve is not running on this machine (no local port file)'')
      else fe_call E (be_peer_id c) request w)"

definition observe ::
    "('p, 'w) forward_env \<Rightarrow> 'p block_server_entry \<Rightarrow> nat \<Rightarrow> bool \<Rightarrow> reputation_store \<Rightarrow> reputation_store" where
  "observe E c n success store =
     record_no_save (fe_base58 E (be_peer_id c)) (be_public_name c)
       \<lparr>po_timestamp_secs = fe_now_secs E n, po_latency_ms = fe_hop_ms E n, po_success = success,
        po_observed_tps = None, po_claimed_tps = None\<rparr> store"

definition hop_transient :: "string \<Rightarrow> bool" where
  "hop_transient e \<longleftrightarrow> str_contains ''stream reset'' e \<or> str_contains ''early eof'' e \<or>
     str_contains ''connection closed'' e"

definition blacklist :: "string \<Rightarrow> 'p \<Rightarrow> 'p list \<Rightarrow> 'p list" where
  "blacklist e p failed =
     (if str_contains ''protocols not supported'' e then List.insert p failed
      else if hop_transient e then failed
      else List.insert p failed)"

fun try_candidates ::
    "('p, 'w) forward_env \<Rightarrow> inference_request \<Rightarrow> 'p block_server_entry list \<Rightarrow> ('p, 'w) forward_state
      \<Rightarrow> ('p, 'w) forward_state \<times> ('p block_server_entry \<times> inference_response) option" where
  "try_candidates E request [] st = (st, None)"
| "try_candidates E request (c # cs) st =
     (let n = fs_calls st in
      case dispatch E c request (fs_world st) of
        (w, Inr resp) \<Rightarrow>
          (st\<lparr>fs_world := w, fs_calls := Suc n,
              fs_reputation := map_option (observe E c n True) (fs_reputation st),
              fs_hops := fs_hops st @ [(be_public_name c, be_start_block c, be_end_block c, fe_hop_ms E n)]\<rparr>,
           Some (c, resp))
      | (w, Inl e) \<Rightarrow>
          try_candidates E request cs
            (st\<lparr>fs_world := w, fs_calls := Suc n,
                fs_reputation := map_option (observe E c n False) (fs_reputation st),
                fs_failed := blacklist e (be_peer_id c) (fs_failed st)\<rparr>))"

lemma try_candidates_mem: "try_candidates E request cs st = (st', Some (c, resp)) \<Longrightarrow> c \<in> set cs"
  by (induction cs arbitrary: st) (auto simp: Let_def split: prod.splits sum.splits)

lemma candidates_at_iff:
  "c \<in> set (candidates_at E failed pos) \<longleftrightarrow>
     c \<in> set (fe_chain E) \<and> covers c pos \<and> be_peer_id c \<notin> set failed"
  by (auto simp: candidates_at_def)

section \<open>The whole chain\<close>

definition next_request :: "('p, 'w) forward_env \<Rightarrow> nat \<Rightarrow> inference_response \<Rightarrow> inference_request \<Rightarrow> inference_request" where
  "next_request E pos resp request =
     (if pos < fe_total_blocks E
      then \<lparr>iq_session_id = fe_session_id E, iq_seq_pos = fe_seq_pos E, iq_payload_type = HiddenStates,
            iq_shape = ir_shape resp, iq_data = ir_data resp\<rparr>
      else request)"

function forward_from ::
    "('p, 'w) forward_env \<Rightarrow> inference_request \<Rightarrow> inference_response option \<Rightarrow> nat \<Rightarrow> ('p, 'w) forward_state
      \<Rightarrow> ('p, 'w) forward_state \<times> (forward_error + inference_response)" where
  "forward_from E request response pos st =
     (if pos < fe_total_blocks E
      then let candidates = candidates_at E (fs_failed st) pos in
        if candidates = [] then (st, Inl (NoServer pos))
        else case try_candidates E request candidates st of
          (st', None) \<Rightarrow> (st', Inl (AllFailed (length candidates) pos))
        | (st', Some (c, resp)) \<Rightarrow>
            forward_from E
              (next_request E (be_end_block c) resp request)
              (Some resp) (be_end_block c) st'
      else (st, case response of Some r \<Rightarrow> Inr r | None \<Rightarrow> Inl EmptyChain))"
  by pat_completeness auto
termination
  by (relation "measure (\<lambda>(E, _, _, pos, _). fe_total_blocks E - pos)")
    (auto dest!: try_candidates_mem [OF sym] simp: candidates_at_iff covers_def)

declare forward_from.simps [simp del]

definition forward_through_chain ::
    "('p, 'w) forward_env \<Rightarrow> inference_request \<Rightarrow> ('p, 'w) forward_state
      \<Rightarrow> ('p, 'w) forward_state \<times> (forward_error + inference_response)" where
  "forward_through_chain E first_request st = forward_from E first_request None 0 st"

section \<open>One step of the loop\<close>

lemma forward_from_done:
  "fe_total_blocks E \<le> pos \<Longrightarrow>
     forward_from E request response pos st = (st, case response of Some r \<Rightarrow> Inr r | None \<Rightarrow> Inl EmptyChain)"
  by (subst forward_from.simps) simp

lemma forward_from_step:
  "pos < fe_total_blocks E \<Longrightarrow> forward_from E request response pos st =
     (if candidates_at E (fs_failed st) pos = [] then (st, Inl (NoServer pos))
      else case try_candidates E request (candidates_at E (fs_failed st) pos) st of
        (st', None) \<Rightarrow> (st', Inl (AllFailed (length (candidates_at E (fs_failed st) pos)) pos))
      | (st', Some (c, resp)) \<Rightarrow>
          forward_from E (next_request E (be_end_block c) resp request) (Some resp) (be_end_block c) st')"
  by (subst forward_from.simps) (simp add: Let_def)

text \<open>The loop as a relation: the hops that answer, one after the other, until an outcome.\<close>

inductive forward_run ::
    "('p, 'w) forward_env \<Rightarrow> inference_request \<Rightarrow> inference_response option \<Rightarrow> nat \<Rightarrow> ('p, 'w) forward_state
      \<Rightarrow> ('p, 'w) forward_state \<Rightarrow> forward_error + inference_response \<Rightarrow> bool" for E where
  finished: "fe_total_blocks E \<le> pos \<Longrightarrow>
    forward_run E request response pos st st (case response of Some r \<Rightarrow> Inr r | None \<Rightarrow> Inl EmptyChain)"
| gap: "pos < fe_total_blocks E \<Longrightarrow> candidates_at E (fs_failed st) pos = [] \<Longrightarrow>
    forward_run E request response pos st st (Inl (NoServer pos))"
| stuck: "pos < fe_total_blocks E \<Longrightarrow> candidates_at E (fs_failed st) pos \<noteq> [] \<Longrightarrow>
    try_candidates E request (candidates_at E (fs_failed st) pos) st = (st', None) \<Longrightarrow>
    forward_run E request response pos st st' (Inl (AllFailed (length (candidates_at E (fs_failed st) pos)) pos))"
| hop: "pos < fe_total_blocks E \<Longrightarrow>
    try_candidates E request (candidates_at E (fs_failed st) pos) st = (st', Some (c, resp)) \<Longrightarrow>
    forward_run E (next_request E (be_end_block c) resp request) (Some resp) (be_end_block c) st' st'' r \<Longrightarrow>
    forward_run E request response pos st st'' r"

inductive_cases forward_runE: "forward_run E request response pos st st' r"

lemma forward_from_run:
  "forward_from E request response pos st = (st', r) \<Longrightarrow> forward_run E request response pos st st' r"
proof (induction E request response pos st rule: forward_from.induct)
  case (1 E request response pos st)
  let ?cs = "candidates_at E (fs_failed st) pos"
  show ?case
  proof (cases "pos < fe_total_blocks E")
    case False
    with "1.prems" show ?thesis by (auto simp: forward_from_done intro: forward_run.finished)
  next
    case pos: True
    show ?thesis
    proof (cases "?cs = []")
      case True
      with pos "1.prems" show ?thesis by (auto simp: forward_from_step intro: forward_run.gap)
    next
      case False
      obtain st1 o1 where t: "try_candidates E request ?cs st = (st1, o1)" by fastforce
      show ?thesis
      proof (cases o1)
        case None
        with pos False t "1.prems" show ?thesis by (auto simp: forward_from_step intro: forward_run.stuck)
      next
        case (Some cr)
        then obtain c resp where cr: "o1 = Some (c, resp)" by (cases cr) auto
        with pos False t "1.prems"
        have "forward_from E (next_request E (be_end_block c) resp request) (Some resp) (be_end_block c) st1 = (st', r)"
          by (simp add: forward_from_step)
        with "1.IH" [OF pos refl False t [symmetric] cr refl] cr show ?thesis
          using forward_run.hop [OF pos] t by (simp add: next_request_def)
      qed
    qed
  qed
qed

section \<open>Hops\<close>

fun hop_path :: "nat \<Rightarrow> nat \<Rightarrow> hop_timing list \<Rightarrow> bool" where
  "hop_path N pos [] \<longleftrightarrow> N \<le> pos"
| "hop_path N pos ((name, s, e, ms) # hs) \<longleftrightarrow> pos < N \<and> s \<le> pos \<and> pos < e \<and> hop_path N e hs"

lemma try_candidates_hops:
  "try_candidates E request cs st = (st', out) \<Longrightarrow>
     (case out of None \<Rightarrow> fs_hops st' = fs_hops st
      | Some (c, resp) \<Rightarrow> \<exists>ms. fs_hops st' = fs_hops st @ [(be_public_name c, be_start_block c, be_end_block c, ms)])"
proof (induction cs arbitrary: st)
  case (Cons c cs)
  obtain w r where d: "dispatch E c request (fs_world st) = (w, r)" by fastforce
  show ?case
  proof (cases r)
    case (Inl e)
    with Cons.prems d have "try_candidates E request cs
        (st\<lparr>fs_world := w, fs_calls := Suc (fs_calls st),
            fs_reputation := map_option (observe E c (fs_calls st) False) (fs_reputation st),
            fs_failed := blacklist e (be_peer_id c) (fs_failed st)\<rparr>) = (st', out)"
      by (simp add: Let_def)
    from Cons.IH [OF this] show ?thesis by (auto split: option.splits)
  next
    case (Inr resp)
    with Cons.prems d show ?thesis by (auto simp: Let_def)
  qed
qed auto

lemma forward_run_hops:
  "forward_run E request response pos st st' r \<Longrightarrow> r = Inr resp \<Longrightarrow>
     \<exists>hs. fs_hops st' = fs_hops st @ hs \<and> hop_path (fe_total_blocks E) pos hs"
proof (induction rule: forward_run.induct)
  case (hop pos request st st' c resp' st'' r response)
  obtain ms where "fs_hops st' = fs_hops st @ [(be_public_name c, be_start_block c, be_end_block c, ms)]"
    using try_candidates_hops [OF hop.hyps(2)] by auto
  moreover have "covers c pos" using try_candidates_mem [OF hop.hyps(2)] by (simp add: candidates_at_iff)
  moreover obtain hs where "fs_hops st'' = fs_hops st' @ hs" "hop_path (fe_total_blocks E) (be_end_block c) hs"
    using hop by blast
  ultimately show ?case
    using hop.hyps(1)
    by (intro exI [of _ "(be_public_name c, be_start_block c, be_end_block c, ms) # hs"]) (simp add: covers_def)
qed auto

section \<open>Blacklisting and reliability\<close>

definition reliable :: "('p, 'w) forward_env \<Rightarrow> 'p block_server_entry \<Rightarrow> bool" where
  "reliable E c \<longleftrightarrow> (\<forall>request w. \<exists>w' resp. dispatch E c request w = (w', Inr resp))"

text \<open>An error that costs the peer its place: not transient, or a missing handler.\<close>

definition fatal_error :: "string \<Rightarrow> bool" where
  "fatal_error e \<longleftrightarrow> str_contains ''protocols not supported'' e \<or> \<not> hop_transient e"

lemma set_blacklist: "set (blacklist e p failed) = (if fatal_error e then insert p (set failed) else set failed)"
  by (simp add: blacklist_def fatal_error_def)

lemma dispatch_peer: "be_peer_id c = be_peer_id d \<Longrightarrow> dispatch E c = dispatch E d"
  by (rule ext)+ (simp add: dispatch_def)

lemma try_candidates_failed:
  assumes "try_candidates E request cs st = (st', out)"
  shows "set (fs_failed st) \<subseteq> set (fs_failed st') \<and>
    (\<forall>p \<in> set (fs_failed st') - set (fs_failed st).
       \<exists>c \<in> set cs. be_peer_id c = p \<and> (\<exists>w w' e. dispatch E c request w = (w', Inl e) \<and> fatal_error e))"
  using assms
proof (induction cs arbitrary: st)
  case (Cons c cs)
  obtain w r where d: "dispatch E c request (fs_world st) = (w, r)" by fastforce
  show ?case
  proof (cases r)
    case (Inl e)
    let ?st = "st\<lparr>fs_world := w, fs_calls := Suc (fs_calls st),
      fs_reputation := map_option (observe E c (fs_calls st) False) (fs_reputation st),
      fs_failed := blacklist e (be_peer_id c) (fs_failed st)\<rparr>"
    have "try_candidates E request cs ?st = (st', out)" using Cons.prems d Inl by (simp add: Let_def)
    note IH = Cons.IH [OF this]
    have step: "set (fs_failed ?st) = (if fatal_error e then insert (be_peer_id c) (set (fs_failed st)) else set (fs_failed st))"
      by (simp add: set_blacklist)
    show ?thesis
    proof (intro conjI ballI)
      show "set (fs_failed st) \<subseteq> set (fs_failed st')" using IH step by (auto split: if_splits)
      fix p assume p: "p \<in> set (fs_failed st') - set (fs_failed st)"
      show "\<exists>c \<in> set (c # cs). be_peer_id c = p \<and> (\<exists>w w' e. dispatch E c request w = (w', Inl e) \<and> fatal_error e)"
      proof (cases "p \<in> set (fs_failed ?st)")
        case True
        with step p have "fatal_error e" "be_peer_id c = p" by (auto split: if_splits)
        with d Inl show ?thesis by auto
      next
        case False
        with IH p have "\<exists>c \<in> set cs. be_peer_id c = p \<and> (\<exists>w w' e. dispatch E c request w = (w', Inl e) \<and> fatal_error e)"
          by blast
        then show ?thesis by auto
      qed
    qed
  next
    case (Inr resp)
    with Cons.prems d show ?thesis by (auto simp: Let_def)
  qed
qed simp

lemma reliable_not_failed:
  assumes "try_candidates E request cs st = (st', out)" "reliable E c" "be_peer_id c \<notin> set (fs_failed st)"
  shows "be_peer_id c \<notin> set (fs_failed st')"
proof
  assume "be_peer_id c \<in> set (fs_failed st')"
  with try_candidates_failed [OF assms(1)] assms(3) obtain d w w' e where
    "be_peer_id d = be_peer_id c" "dispatch E d request w = (w', Inl e)" by blast
  with dispatch_peer [of d c E] have "dispatch E c request w = (w', Inl e)" by simp
  with assms(2) show False unfolding reliable_def by (metis Inl_Inr_False prod.inject)
qed

lemma try_candidates_reliable:
  "c \<in> set cs \<Longrightarrow> reliable E c \<Longrightarrow> \<exists>st' d resp. try_candidates E request cs st = (st', Some (d, resp))"
proof (induction cs arbitrary: st)
  case (Cons x cs)
  obtain w r where d: "dispatch E x request (fs_world st) = (w, r)" by fastforce
  show ?case
  proof (cases r)
    case (Inl e)
    have "x \<noteq> c" using Cons.prems(2) d Inl unfolding reliable_def by (metis Inl_Inr_False prod.inject)
    with Cons.prems have "c \<in> set cs" by auto
    from Cons.IH [OF this Cons.prems(2)] d Inl show ?thesis by (simp add: Let_def)
  next
    case (Inr resp)
    with d show ?thesis by (simp add: Let_def)
  qed
qed simp

lemma forward_run_live:
  "forward_run E request response pos st st' r \<Longrightarrow>
     (\<And>b. b < fe_total_blocks E \<Longrightarrow>
        \<exists>c \<in> set (fe_chain E). covers c b \<and> reliable E c \<and> be_peer_id c \<notin> set (fs_failed st)) \<Longrightarrow>
     pos < fe_total_blocks E \<or> response \<noteq> None \<Longrightarrow> \<exists>resp. r = Inr resp"
proof (induction rule: forward_run.induct)
  case (finished pos request response st)
  then show ?case by auto
next
  case (gap pos st request response)
  then show ?case using candidates_at_iff by (metis empty_iff list.set(1))
next
  case (stuck pos st request st' response)
  then obtain c where "c \<in> set (candidates_at E (fs_failed st) pos)" "reliable E c"
    using candidates_at_iff by metis
  from try_candidates_reliable [OF this, of request st] stuck.hyps(3) show ?case by simp
next
  case (hop pos request st st' c resp st'' r response)
  show ?case
  proof (rule hop.IH)
    fix b assume "b < fe_total_blocks E"
    with hop.prems(1) reliable_not_failed [OF hop.hyps(2)]
    show "\<exists>c \<in> set (fe_chain E). covers c b \<and> reliable E c \<and> be_peer_id c \<notin> set (fs_failed st')" by blast
  qed simp
qed

section \<open>Properties\<close>

text \<open>
  C14: An answered request has crossed the whole model. When forwarding returns a response,
  the hops it recorded, in order, start at block 0, each covers the block where the one
  before it ended, and the last reaches the end of the model.
\<close>

theorem forward_covers_model:
  assumes "forward_through_chain E request st = (st', Inr resp)"
  shows "\<exists>hs. fs_hops st' = fs_hops st @ hs \<and> hop_path (fe_total_blocks E) 0 hs"
  using forward_run_hops [OF forward_from_run [OF assms [unfolded forward_through_chain_def]] refl] .

text \<open>
  C13: A request is answered whenever it can be: if every block of a non-empty model is
  covered by a server that is not blacklisted and whose calls always succeed, forwarding
  ends with a response, whatever the other servers do.
\<close>

theorem forward_answers:
  assumes "0 < fe_total_blocks E"
    and "\<And>b. b < fe_total_blocks E \<Longrightarrow>
      \<exists>c \<in> set (fe_chain E). covers c b \<and> reliable E c \<and> be_peer_id c \<notin> set (fs_failed st)"
  shows "\<exists>st' resp. forward_through_chain E request st = (st', Inr resp)"
proof -
  obtain st' r where f: "forward_through_chain E request st = (st', r)" by fastforce
  have "\<exists>resp. r = Inr resp"
    using forward_run_live [OF forward_from_run [OF f [unfolded forward_through_chain_def]]] assms by blast
  with f show ?thesis by blast
qed

text \<open>
  Blacklisting is justified and permanent within the session: one position's attempts
  never remove a peer from the blacklist, and a peer is added only after one of its calls
  failed with an error that names an unsupported protocol or is not one of the transient
  stream errors.
\<close>

theorem blacklist_justified:
  assumes "try_candidates E request cs st = (st', out)"
  shows "set (fs_failed st) \<subseteq> set (fs_failed st') \<and>
    (\<forall>p \<in> set (fs_failed st') - set (fs_failed st).
       \<exists>c \<in> set cs. be_peer_id c = p \<and> (\<exists>w w' e. dispatch E c request w = (w', Inl e) \<and> fatal_error e))"
  by (rule try_candidates_failed [OF assms])

text \<open>Instances: peer 9 always fails, peer 8 always answers; both serve the whole model.\<close>

definition ok_response :: inference_response where
  "ok_response = \<lparr>ir_session_id = 7, ir_response_type = Logits, ir_shape = [], ir_data = [5], ir_error = None\<rparr>"

definition flaky_env :: "(nat, unit) forward_env" where
  "flaky_env = \<lparr>fe_chain = [demo_entry 9 0 2, demo_entry 8 0 2], fe_total_blocks = 2, fe_session_id = 7, fe_seq_pos = 0,
     fe_our_peer_id = None, fe_local_port = None,
     fe_call = (\<lambda>p _ w. if p = 9 then (w, Inl ''boom'') else (w, Inr ok_response)),
     fe_local_call = (\<lambda>_ _ w. (w, Inl [])), fe_hop_ms = (\<lambda>_. Fin 3), fe_now_secs = (\<lambda>_. 0), fe_base58 = (\<lambda>_. ''B'')\<rparr>"

definition flaky_state :: "(nat, unit) forward_state" where
  "flaky_state = \<lparr>fs_world = (), fs_failed = [], fs_hops = [], fs_reputation = None, fs_calls = 0\<rparr>"

definition flaky_request :: inference_request where
  "flaky_request = \<lparr>iq_session_id = 7, iq_seq_pos = 0, iq_payload_type = TokenIds, iq_shape = [], iq_data = []\<rparr>"

lemma flaky_dispatch:
  "dispatch flaky_env (demo_entry 9 0 2) r w = (w, Inl ''boom'')"
  "dispatch flaky_env (demo_entry 8 0 2) r w = (w, Inr ok_response)"
  by (simp_all add: dispatch_def flaky_env_def)

lemma flaky_candidates: "candidates_at flaky_env [] 0 = [demo_entry 9 0 2, demo_entry 8 0 2]"
  by (simp add: candidates_at_def flaky_env_def sort_by_def candidate_cmp_def demo_entry_def covers_def ord_cmp_def)

lemma flaky_try:
  "try_candidates flaky_env flaky_request [demo_entry 9 0 2, demo_entry 8 0 2] flaky_state =
     (flaky_state\<lparr>fs_failed := [9], fs_hops := [(''node'', 0, 2, Fin 3)], fs_calls := 2\<rparr>, Some (demo_entry 8 0 2, ok_response))"
  by (simp add: flaky_dispatch flaky_state_def blacklist_def hop_transient_def starts_with_def)
    (simp add: flaky_env_def demo_entry_def)

lemma flaky_forward:
  "forward_through_chain flaky_env flaky_request flaky_state =
     (flaky_state\<lparr>fs_failed := [9], fs_hops := [(''node'', 0, 2, Fin 3)], fs_calls := 2\<rparr>, Inr ok_response)"
proof -
  have N: "fe_total_blocks flaky_env = 2" "fs_failed flaky_state = []" by (simp_all add: flaky_env_def flaky_state_def)
  then show ?thesis
    by (simp add: forward_through_chain_def forward_from_step forward_from_done flaky_candidates flaky_try
        del: try_candidates.simps)
qed

theorem forward_covers_model_witness:
  "hop_path 2 0 (fs_hops (fst (forward_through_chain flaky_env flaky_request flaky_state)))"
proof -
  have "fe_total_blocks flaky_env = 2" by (simp add: flaky_env_def)
  with forward_covers_model [OF flaky_forward] show ?thesis
    unfolding flaky_forward by (simp add: flaky_state_def)
qed

theorem forward_answers_witness:
  "\<exists>st' resp. forward_through_chain flaky_env flaky_request flaky_state = (st', Inr resp)"
proof (rule forward_answers)
  show "\<exists>c \<in> set (fe_chain flaky_env). covers c b \<and> reliable flaky_env c \<and> be_peer_id c \<notin> set (fs_failed flaky_state)"
    if "b < fe_total_blocks flaky_env" for b
  proof (rule bexI [of _ "demo_entry 8 0 2"])
    show "covers (demo_entry 8 0 2) b \<and> reliable flaky_env (demo_entry 8 0 2) \<and>
        be_peer_id (demo_entry 8 0 2) \<notin> set (fs_failed flaky_state)"
      using that by (simp add: reliable_def flaky_dispatch flaky_state_def) (simp add: flaky_env_def)
  qed (simp add: flaky_env_def)
qed (simp add: flaky_env_def)

theorem blacklist_justified_witness:
  "\<exists>c w w' e. be_peer_id c = 9 \<and> dispatch flaky_env c flaky_request w = (w', Inl e) \<and> fatal_error e"
proof -
  have "9 \<in> set (fs_failed (flaky_state\<lparr>fs_failed := [9], fs_hops := [(''node'', 0, 2, Fin 3)], fs_calls := 2\<rparr>)) -
      set (fs_failed flaky_state)"
    by (simp add: flaky_state_def)
  with conjunct2 [OF blacklist_justified [OF flaky_try]] show ?thesis by blast
qed

end
