(* ===== verification/Shard_Pipeline.thy ===== *)
theory Shard_Pipeline
  imports Shard_Forward
begin

text \<open>
  A cluster of block servers as the world of \<open>forward_through_chain\<close>: a call to a peer runs
  that peer's request handler on its shard. The development's central statement is here:
  servers whose ranges follow one another without gap or overlap compute, token after
  token, what one node with the whole model computes, because the caches of a session in
  the servers, put together, are the cache of the session in the single node.
\<close>

section \<open>The cluster\<close>

type_synonym ('p, 'kv) cluster = "('p, 'kv transformer_shard) hashmap"

definition cluster_rpc ::
    "rpc_codec \<Rightarrow> ('t, 'kv) tensor_ops \<Rightarrow> nat \<Rightarrow> 'p \<Rightarrow> bytes \<Rightarrow> ('p, 'kv) cluster \<Rightarrow> ('p, 'kv) cluster \<times> (string + bytes)" where
  "cluster_rpc C M now p bs w =
     (case hm_get w p of
        None \<Rightarrow> (w, Inl ''no route to peer'')
      | Some sh \<Rightarrow>
          (case block_rpc_handler C M now bs (Some sh) of
             (Some sh', r) \<Rightarrow> (hm_insert p sh' w, r)
           | (None, r) \<Rightarrow> (w, r)))"

definition cluster_env ::
    "rpc_codec \<Rightarrow> ('t, 'kv) tensor_ops \<Rightarrow> nat \<Rightarrow> nat \<Rightarrow> 'p block_server_entry list \<Rightarrow> inference_request
      \<Rightarrow> ('p, ('p, 'kv) cluster) forward_env" where
  "cluster_env C M now N chain req =
     \<lparr>fe_chain = chain, fe_total_blocks = N, fe_session_id = iq_session_id req, fe_seq_pos = iq_seq_pos req,
      fe_our_peer_id = None, fe_local_port = None,
      fe_call = (\<lambda>p. call_block_forward C (cluster_rpc C M now p)), fe_local_call = (\<lambda>_ _ w. (w, Inl '''')),
      fe_hop_ms = (\<lambda>_. Fin 0), fe_now_secs = (\<lambda>_. 0), fe_base58 = (\<lambda>_. '''')\<rparr>"

text \<open>What MessagePack documents, and what half-precision conversion does to tensors that are
  already half precision.\<close>

definition rpc_codec_ok :: "rpc_codec \<Rightarrow> bool" where
  "rpc_codec_ok C \<longleftrightarrow> (\<forall>r. \<exists>bs. rc_enc_req C r = Inr bs \<and> rc_dec_req C bs = Inr r) \<and>
     (\<forall>r. \<exists>bs. rc_enc_res C r = Inr bs \<and> rc_dec_res C bs = Inr r)"

text \<open>Half precision represents every tensor of the computation: a tensor made of its elements and its dimensions is
  the tensor again.\<close>

definition f16_lossless :: "('t, 'kv) tensor_ops \<Rightarrow> bool" where
  "f16_lossless M \<longleftrightarrow>
     (\<forall>x. (\<exists>vs. tp_f16 M x = Inr vs \<and> tp_from_vec M vs (tp_dims M x) = Inr x) \<and> (\<forall>d \<in> set (tp_dims M x). d < 2 ^ 32))"

lemma f16_losslessE:
  assumes "f16_lossless M"
  obtains shape data where "tensor_to_f16_bytes M x = Inr (shape, data)" "f16_bytes_to_tensor M data shape = Inr x"
  using assms tensor_roundtrip [of M x] unfolding f16_lossless_def by metis

section \<open>Ranges and caches\<close>

text \<open>The ranges follow one another from block \<open>a\<close> to block \<open>N\<close>.\<close>

fun tiles :: "nat \<Rightarrow> nat \<Rightarrow> 'p block_server_entry list \<Rightarrow> bool" where
  "tiles N a [] \<longleftrightarrow> a = N"
| "tiles N a (e # es) \<longleftrightarrow> be_start_block e = a \<and> a < be_end_block e \<and> tiles N (be_end_block e) es"

definition serves :: "('p, 'kv) cluster \<Rightarrow> nat \<Rightarrow> 'p block_server_entry \<Rightarrow> bool" where
  "serves w N e \<longleftrightarrow> (\<exists>sh. hm_get w (be_peer_id e) = Some sh \<and> shard_ok sh \<and>
     ts_start_block sh = be_start_block e \<and> ts_end_block sh = be_end_block e \<and> ts_total_blocks sh = N)"

definition entry_kv :: "u64 \<Rightarrow> ('p, 'kv) cluster \<Rightarrow> 'p block_server_entry \<Rightarrow> 'kv option list" where
  "entry_kv sid w e = (case hm_get w (be_peer_id e) of Some sh \<Rightarrow> session_kv sid sh | None \<Rightarrow> [])"

definition joint_kv :: "u64 \<Rightarrow> ('p, 'kv) cluster \<Rightarrow> 'p block_server_entry list \<Rightarrow> 'kv option list" where
  "joint_kv sid w es = concat (map (entry_kv sid w) es)"

lemma tiles_le: "tiles N a es \<Longrightarrow> a \<le> N"
  by (induction es arbitrary: a) (auto intro: order_trans less_imp_le)

lemma tiles_bounds: "tiles N a es \<Longrightarrow> e \<in> set es \<Longrightarrow> a \<le> be_start_block e \<and> be_start_block e < be_end_block e \<and> be_end_block e \<le> N"
proof (induction es arbitrary: a)
  case (Cons x es)
  then show ?case using tiles_le [of N "be_end_block x" es] by fastforce
qed simp

lemma tiles_append: "tiles N a (es @ fs) \<Longrightarrow> \<exists>b. tiles b a es \<and> tiles N b fs"
  by (induction es arbitrary: a) auto

text \<open>Exactly one server covers the block where the next one starts.\<close>

lemma tiles_unique:
  assumes "tiles N a (es @ e # fs)"
  shows "filter (\<lambda>x. covers x (be_start_block e)) (es @ e # fs) = [e]"
proof -
  obtain b where b: "tiles b a es" "tiles N b (e # fs)" using tiles_append [OF assms] by blast
  have "\<not> covers x (be_start_block e)" if "x \<in> set es" for x
    using tiles_bounds [OF b(1) that] b(2) by (auto simp: covers_def)
  moreover have "\<not> covers x (be_start_block e)" if "x \<in> set fs" for x
    using tiles_bounds [of N "be_end_block e" fs x] that b(2) by (auto simp: covers_def)
  ultimately show ?thesis using b(2) by (simp add: covers_def filter_empty_conv)
qed

section \<open>One server\<close>

text \<open>The tensor a request carries.\<close>

definition payload_tensor :: "('t, 'kv) tensor_ops \<Rightarrow> inference_request \<Rightarrow> 't option" where
  "payload_tensor M req =
     (case iq_payload_type req of
        TokenIds \<Rightarrow> (case bytes_to_token_ids (iq_data req) of
            Inl _ \<Rightarrow> None
          | Inr ids \<Rightarrow> (case tp_embed M ids of Inl _ \<Rightarrow> None | Inr x \<Rightarrow> Some x))
      | HiddenStates \<Rightarrow> (case f16_bytes_to_tensor M (iq_data req) (iq_shape req) of
            Inl _ \<Rightarrow> None | Inr x \<Rightarrow> Some x))"

lemma serve_payload_eq:
  assumes "payload_tensor M req = Some x" "iq_payload_type req = TokenIds \<longrightarrow> is_first sh"
  shows "serve_payload M now req sh =
    (case run_blocks M now x (unat (iq_seq_pos req)) (iq_session_id req) sh of
       (sh', Inl e) \<Rightarrow> (sh', Inl e)
     | (sh', Inr y) \<Rightarrow> (sh', if is_last sh then tp_head M y else Inr y))"
  using assms
  by (auto simp: payload_tensor_def serve_payload_def Let_def forward_full_def forward_first_def
      forward_last_def forward_middle_def split: payload_type.splits sum.splits prod.splits)

text \<open>A call to a server whose run and head succeed.\<close>

lemma cluster_call_ok:
  assumes C: "rpc_codec_ok C" and sh: "hm_get w p = Some sh"
    and x: "payload_tensor M req = Some x" "iq_payload_type req = TokenIds \<longrightarrow> is_first sh"
    and run: "run_loop M (ts_start_block sh) (unat (iq_seq_pos req)) x (session_kv (iq_session_id req) sh) = (kv', Inr y)"
    and out: "(if is_last sh then tp_head M y else Inr y) = Inr z" "tensor_to_f16_bytes M z = Inr (shape, data)"
  shows "call_block_forward C (cluster_rpc C M now p) req w =
    (hm_insert p (sh\<lparr>ts_sessions := hm_insert (iq_session_id req) \<lparr>ks_kv = kv', ks_last_access = now\<rparr> (ts_sessions sh)\<rparr>) w,
     Inr \<lparr>ir_session_id = iq_session_id req, ir_response_type = (if is_last sh then Logits else ResponseHidden),
          ir_shape = shape, ir_data = data, ir_error = None\<rparr>)"
proof -
  obtain bs where bs: "rc_enc_req C req = Inr bs" "rc_dec_req C bs = Inr req"
    using C unfolding rpc_codec_ok_def by blast
  define resp where "resp = \<lparr>ir_session_id = iq_session_id req,
    ir_response_type = (if is_last sh then Logits else ResponseHidden), ir_shape = shape, ir_data = data, ir_error = None\<rparr>"
  obtain rs where rs: "rc_enc_res C resp = Inr rs" "rc_dec_res C rs = Inr resp"
    using C unfolding rpc_codec_ok_def by blast
  have "handle_inference_request C M now bs sh =
      (sh\<lparr>ts_sessions := hm_insert (iq_session_id req) \<lparr>ks_kv = kv', ks_last_access = now\<rparr> (ts_sessions sh)\<rparr>, Inr resp)"
    using bs out by (simp add: handle_inference_request_def serve_payload_eq [OF x] run_blocks_eq run resp_def)
  then have "cluster_rpc C M now p bs w =
      (hm_insert p (sh\<lparr>ts_sessions := hm_insert (iq_session_id req) \<lparr>ks_kv = kv', ks_last_access = now\<rparr> (ts_sessions sh)\<rparr>) w, Inr rs)"
    by (simp add: cluster_rpc_def sh block_rpc_handler_def rs)
  then show ?thesis
    using rs by (simp add: call_block_forward_def bs call_attempts.simps resp_def)
qed

text \<open>The shard after a run.\<close>

definition with_session :: "u64 \<Rightarrow> nat \<Rightarrow> 'kv option list \<Rightarrow> 'kv transformer_shard \<Rightarrow> 'kv transformer_shard" where
  "with_session sid now kv sh =
     sh\<lparr>ts_sessions := hm_insert sid \<lparr>ks_kv = kv, ks_last_access = now\<rparr> (ts_sessions sh)\<rparr>"

lemma with_session_simps [simp]:
  "ts_start_block (with_session sid now kv sh) = ts_start_block sh"
  "ts_end_block (with_session sid now kv sh) = ts_end_block sh"
  "ts_total_blocks (with_session sid now kv sh) = ts_total_blocks sh"
  "num_blocks (with_session sid now kv sh) = num_blocks sh"
  "session_kv sid' (with_session sid now kv sh) = (if sid' = sid then kv else session_kv sid' sh)"
  by (simp_all add: with_session_def num_blocks_def session_kv_def split: option.split)

lemma shard_ok_with_session:
  "shard_ok sh \<Longrightarrow> length kv = num_blocks sh \<Longrightarrow> shard_ok (with_session sid now kv sh)"
  by (auto simp: shard_ok_def with_session_def num_blocks_def split: if_splits)

lemma joint_kv_cong:
  "(\<And>e. e \<in> set es \<Longrightarrow> hm_get w (be_peer_id e) = hm_get w' (be_peer_id e)) \<Longrightarrow> joint_kv sid w es = joint_kv sid w' es"
  by (auto simp: joint_kv_def entry_kv_def intro!: arg_cong [of _ _ concat])

lemma serves_cong: "hm_get w (be_peer_id e) = hm_get w' (be_peer_id e) \<Longrightarrow> serves w N e = serves w' N e"
  by (simp add: serves_def)

lemma sort_by_single [simp]: "sort_by cmp [x] = [x]"
  by (simp add: sort_by_def)

section \<open>The hop of one server\<close>

text \<open>Where one server only covers the position it is the only candidate, and its answer is
  the one of its handler, which runs all its blocks.\<close>

lemma cluster_hop:
  assumes C: "rpc_codec_ok C" and E: "E = cluster_env C M now N chain req0"
    and ids: "iq_session_id req = sid" "iq_seq_pos req = sp"
    and only: "filter (\<lambda>x. covers x pos) chain = [e]" "pos < N" and nf: "be_peer_id e \<notin> set (fs_failed st)"
    and sh: "hm_get (fs_world st) (be_peer_id e) = Some sh" "ts_start_block sh = be_start_block e"
    and x: "payload_tensor M req = Some x" "iq_payload_type req = TokenIds \<longrightarrow> be_start_block e = 0"
    and run: "run_loop M (be_start_block e) (unat sp) x (session_kv sid sh) = (kv', Inr y)"
    and out: "(if is_last sh then tp_head M y else Inr y) = Inr z" "tensor_to_f16_bytes M z = Inr (shape, data)"
  obtains st' where "forward_from E req r pos st =
      forward_from E (next_request E (be_end_block e)
          \<lparr>ir_session_id = sid, ir_response_type = (if is_last sh then Logits else ResponseHidden),
           ir_shape = shape, ir_data = data, ir_error = None\<rparr> req)
        (Some \<lparr>ir_session_id = sid, ir_response_type = (if is_last sh then Logits else ResponseHidden),
           ir_shape = shape, ir_data = data, ir_error = None\<rparr>) (be_end_block e) st'"
    "fs_world st' = hm_insert (be_peer_id e) (with_session sid now kv' sh) (fs_world st)"
    "fs_failed st' = fs_failed st"
proof -
  have pos: "pos < fe_total_blocks E" using only(2) by (simp add: E cluster_env_def)
  have cand: "candidates_at E (fs_failed st) pos = [e]"
    using only(1) nf by (simp add: candidates_at_def E cluster_env_def)
  have first: "iq_payload_type req = TokenIds \<longrightarrow> is_first sh" using x(2) sh(2) by (simp add: is_first_def)
  have run': "run_loop M (ts_start_block sh) (unat (iq_seq_pos req)) x (session_kv (iq_session_id req) sh) = (kv', Inr y)"
    using run ids sh(2) by simp
  have d: "dispatch E e req (fs_world st) =
      (hm_insert (be_peer_id e) (with_session sid now kv' sh) (fs_world st),
       Inr \<lparr>ir_session_id = sid, ir_response_type = (if is_last sh then Logits else ResponseHidden),
            ir_shape = shape, ir_data = data, ir_error = None\<rparr>)"
    using cluster_call_ok [OF C sh(1) x(1) first run' out, of now] ids
    by (simp add: dispatch_def E cluster_env_def with_session_def)
  let ?st = "st\<lparr>fs_world := hm_insert (be_peer_id e) (with_session sid now kv' sh) (fs_world st),
    fs_calls := Suc (fs_calls st), fs_reputation := map_option (observe E e (fs_calls st) True) (fs_reputation st),
    fs_hops := fs_hops st @ [(be_public_name e, be_start_block e, be_end_block e, fe_hop_ms E (fs_calls st))]\<rparr>"
  show thesis
    by (rule that [of ?st]) (use d in \<open>simp_all add: forward_from_step [OF pos] cand Let_def\<close>)
qed

section \<open>The rest of the chain\<close>

definition logits_response :: "u64 \<Rightarrow> u32 list \<Rightarrow> bytes \<Rightarrow> inference_response" where
  "logits_response sid shape data =
     \<lparr>ir_session_id = sid, ir_response_type = Logits, ir_shape = shape, ir_data = data, ir_error = None\<rparr>"

lemma forward_suffix:
  assumes C: "rpc_codec_ok C" and F: "f16_lossless M"
    and E: "E = cluster_env C M now N (es @ fs) req0" "iq_session_id req0 = sid" "iq_seq_pos req0 = sp"
    and t: "tiles N 0 (es @ fs)" "tiles N a fs" "fs \<noteq> []" "distinct (map be_peer_id (es @ fs))"
    and srv: "\<forall>e \<in> set fs. serves (fs_world st) N e" "\<forall>e \<in> set fs. be_peer_id e \<notin> set (fs_failed st)"
    and req: "iq_session_id req = sid" "iq_seq_pos req = sp" "payload_tensor M req = Some x"
      "iq_payload_type req = TokenIds \<longrightarrow> a = 0"
    and run: "run_loop M a (unat sp) x (joint_kv sid (fs_world st) fs) = (kvs, Inr y)"
    and out: "tp_head M y = Inr z" "tensor_to_f16_bytes M z = Inr (shape, data)"
  shows "\<exists>st'. forward_from E req r a st = (st', Inr (logits_response sid shape data)) \<and>
    fs_failed st' = fs_failed st \<and> joint_kv sid (fs_world st') fs = kvs \<and>
    (\<forall>e \<in> set fs. serves (fs_world st') N e) \<and>
    (\<forall>sid'. sid' \<noteq> sid \<longrightarrow> joint_kv sid' (fs_world st') fs = joint_kv sid' (fs_world st) fs) \<and>
    (\<forall>p. p \<notin> be_peer_id ` set fs \<longrightarrow> hm_get (fs_world st') p = hm_get (fs_world st) p)"
  using E(1) t srv req run
proof (induction fs arbitrary: es a x req r st kvs)
  case (Cons e fs)
  obtain sh where sh: "hm_get (fs_world st) (be_peer_id e) = Some sh" "shard_ok sh"
    "ts_start_block sh = be_start_block e" "ts_end_block sh = be_end_block e" "ts_total_blocks sh = N"
    using Cons.prems(6) by (auto simp: serves_def)
  have a: "a = be_start_block e" "a < be_end_block e" "tiles N (be_end_block e) fs" using Cons.prems(3) by auto
  have len: "a + length (session_kv sid sh) = be_end_block e"
    using a(1,2) sh length_session_kv [OF sh(2), of sid] by (simp add: num_blocks_def)
  have kv: "joint_kv sid (fs_world st) (e # fs) = session_kv sid sh @ joint_kv sid (fs_world st) fs"
    by (simp add: joint_kv_def entry_kv_def sh(1))
  from Cons.prems(12) [unfolded kv run_loop_append]
  obtain cs y1 ds where cs: "run_loop M a (unat sp) x (session_kv sid sh) = (cs, Inr y1)"
    and ds: "run_loop M (be_end_block e) (unat sp) y1 (joint_kv sid (fs_world st) fs) = (ds, Inr y)"
    and kvs: "kvs = cs @ ds"
    unfolding len by (auto split: prod.splits sum.splits)
  have lcs: "length cs = num_blocks sh"
    using length_run_loop [of M a "unat sp" x "session_kv sid sh"] cs length_session_kv [OF sh(2), of sid] by simp
  have last: "is_last sh \<longleftrightarrow> fs = []"
    using a(3) sh(4,5) tiles_le by (cases fs) (fastforce simp: is_last_def)+
  have first: "iq_payload_type req = TokenIds \<longrightarrow> be_start_block e = 0" using Cons.prems(11) a(1) by simp
  have nf: "be_peer_id e \<notin> set (fs_failed st)" using Cons.prems(7) by simp
  have d: "be_peer_id e \<notin> be_peer_id ` set fs" using Cons.prems(5) by auto
  have only: "filter (\<lambda>x. covers x a) (es @ e # fs) = [e]" "a < N"
    using tiles_unique [OF Cons.prems(2)] tiles_bounds [OF Cons.prems(2), of e] a(1) by simp_all
  show ?case
  proof (cases "fs = []")
    case True
    then have "ds = []" "y1 = y" "be_end_block e = N" using ds a(3) by (simp_all add: joint_kv_def)
    then have o: "(if is_last sh then tp_head M y1 else Inr y1) = Inr z" using last True out(1) by simp
    obtain st' where st': "forward_from E req r a st = forward_from E
          (next_request E (be_end_block e) (logits_response sid shape data) req) (Some (logits_response sid shape data)) N st'"
      "fs_world st' = hm_insert (be_peer_id e) (with_session sid now cs sh) (fs_world st)" "fs_failed st' = fs_failed st"
      using cluster_hop [OF C Cons.prems(1) Cons.prems(8,9) only nf sh(1,3) Cons.prems(10) first
          cs [unfolded a(1)] o out(2), of r] last True \<open>be_end_block e = N\<close> a(1)
      by (auto simp: logits_response_def)
    then show ?thesis
      using True kvs \<open>ds = []\<close> sh lcs Cons.prems(1)
      by (intro exI [of _ st'])
        (auto simp: forward_from_done cluster_env_def joint_kv_def entry_kv_def serves_def shard_ok_with_session)
  next
    case False
    then have nl: "\<not> is_last sh" and lt: "be_end_block e < N"
      using last a(3) tiles_le by (cases fs; fastforce)+
    obtain s1 d1 where f16: "tensor_to_f16_bytes M y1 = Inr (s1, d1)" "f16_bytes_to_tensor M d1 s1 = Inr y1"
      by (rule f16_losslessE [OF F])
    let ?resp = "\<lparr>ir_session_id = sid, ir_response_type = ResponseHidden, ir_shape = s1, ir_data = d1, ir_error = None\<rparr>"
    let ?req = "\<lparr>iq_session_id = sid, iq_seq_pos = sp, iq_payload_type = HiddenStates, iq_shape = s1, iq_data = d1\<rparr>"
    have o: "(if is_last sh then tp_head M y1 else Inr y1) = Inr y1" using nl by simp
    have nr: "next_request E (be_end_block e) ?resp req = ?req"
      using lt Cons.prems(1) E(2,3) by (simp add: next_request_def cluster_env_def)
    obtain st1 where st1: "forward_from E req r a st = forward_from E ?req (Some ?resp) (be_end_block e) st1"
      "fs_world st1 = hm_insert (be_peer_id e) (with_session sid now cs sh) (fs_world st)" "fs_failed st1 = fs_failed st"
      using cluster_hop [OF C Cons.prems(1) Cons.prems(8,9) only nf sh(1,3) Cons.prems(10) first
          cs [unfolded a(1)] o f16(1), of r] nl a(1) nr by auto
    have same: "hm_get (fs_world st1) (be_peer_id f) = hm_get (fs_world st) (be_peer_id f)" if "f \<in> set fs" for f
    proof -
      have "be_peer_id f \<noteq> be_peer_id e" using d that by (metis imageI)
      then show ?thesis by (simp add: st1(2))
    qed
    have pt: "payload_tensor M ?req = Some y1"
      using f16 by (simp add: payload_tensor_def)
    have jk: "joint_kv s (fs_world st1) fs = joint_kv s (fs_world st) fs" for s using same by (rule joint_kv_cong)
    have "\<exists>st'. forward_from E ?req (Some ?resp) (be_end_block e) st1 = (st', Inr (logits_response sid shape data)) \<and>
        fs_failed st' = fs_failed st1 \<and> joint_kv sid (fs_world st') fs = ds \<and>
        (\<forall>e \<in> set fs. serves (fs_world st') N e) \<and>
        (\<forall>sid'. sid' \<noteq> sid \<longrightarrow> joint_kv sid' (fs_world st') fs = joint_kv sid' (fs_world st1) fs) \<and>
        (\<forall>p. p \<notin> be_peer_id ` set fs \<longrightarrow> hm_get (fs_world st') p = hm_get (fs_world st1) p)"
      by (rule Cons.IH [of "es @ [e]"])
        (use Cons.prems a(3) False same serves_cong [OF same] st1(3) pt ds jk in auto)
    then obtain st' where st': "forward_from E ?req (Some ?resp) (be_end_block e) st1 = (st', Inr (logits_response sid shape data))"
      "fs_failed st' = fs_failed st1" "joint_kv sid (fs_world st') fs = ds" "\<forall>e \<in> set fs. serves (fs_world st') N e"
      "\<forall>sid'. sid' \<noteq> sid \<longrightarrow> joint_kv sid' (fs_world st') fs = joint_kv sid' (fs_world st1) fs"
      "\<forall>p. p \<notin> be_peer_id ` set fs \<longrightarrow> hm_get (fs_world st') p = hm_get (fs_world st1) p" by blast
    have e': "hm_get (fs_world st') (be_peer_id e) = Some (with_session sid now cs sh)"
      using st'(6) d st1(2) by simp
    have cons: "joint_kv s w' (e # fs) = entry_kv s w' e @ joint_kv s w' fs" for s w' by (simp add: joint_kv_def)
    show ?thesis
      using st' st1 e' kvs sh lcs jk
      by (intro exI [of _ st']) (auto simp: cons entry_kv_def serves_def shard_ok_with_session)
  qed
qed simp

section \<open>A single node with the whole model\<close>

definition single_answer ::
    "rpc_codec \<Rightarrow> ('t, 'kv) tensor_ops \<Rightarrow> nat \<Rightarrow> inference_request \<Rightarrow> 'kv transformer_shard
      \<Rightarrow> 'kv transformer_shard \<times> (string + inference_response)" where
  "single_answer C M now req F =
     (case rc_enc_req C req of Inl e \<Rightarrow> (F, Inl e) | Inr bs \<Rightarrow> handle_inference_request C M now bs F)"

text \<open>The cluster and the single node have the same caches, session by session.\<close>

definition same_caches :: "nat \<Rightarrow> 'p block_server_entry list \<Rightarrow> ('p, 'kv) cluster \<Rightarrow> 'kv transformer_shard \<Rightarrow> bool" where
  "same_caches N es w F \<longleftrightarrow> shard_ok F \<and> ts_start_block F = 0 \<and> ts_end_block F = N \<and> ts_total_blocks F = N \<and>
     (\<forall>e \<in> set es. serves w N e) \<and> (\<forall>sid. session_kv sid F = joint_kv sid w es)"

lemma single_answer_Inr:
  assumes "rpc_codec_ok C" "iq_payload_type req = TokenIds" "ts_start_block F = 0" "ts_end_block F = ts_total_blocks F"
    and "single_answer C M now req F = (F', Inr resp)"
  obtains x kvs y z shape data where "payload_tensor M req = Some x"
    "run_loop M 0 (unat (iq_seq_pos req)) x (session_kv (iq_session_id req) F) = (kvs, Inr y)"
    "tp_head M y = Inr z" "tensor_to_f16_bytes M z = Inr (shape, data)"
    "resp = logits_response (iq_session_id req) shape data" "F' = with_session (iq_session_id req) now kvs F"
proof -
  obtain bs where bs: "rc_enc_req C req = Inr bs" "rc_dec_req C bs = Inr req"
    using assms(1) unfolding rpc_codec_ok_def by blast
  have fl: "is_first F" "is_last F" using assms(3,4) by (simp_all add: is_first_def is_last_def)
  have h: "handle_inference_request C M now bs F = (F', Inr resp)" using assms(5) bs by (simp add: single_answer_def)
  obtain x where x: "payload_tensor M req = Some x"
    using h assms(2) bs fl
    by (auto simp: handle_inference_request_def serve_payload_def payload_tensor_def Let_def forward_full_def
        split: sum.splits prod.splits)
  obtain kvs r where run: "run_loop M 0 (unat (iq_seq_pos req)) x (session_kv (iq_session_id req) F) = (kvs, r)" by fastforce
  have sp: "serve_payload M now req F = (with_session (iq_session_id req) now kvs F,
      case r of Inl e \<Rightarrow> Inl e | Inr y \<Rightarrow> tp_head M y)"
    using fl run assms(3) by (simp add: serve_payload_eq [OF x] run_blocks_eq with_session_def split: sum.split)
  obtain y z where "r = Inr y" "tp_head M y = Inr z"
    using h bs sp by (auto simp: handle_inference_request_def split: sum.splits)
  moreover obtain shape data where "tensor_to_f16_bytes M z = Inr (shape, data)"
    using h bs sp calculation by (auto simp: handle_inference_request_def split: sum.splits)
  ultimately show thesis
    using h bs sp fl(2) run x that by (simp add: handle_inference_request_def logits_response_def)
qed

lemma distributed_step:
  assumes C: "rpc_codec_ok C" and F16: "f16_lossless M" and t: "tiles N 0 es" "0 < N"
    and d: "distinct (map be_peer_id es)" "\<forall>e \<in> set es. be_peer_id e \<notin> set (fs_failed st)"
    and same: "same_caches N es (fs_world st) F" and ty: "iq_payload_type req = TokenIds"
    and F: "single_answer C M now req F = (F', Inr resp)"
  shows "\<exists>st'. forward_through_chain (cluster_env C M now N es req) req st = (st', Inr resp) \<and>
    fs_failed st' = fs_failed st \<and> same_caches N es (fs_world st') F'"
proof -
  have Fb: "shard_ok F" "ts_start_block F = 0" "ts_end_block F = N" "ts_total_blocks F = N"
    and kv: "\<And>sid. session_kv sid F = joint_kv sid (fs_world st) es" and srv: "\<forall>e \<in> set es. serves (fs_world st) N e"
    using same by (auto simp: same_caches_def)
  let ?sid = "iq_session_id req" and ?sp = "iq_seq_pos req"
  obtain x kvs y z shape data where r: "payload_tensor M req = Some x"
    "run_loop M 0 (unat ?sp) x (session_kv ?sid F) = (kvs, Inr y)"
    "tp_head M y = Inr z" "tensor_to_f16_bytes M z = Inr (shape, data)" "resp = logits_response ?sid shape data"
    "F' = with_session ?sid now kvs F"
    using single_answer_Inr [OF C ty Fb(2) _ F] Fb by metis
  have ne: "es \<noteq> []" using t by auto
  have "\<exists>st'. forward_from (cluster_env C M now N es req) req None 0 st = (st', Inr (logits_response ?sid shape data)) \<and>
      fs_failed st' = fs_failed st \<and> joint_kv ?sid (fs_world st') es = kvs \<and> (\<forall>e \<in> set es. serves (fs_world st') N e) \<and>
      (\<forall>sid'. sid' \<noteq> ?sid \<longrightarrow> joint_kv sid' (fs_world st') es = joint_kv sid' (fs_world st) es) \<and>
      (\<forall>p. p \<notin> be_peer_id ` set es \<longrightarrow> hm_get (fs_world st') p = hm_get (fs_world st) p)"
    using forward_suffix [OF C F16, of "cluster_env C M now N es req" now N "[]" es req ?sid ?sp 0 st req x kvs y z shape data None]
      t ne d srv r kv by simp
  moreover have "length kvs = num_blocks F"
    using length_run_loop [of M 0 "unat ?sp" x "session_kv ?sid F"] r(2) length_session_kv [OF Fb(1), of ?sid] by simp
  ultimately show ?thesis
    using Fb kv r(5,6) by (auto simp: forward_through_chain_def same_caches_def shard_ok_with_session)
qed

section \<open>Sequences of requests\<close>

text \<open>A run stops at the first request that fails; it gives the final state with the answers.\<close>

fun single_run ::
    "rpc_codec \<Rightarrow> ('t, 'kv) tensor_ops \<Rightarrow> (nat \<times> inference_request) list \<Rightarrow> 'kv transformer_shard
      \<Rightarrow> 'kv transformer_shard \<times> (string + inference_response list)" where
  "single_run C M [] F = (F, Inr [])"
| "single_run C M ((now, req) # reqs) F =
     (case single_answer C M now req F of
        (F', Inl e) \<Rightarrow> (F', Inl e)
      | (F', Inr resp) \<Rightarrow>
          (case single_run C M reqs F' of (F'', Inl e) \<Rightarrow> (F'', Inl e) | (F'', Inr rs) \<Rightarrow> (F'', Inr (resp # rs))))"

fun cluster_run ::
    "rpc_codec \<Rightarrow> ('t, 'kv) tensor_ops \<Rightarrow> nat \<Rightarrow> 'p block_server_entry list \<Rightarrow> (nat \<times> inference_request) list
      \<Rightarrow> ('p, ('p, 'kv) cluster) forward_state
      \<Rightarrow> ('p, ('p, 'kv) cluster) forward_state \<times> (forward_error + inference_response list)" where
  "cluster_run C M N es [] st = (st, Inr [])"
| "cluster_run C M N es ((now, req) # reqs) st =
     (case forward_through_chain (cluster_env C M now N es req) req st of
        (st', Inl e) \<Rightarrow> (st', Inl e)
      | (st', Inr resp) \<Rightarrow>
          (case cluster_run C M N es reqs st' of (st'', Inl e) \<Rightarrow> (st'', Inl e) | (st'', Inr rs) \<Rightarrow> (st'', Inr (resp # rs))))"

section \<open>Two servers\<close>

text \<open>Two servers, the second starting at or before the end \<open>b\<close> of the first: the second runs all its
  blocks on the output of the first.\<close>

lemma two_hop_forward:
  assumes C: "rpc_codec_ok C" and F16: "f16_lossless M" and ab: "0 < a" "a \<le> b" "b < N"
    and e: "be_start_block e1 = 0" "be_end_block e1 = b" "be_start_block e2 = a" "be_end_block e2 = N"
      "be_peer_id e1 \<noteq> be_peer_id e2" "be_peer_id e1 \<notin> set (fs_failed st)" "be_peer_id e2 \<notin> set (fs_failed st)"
    and sh: "hm_get (fs_world st) (be_peer_id e1) = Some s1" "ts_start_block s1 = 0" "ts_end_block s1 = b" "ts_total_blocks s1 = N"
      "hm_get (fs_world st) (be_peer_id e2) = Some s2" "ts_start_block s2 = a" "ts_end_block s2 = N" "ts_total_blocks s2 = N"
    and x: "payload_tensor M req = Some x"
    and run1: "run_loop M 0 (unat (iq_seq_pos req)) x (session_kv (iq_session_id req) s1) = (kv1, Inr y1)"
    and run2: "run_loop M a (unat (iq_seq_pos req)) y1 (session_kv (iq_session_id req) s2) = (kv2, Inr y2)"
    and out: "tp_head M y2 = Inr z" "tensor_to_f16_bytes M z = Inr (shape, data)"
  shows "snd (forward_through_chain (cluster_env C M now N [e1, e2] req) req st) =
      Inr (logits_response (iq_session_id req) shape data)"
proof -
  let ?E = "cluster_env C M now N [e1, e2] req" and ?sid = "iq_session_id req" and ?sp = "iq_seq_pos req"
  have cov: "covers e1 0" "\<not> covers e2 0" "\<not> covers e1 b" "covers e2 b" using ab e by (simp_all add: covers_def)
  have only: "filter (\<lambda>x. covers x 0) [e1, e2] = [e1]" "filter (\<lambda>x. covers x b) [e1, e2] = [e2]" "0 < N"
    using cov ab by simp_all
  have l: "\<not> is_last s1" "is_last s2" using sh ab by (simp_all add: is_last_def)
  obtain f1 d1 where f16: "tensor_to_f16_bytes M y1 = Inr (f1, d1)" "f16_bytes_to_tensor M d1 f1 = Inr y1"
    by (rule f16_losslessE [OF F16])
  let ?r1 = "\<lparr>ir_session_id = ?sid, ir_response_type = ResponseHidden, ir_shape = f1, ir_data = d1, ir_error = None\<rparr>"
  let ?q1 = "\<lparr>iq_session_id = ?sid, iq_seq_pos = ?sp, iq_payload_type = HiddenStates, iq_shape = f1, iq_data = d1\<rparr>"
  have nr: "next_request ?E b ?r1 req = ?q1" using ab by (simp add: next_request_def cluster_env_def)
  have o1: "(if is_last s1 then tp_head M y1 else Inr y1) = Inr y1" using l by simp
  obtain st1 where st1: "forward_from ?E req None 0 st = forward_from ?E ?q1 (Some ?r1) b st1"
    "fs_world st1 = hm_insert (be_peer_id e1) (with_session ?sid now kv1 s1) (fs_world st)" "fs_failed st1 = fs_failed st"
    using cluster_hop [OF C refl refl refl only(1,3) _ sh(1) _ x _ run1 [folded e(1)] o1 f16(1), where r = None and now = now and ?req0.0 = req] e sh l nr
    by auto
  have sh2: "hm_get (fs_world st1) (be_peer_id e2) = Some s2" using st1(2) e(5) sh(5) by simp
  have pt: "payload_tensor M ?q1 = Some y1" using f16 by (simp add: payload_tensor_def)
  have o2: "(if is_last s2 then tp_head M y2 else Inr y2) = Inr z" using l out(1) by simp
  have run2': "run_loop M (be_start_block e2) (unat ?sp) y1 (session_kv ?sid s2) = (kv2, Inr y2)" using run2 e(3) by simp
  obtain st2 where "forward_from ?E ?q1 (Some ?r1) b st1 =
      forward_from ?E (next_request ?E N (logits_response ?sid shape data) ?q1) (Some (logits_response ?sid shape data)) N st2"
    using cluster_hop [OF C refl _ _ only(2) ab(3) _ sh2 _ pt _ run2' o2 out(2), where r = "Some ?r1" and now = now and ?req0.0 = req] e sh l st1(3)
    by (auto simp: logits_response_def)
  then show ?thesis
    using st1(1) by (simp add: forward_through_chain_def forward_from_done cluster_env_def)
qed

section \<open>Properties\<close>

text \<open>
  C1: Distributed inference computes what a single node computes. Take servers with
  distinct peers whose block ranges follow one another from block 0 to the last block,
  and a node with the whole model whose caches agree with theirs. For every sequence of
  token requests, of any sessions interleaved, that the single node answers, forwarding
  each request through the servers gives the same responses, byte for byte, and afterwards the
  caches of the servers agree with those of the single node again, for every session; encoding is
  MessagePack's round trip, and hidden states are representable in half precision.
\<close>

theorem distributed_equals_single:
  assumes "rpc_codec_ok C" "f16_lossless M" "tiles N 0 es" "0 < N" "distinct (map be_peer_id es)"
    and "\<forall>e \<in> set es. be_peer_id e \<notin> set (fs_failed st)"
    and "same_caches N es (fs_world st) F"
    and "\<forall>(now, req) \<in> set reqs. iq_payload_type req = TokenIds"
    and "single_run C M reqs F = (F', Inr rs)"
  shows "\<exists>st'. cluster_run C M N es reqs st = (st', Inr rs) \<and> fs_failed st' = fs_failed st \<and> same_caches N es (fs_world st') F'"
  using assms(6-9)
proof (induction reqs arbitrary: st F rs)
  case (Cons q reqs)
  obtain now req where q: "q = (now, req)" by fastforce
  obtain F1 resp rs' where F1: "single_answer C M now req F = (F1, Inr resp)" "single_run C M reqs F1 = (F', Inr rs')" "rs = resp # rs'"
    using Cons.prems(4) by (auto simp: q split: prod.splits sum.splits)
  have ty: "iq_payload_type req = TokenIds" using Cons.prems(3) by (simp add: q)
  obtain st1 where st1: "forward_through_chain (cluster_env C M now N es req) req st = (st1, Inr resp)"
    "fs_failed st1 = fs_failed st" "same_caches N es (fs_world st1) F1"
    using distributed_step [OF assms(1-5) Cons.prems(1,2) ty F1(1)] by blast
  obtain st' where "cluster_run C M N es reqs st1 = (st', Inr rs')" "fs_failed st' = fs_failed st1" "same_caches N es (fs_world st') F'"
    using Cons.IH [OF _ st1(3) _ F1(2)] Cons.prems(1,3) st1(2) by auto
  with st1(1,2) F1(3) show ?case by (simp add: q)
qed simp

text \<open>
  Overlapping servers run blocks twice. With one server for blocks \<open>[0, b)\<close> and one for
  \<open>[a, N)\<close>, where \<open>0 < a \<le> b < N\<close>, the first hop runs blocks \<open>0..b-1\<close> and the second then
  runs all its blocks from \<open>a\<close> on, not from \<open>b\<close>: if \<open>a < b\<close>, blocks \<open>a..b-1\<close> are applied a
  second time to their own output, although the request is answered without an error.
\<close>

theorem overlap_runs_blocks_again:
  assumes C: "rpc_codec_ok C" and F16: "f16_lossless M" and ab: "0 < a" "a \<le> b" "b < N"
    and e: "be_start_block e1 = 0" "be_end_block e1 = b" "be_start_block e2 = a" "be_end_block e2 = N"
      "be_peer_id e1 \<noteq> be_peer_id e2" "fs_failed st = []"
    and sh: "hm_get (fs_world st) (be_peer_id e1) = Some s1" "ts_start_block s1 = 0" "ts_end_block s1 = b" "ts_total_blocks s1 = N"
      "hm_get (fs_world st) (be_peer_id e2) = Some s2" "ts_start_block s2 = a" "ts_end_block s2 = N" "ts_total_blocks s2 = N"
    and x: "payload_tensor M req = Some x"
    and run1: "run_loop M 0 (unat (iq_seq_pos req)) x (session_kv (iq_session_id req) s1) = (kv1, Inr y1)"
    and run2: "run_loop M a (unat (iq_seq_pos req)) y1 (session_kv (iq_session_id req) s2) = (kv2, Inr y2)"
    and out: "tp_head M y2 = Inr z" "tensor_to_f16_bytes M z = Inr (shape, data)"
  shows "build_pinned_path [e1, e2] N [] = Inr [e1, e2] \<and>
    snd (forward_through_chain (cluster_env C M now N [e1, e2] req) req st) =
      Inr (logits_response (iq_session_id req) shape data)"
proof -
  have cov: "covers e1 0" "\<not> covers e2 0" "\<not> covers e1 b" "covers e2 b" using ab e by (simp_all add: covers_def)
  have "build_pinned_path [e1, e2] N [] = Inr [e1, e2]"
    using ab e cov by (simp add: build_pinned_path_def build_pinned_step build_pinned_done)
  then show ?thesis
    using two_hop_forward [OF C F16 ab e(1-5) _ _ sh x run1 run2 out] e(6) by simp
qed

section \<open>Instances\<close>

text \<open>A concrete encoding of the messages: fixed-width fields, lists with a unary length.\<close>

definition enc_list :: "('a \<Rightarrow> bytes) \<Rightarrow> 'a list \<Rightarrow> bytes" where
  "enc_list f xs = replicate (length xs) 1 @ [0] @ concat (map f xs)"

definition list_len :: "bytes \<Rightarrow> nat" where
  "list_len bs = length (takeWhile (\<lambda>b. b = 1) bs)"

definition dec_u32s :: "bytes \<Rightarrow> u32 list" where
  "dec_u32s bs = map u32_from_le_bytes (chunks4 (take (4 * list_len bs) (drop (Suc (list_len bs)) bs)))"

definition dec_chars :: "bytes \<Rightarrow> string" where
  "dec_chars bs = map (\<lambda>b. char_of (unat b)) (take (list_len bs) (drop (Suc (list_len bs)) bs))"

definition demo_codec :: rpc_codec where
  "demo_codec =
     \<lparr>rc_enc_req = (\<lambda>r. Inr (u64_to_be_bytes (iq_session_id r) @ u32_to_le_bytes (iq_seq_pos r) @
         [case iq_payload_type r of TokenIds \<Rightarrow> 0 | HiddenStates \<Rightarrow> 1] @ enc_list u32_to_le_bytes (iq_shape r) @ iq_data r)),
      rc_dec_req = (\<lambda>bs. let rest = drop 13 bs; n = list_len rest in
         Inr \<lparr>iq_session_id = u64_from_be_bytes (take 8 bs), iq_seq_pos = u32_from_le_bytes (take 4 (drop 8 bs)),
              iq_payload_type = (if bs ! 12 = 0 then TokenIds else HiddenStates),
              iq_shape = dec_u32s rest, iq_data = drop (5 * n + 1) rest\<rparr>),
      rc_enc_res = (\<lambda>r. Inr (u64_to_be_bytes (ir_session_id r) @
         [case ir_response_type r of ResponseHidden \<Rightarrow> 0 | Logits \<Rightarrow> 1] @ [if ir_error r = None then 0 else 1] @
         enc_list (\<lambda>c. [word_of_nat (of_char c)]) (unwrap_or (ir_error r) []) @
         enc_list u32_to_le_bytes (ir_shape r) @ ir_data r)),
      rc_dec_res = (\<lambda>bs. let rest = drop 10 bs; m = list_len rest; rest2 = drop (2 * m + 1) rest; n = list_len rest2 in
         Inr \<lparr>ir_session_id = u64_from_be_bytes (take 8 bs),
              ir_response_type = (if bs ! 8 = 0 then ResponseHidden else Logits),
              ir_shape = dec_u32s rest2, ir_data = drop (5 * n + 1) rest2,
              ir_error = (if bs ! 9 = 0 then None else Some (dec_chars rest))\<rparr>)\<rparr>"

lemma list_len_enc [simp]: "list_len (enc_list f xs @ rest) = length xs"
proof -
  have "takeWhile (\<lambda>b. b = 1) (replicate n 1 @ 0 # ys) = replicate n (1 :: u8)" for n ys
    by (induction n) simp_all
  then show ?thesis by (simp add: list_len_def enc_list_def)
qed

lemma drop_enc [simp]: "drop (Suc (length xs)) (enc_list f xs) = concat (map f xs)"
  by (simp add: enc_list_def)

lemma length_concat_const: "(\<And>x. x \<in> set xs \<Longrightarrow> length (f x) = k) \<Longrightarrow> length (concat (map f xs)) = k * length xs"
  by (induction xs) (simp_all add: algebra_simps)

lemma length_enc_u32 [simp]: "length (enc_list u32_to_le_bytes xs) = Suc (5 * length xs)"
  using length_concat_const [of xs u32_to_le_bytes 4] by (simp add: enc_list_def)

lemma length_enc_chars [simp]:
  "length (enc_list (\<lambda>c :: char. [word_of_nat (of_char c) :: u8]) cs) = Suc (2 * length cs)"
  using length_concat_const [of cs "\<lambda>c. [word_of_nat (of_char c)]" 1] by (simp add: enc_list_def)

lemma dec_u32s_enc [simp]: "dec_u32s (enc_list u32_to_le_bytes xs @ rest) = xs"
proof -
  have "chunks4 (concat (map u32_to_le_bytes xs)) = map u32_to_le_bytes xs"
    by (induction xs) (simp_all add: chunks4_append)
  moreover have "length (concat (map u32_to_le_bytes xs)) = 4 * length xs" by (rule length_concat_const) simp
  ultimately show ?thesis by (simp add: dec_u32s_def comp_def)
qed

lemma dec_chars_enc [simp]: "dec_chars (enc_list (\<lambda>c. [word_of_nat (of_char c)]) cs @ rest) = cs"
proof -
  have c: "concat (map (\<lambda>c. [word_of_nat (of_char c)]) cs) = map (\<lambda>c. word_of_nat (of_char c) :: u8) cs"
    by (induction cs) simp_all
  have "char_of (unat (word_of_nat (of_char c) :: u8)) = c" for c :: char by simp
  then show ?thesis by (simp add: dec_chars_def c comp_def)
qed

lemma demo_codec_ok: "rpc_codec_ok demo_codec"
proof -
  have "rc_dec_req demo_codec bs = Inr r" if "rc_enc_req demo_codec r = Inr bs" for r bs
    using that by (cases r) (auto simp: demo_codec_def Let_def nth_append simp del: drop_drop split: payload_type.splits)
  moreover have "rc_dec_res demo_codec bs = Inr r" if "rc_enc_res demo_codec r = Inr bs" for r bs
    using that by (cases r) (auto simp: demo_codec_def Let_def nth_append unwrap_or_def simp del: drop_drop
        split: response_type.splits option.splits if_splits)
  moreover have "\<exists>bs. rc_enc_req demo_codec r = Inr bs" "\<exists>bs. rc_enc_res demo_codec r' = Inr bs" for r r'
    by (simp_all add: demo_codec_def)
  ultimately show ?thesis unfolding rpc_codec_ok_def by blast
qed

text \<open>Tensors that record the blocks applied to them.\<close>

definition log_ops :: "(bytes, unit) tensor_ops" where
  "log_ops = \<lparr>tp_embed = (\<lambda>_. Inr []), tp_block = (\<lambda>g x _ _. (Some (), Inr (x @ [word_of_nat g]))),
     tp_head = Inr, tp_dims = (\<lambda>_. []), tp_f16 = (\<lambda>x. Inr (map ucast x)), tp_from_vec = (\<lambda>vs _. Inr (map ucast vs))\<rparr>"

lemma log_ops_simps:
  "tp_block log_ops g x p c = (Some (), Inr (x @ [word_of_nat g]))" "tp_head log_ops x = Inr x"
  by (simp_all add: log_ops_def)

lemma ucast_u16: "ucast (ucast b :: u16) = (b :: u8)"
  by transfer simp

lemma u16_bytes_ucast: "u16_to_le_bytes (ucast (b :: u8)) = [b, 0]"
proof -
  have two: "(2 :: nat) = Suc (Suc 0)" by simp
  have "unat (ucast b :: u16) = unat b" by transfer (simp add: nat_take_bit_eq min_def)
  moreover have "unat b < 256" using unsigned_less [of b, where ?'a = nat] by simp
  ultimately show ?thesis unfolding u16_to_le_bytes_def two by simp
qed

lemma log_ops_lossless: "f16_lossless log_ops"
  by (simp add: f16_lossless_def log_ops_def comp_def ucast_u16)

lemma log_ops_wire:
  "tensor_to_f16_bytes log_ops x = Inr ([], concat (map (\<lambda>b. [b, 0]) x))"
  "f16_bytes_to_tensor log_ops (concat (map (\<lambda>b. [b, 0]) x)) [] = Inr x"
proof -
  show enc: "tensor_to_f16_bytes log_ops x = Inr ([], concat (map (\<lambda>b. [b, 0]) x))"
    by (simp add: tensor_to_f16_bytes_def log_ops_def comp_def u16_bytes_ucast)
  obtain s d where "tensor_to_f16_bytes log_ops x = Inr (s, d)" "f16_bytes_to_tensor log_ops d s = Inr x"
    by (rule f16_losslessE [OF log_ops_lossless])
  then show "f16_bytes_to_tensor log_ops (concat (map (\<lambda>b. [b, 0]) x)) [] = Inr x" using enc by simp
qed

definition demo_shard :: "nat \<Rightarrow> nat \<Rightarrow> nat \<Rightarrow> 'kv transformer_shard" where
  "demo_shard a b N = \<lparr>ts_start_block = a, ts_end_block = b, ts_total_blocks = N, ts_sessions = []\<rparr>"

definition demo_state :: "(nat, 'kv) cluster \<Rightarrow> (nat, (nat, 'kv) cluster) forward_state" where
  "demo_state w = \<lparr>fs_world = w, fs_failed = [], fs_hops = [], fs_reputation = None, fs_calls = 0\<rparr>"

definition demo_request :: inference_request where
  "demo_request = \<lparr>iq_session_id = 7, iq_seq_pos = 0, iq_payload_type = TokenIds, iq_shape = [1], iq_data = [42, 0, 0, 0]\<rparr>"

lemma demo_shard_simps [simp]:
  "shard_ok (demo_shard a b N) \<longleftrightarrow> a \<le> b \<and> b \<le> N" "session_kv sid (demo_shard a b N) = replicate (b - a) None"
  "ts_start_block (demo_shard a b N) = a" "ts_end_block (demo_shard a b N) = b" "ts_total_blocks (demo_shard a b N) = N"
  by (auto simp: shard_ok_def demo_shard_def session_kv_def num_blocks_def hm_get_def)

lemma demo_payload: "payload_tensor log_ops demo_request = Some []"
  by (simp add: payload_tensor_def demo_request_def bytes_to_token_ids_def log_ops_def)

lemma demo_single:
  "single_run demo_codec log_ops [(5, demo_request)] (demo_shard 0 2 2) =
     (with_session 7 5 [Some (), Some ()] (demo_shard 0 2 2), Inr [logits_response 7 [] [0, 0, 1, 0]])"
proof -
  obtain bs where bs: "rc_enc_req demo_codec demo_request = Inr bs" "rc_dec_req demo_codec bs = Inr demo_request"
    using demo_codec_ok unfolding rpc_codec_ok_def by blast
  then show ?thesis
    by (simp add: single_answer_def handle_inference_request_def serve_payload_eq [OF demo_payload] run_blocks_eq
        is_first_def is_last_def two_zeros)
      (simp add: log_ops_simps log_ops_wire demo_request_def logits_response_def with_session_def)
qed

theorem distributed_equals_single_witness:
  "\<exists>st'. cluster_run demo_codec log_ops 2 [demo_entry 1 0 1, demo_entry 2 1 2] [(5, demo_request)]
     (demo_state [(1, demo_shard 0 1 2), (2, demo_shard 1 2 2)]) = (st', Inr [logits_response 7 [] [0, 0, 1, 0]]) \<and>
     fs_failed st' = fs_failed (demo_state [(1, demo_shard 0 1 2), (2, demo_shard 1 2 2)]) \<and>
     same_caches 2 [demo_entry 1 0 1, demo_entry 2 1 2] (fs_world st') (with_session 7 5 [Some (), Some ()] (demo_shard 0 2 2))"
proof -
  have "same_caches 2 [demo_entry 1 0 1, demo_entry 2 1 2]
      (fs_world (demo_state [(1, demo_shard 0 1 2), (2, demo_shard 1 2 2)])) (demo_shard 0 2 2)"
    by (simp add: same_caches_def serves_def joint_kv_def entry_kv_def demo_state_def hm_get_def two_zeros)
  then show ?thesis
    using distributed_equals_single [OF demo_codec_ok log_ops_lossless _ _ _ _ _ _ demo_single,
        of 2 "[demo_entry 1 0 1, demo_entry 2 1 2]" "demo_state [(1, demo_shard 0 1 2), (2, demo_shard 1 2 2)]"]
    by (simp add: demo_state_def demo_request_def)
qed

theorem overlap_runs_blocks_again_witness:
  "snd (forward_through_chain (cluster_env demo_codec log_ops 5 3 [demo_entry 1 0 2, demo_entry 2 1 3] demo_request)
      demo_request (demo_state [(1, demo_shard 0 2 3), (2, demo_shard 1 3 3)])) =
   Inr (logits_response 7 [] [0, 0, 1, 0, 1, 0, 2, 0])"
proof -
  let ?st = "demo_state [(1, demo_shard 0 2 3), (2, demo_shard 1 3 3)]"
  have r1: "run_loop log_ops 0 (unat (iq_seq_pos demo_request)) [] (session_kv (iq_session_id demo_request) (demo_shard 0 2 3)) =
      ([Some (), Some ()], Inr [0, 1])"
    by (simp add: two_zeros) (simp add: log_ops_def)
  have r2: "run_loop log_ops 1 (unat (iq_seq_pos demo_request)) [0, 1] (session_kv (iq_session_id demo_request) (demo_shard 1 3 3)) =
      ([Some (), Some ()], Inr [0, 1, 1, 2])"
    by (simp add: two_zeros) (simp add: log_ops_def)
  have o: "tp_head log_ops [0, 1, 1, 2] = Inr [0, 1, 1, 2]"
    "tensor_to_f16_bytes log_ops [0, 1, 1, 2] = Inr ([], [0, 0, 1, 0, 1, 0, 2, 0])"
    by (simp_all add: log_ops_wire) (simp add: log_ops_def)
  have "build_pinned_path [demo_entry 1 0 2, demo_entry 2 1 3] 3 [] = Inr [demo_entry 1 0 2, demo_entry 2 1 3] \<and>
      snd (forward_through_chain (cluster_env demo_codec log_ops 5 3 [demo_entry 1 0 2, demo_entry 2 1 3] demo_request)
        demo_request ?st) = Inr (logits_response (iq_session_id demo_request) [] [0, 0, 1, 0, 1, 0, 2, 0])"
    by (rule overlap_runs_blocks_again [OF demo_codec_ok log_ops_lossless _ _ _ _ _ _ _ _ _ _ _ _ _ _ _ _ _ demo_payload r1 r2 o])
      (simp_all add: demo_state_def hm_get_def)
  then show ?thesis by (simp add: demo_request_def)
qed

end
