(* ===== verification/Sampling.thy ===== *)
theory Sampling
  imports Rust_Order
begin

text \<open>
  Choosing the next token (\<open>sample_token\<close>, \<open>rand_f32\<close> and \<open>rand_session_id\<close> of
  \<open>kwaai-cli/src/shard_cmd.rs\<close>). Logits are the flattened \<open>f32\<close> vector; the exponential of the
  mathematical library and the clock readings are arguments. An empty vector makes the indexing
  at the end panic: \<open>None\<close>.

  Lemmas: greedy decoding returns a maximum; sampling returns a token of the top-k and of the
  nucleus; the random number never exceeds one half; session ids are injective in the clock and
  in the process id.
\<close>

unbundle bit_operations_syntax

section \<open>The program\<close>

definition scale_logits :: "f32 \<Rightarrow> f32 list \<Rightarrow> f32 list" where
  "scale_logits temperature vals =
     (if \<not> f64_eq temperature (Fin 1) \<and> f64_lt (Fin 0) temperature then map (\<lambda>v. f32_div v temperature) vals else vals)"

definition greedy_mode :: "f32 \<Rightarrow> nat \<Rightarrow> f32 \<Rightarrow> bool" where
  "greedy_mode temperature top_k top_p \<longleftrightarrow>
     (f64_le temperature (Fin 0) \<or> f64_eq temperature (Fin 1)) \<and> top_k = 0 \<and> f64_le (Fin 1) top_p"

definition argmax :: "f32 list \<Rightarrow> nat" where
  "argmax vals =
     unwrap_or (map_option fst
       (max_by (\<lambda>a b. unwrap_or (f64_partial_cmp (snd a) (snd b)) Equal) (zip [0..<length vals] vals))) 0"

definition softmax :: "(f32 \<Rightarrow> f32) \<Rightarrow> f32 list \<Rightarrow> f32 list" where
  "softmax f_exp vals =
     (let m = foldl f64_max NegInf vals;
          es = map (\<lambda>v. f_exp (f32_sub v m)) vals;
          s = f32_sum es
      in map (\<lambda>v. f32_div v s) es)"

definition ranked :: "f32 list \<Rightarrow> (f32 \<times> nat) list" where
  "ranked probs = sort_by (f64_desc fst) (zip probs [0..<length probs])"

text \<open>\<open>position\<close> with the running sum \<open>cumsum\<close> of the closure.\<close>

fun nucleus_position :: "f32 \<Rightarrow> f32 \<Rightarrow> (f32 \<times> nat) list \<Rightarrow> nat option" where
  "nucleus_position top_p cumsum [] = None"
| "nucleus_position top_p cumsum ((p, i) # rest) =
     (let cumsum' = f32_add cumsum p in
      if f64_le top_p cumsum' then Some 0 else map_option Suc (nucleus_position top_p cumsum' rest))"

fun draw :: "f32 \<Rightarrow> (f32 \<times> nat) list \<Rightarrow> nat option" where
  "draw rng [] = None"
| "draw rng ((p, i) # rest) =
     (let rng' = f32_sub rng p in if f64_le rng' (Fin 0) then Some i else draw rng' rest)"

definition sample_token ::
    "(f32 \<Rightarrow> f32) \<Rightarrow> f32 \<Rightarrow> f32 list \<Rightarrow> f32 \<Rightarrow> nat \<Rightarrow> f32 \<Rightarrow> nat option" where
  "sample_token f_exp rnd logits temperature top_k top_p =
     (let vals = scale_logits temperature logits; n = length logits in
      if greedy_mode temperature top_k top_p then Some (argmax vals)
      else
        let indexed = ranked (softmax f_exp vals);
            indexed1 = (if top_k > 0 \<and> top_k < n then take top_k indexed else indexed);
            indexed2 = (if f64_lt top_p (Fin 1)
                        then take (max (unwrap_or (map_option Suc (nucleus_position top_p (Fin 0) indexed1))
                                     (length indexed1)) 1) indexed1
                        else indexed1);
            rng = f32_mul rnd (f32_sum (map fst indexed2))
        in case draw rng indexed2 of
             Some i \<Rightarrow> Some i
           | None \<Rightarrow> map_option snd (vec_get indexed2 0))"

text \<open>\<open>ns\<close> is the sub-second part of the system time, or 42.\<close>

definition rand_f32 :: "u32 \<Rightarrow> f32" where
  "rand_f32 ns =
     (let shuffled = (ucast ns :: u64) * 6364136223846793005 + 1442695040888963407
      in f32_div (f32_of_nat (unat (ucast (drop_bit 33 shuffled :: u64) :: u32))) (f32_of_nat (2 ^ 32 - 1)))"

definition rand_session_id :: "u64 \<Rightarrow> u64 \<Rightarrow> u64" where
  "rand_session_id ns pid =
     (let x0 = ns XOR pid * 0x9e3779b97f4a7c15;
          x1 = (x0 XOR drop_bit 30 x0) * 0xbf58476d1ce4e5b9;
          x2 = (x1 XOR drop_bit 27 x1) * 0x94d049bb133111eb
      in x2 XOR drop_bit 31 x2)"

section \<open>Ranking and choice\<close>

lemma length_softmax [simp]: "length (softmax f_exp vals) = length vals"
  by (simp add: softmax_def Let_def)

lemma length_scale_logits [simp]: "length (scale_logits t vals) = length vals"
  by (simp add: scale_logits_def)

lemma length_ranked [simp]: "length (ranked probs) = length probs"
  by (simp add: ranked_def)

lemma ranked_mem: "x \<in> set (ranked probs) \<longleftrightarrow> snd x < length probs \<and> fst x = probs ! snd x"
  by (cases x) (auto simp: ranked_def set_zip)

lemma ranked_nth: "m < length probs \<Longrightarrow> snd (ranked probs ! m) < length probs \<and> fst (ranked probs ! m) = probs ! snd (ranked probs ! m)"
  using ranked_mem [of "ranked probs ! m" probs] by simp

lemma mset_fst_ranked: "mset (map fst (ranked probs)) = mset probs"
proof -
  have "mset (map fst (ranked probs)) = image_mset fst (mset (zip probs [0..<length probs]))"
    by (simp add: ranked_def)
  also have "\<dots> = mset (map fst (zip probs [0..<length probs]))" by (simp only: mset_map)
  finally show ?thesis by simp
qed

lemma draw_mem: "draw rng xs = Some i \<Longrightarrow> \<exists>m < length xs. i = snd (xs ! m)"
proof (induction rng xs rule: draw.induct)
  case (2 rng p i' rest)
  then show ?case
    by (auto simp: Let_def split: if_splits)
qed simp

text \<open>The rank of an element bounds the number of greater probabilities.\<close>

lemma rank_bound:
  assumes "NaN \<notin> set probs" "m < length probs"
  shows "length (filter (\<lambda>q. f64_lt (fst (ranked probs ! m)) q) probs) \<le> m"
proof -
  let ?r = "ranked probs" and ?P = "\<lambda>q. f64_lt (fst (ranked probs ! m)) q"
  have nn: "set (zip probs [0..<length probs]) \<subseteq> {x. fst x \<noteq> NaN}"
    using assms(1) by (auto dest: set_zip_leftD)
  have sorted: "sorted_wrt (\<lambda>a b. f64_desc fst a b \<noteq> Greater) ?r"
    using f64_desc.sort_by_sorted [OF nn] by (simp add: ranked_def)
  have nr: "fst (?r ! j) \<noteq> NaN" if "j < length probs" for j
    using ranked_nth [OF that] assms(1) nth_mem by metis
  have "\<not> ?P (fst (?r ! j))" if "m \<le> j" "j < length probs" for j
  proof (cases "m = j")
    case False
    with that have "f64_desc fst (?r ! m) (?r ! j) \<noteq> Greater"
      using sorted_wrt_nth_less [OF sorted, of m j] by simp
    then have "f64_le (fst (?r ! j)) (fst (?r ! m))"
      using f64_desc_Greater [of fst "?r ! m" "?r ! j"] nr assms(2) that(2) by simp
    then show ?thesis using f64_not_lt [of "fst (?r ! m)" "fst (?r ! j)"] nr assms(2) that(2) by simp
  qed simp
  then have "filter ?P (map fst (drop m ?r)) = []"
    using assms(2) by (auto simp: filter_empty_conv in_set_conv_nth) (metis add.commute fst_conv le_add2 less_diff_conv)
  then have "filter ?P (map fst ?r) = filter ?P (map fst (take m ?r))"
    by (metis append.right_neutral append_take_drop_id filter_append map_append)
  then have "length (filter ?P (map fst ?r)) \<le> m"
    using length_filter_le [of ?P "map fst (take m ?r)"] by simp
  moreover have "length (filter ?P (map fst ?r)) = length (filter ?P probs)"
    by (metis mset_filter mset_fst_ranked size_mset)
  ultimately show ?thesis by simp
qed

text \<open>Everything the nucleus keeps before its last element has not reached \<open>top_p\<close>.\<close>

lemma nucleus_prefix:
  "m < unwrap_or (map_option Suc (nucleus_position top_p c xs)) (length xs) \<Longrightarrow> 0 < m \<Longrightarrow>
     \<not> f64_le top_p (foldl f32_add c (map fst (take m xs)))"
proof (induction top_p c xs arbitrary: m rule: nucleus_position.induct)
  case (2 top_p c p i rest)
  obtain k where k: "m = Suc k" using 2(3) by (cases m) auto
  show ?case
  proof (cases "f64_le top_p (f32_add c p)")
    case True
    with 2(2,3) show ?thesis by (simp add: Let_def unwrap_or_def)
  next
    case False
    then have "k < unwrap_or (map_option Suc (nucleus_position top_p (f32_add c p) rest)) (length rest)"
      using 2(2) k by (cases "nucleus_position top_p (f32_add c p) rest") (auto simp: Let_def unwrap_or_def)
    with 2(1) [OF refl False] False k show ?thesis by (cases "k = 0") auto
  qed
qed (simp add: unwrap_or_def)
section \<open>Greedy choice\<close>

lemma max_by_snoc:
  "max_by cmp (xs @ [y]) = Some (case max_by cmp xs of None \<Rightarrow> y | Some a \<Rightarrow> if cmp a y = Greater then a else y)"
  by (cases xs) (simp_all add: max_by_def)

lemma asc_Greater: "unwrap_or (f64_partial_cmp a b) Equal = Greater \<longleftrightarrow> f64_lt b a"
  using f64_lt_asym [of a b] by (auto simp: f64_partial_cmp_def unwrap_or_def)

lemma last_maximum:
  fixes xs :: "(nat \<times> f64) list"
  assumes "sorted_wrt (<) (map fst xs)" "\<forall>x \<in> set xs. snd x \<noteq> NaN"
    and "max_by (\<lambda>a b. unwrap_or (f64_partial_cmp (snd a) (snd b)) Equal) xs = Some (i, v)"
  shows "(i, v) \<in> set xs \<and> (\<forall>(j, w) \<in> set xs. f64_le w v \<and> (i < j \<longrightarrow> f64_lt w v))"
  using assms
proof (induction xs arbitrary: i v rule: rev_induct)
  case (snoc y xs)
  obtain j w where y: "y = (j, w)" by fastforce
  let ?cmp = "\<lambda>a b. unwrap_or (f64_partial_cmp (snd a) (snd b)) Equal"
  show ?case
  proof (cases "max_by ?cmp xs")
    case None
    with snoc.prems show ?thesis by (auto simp: max_by_snoc f64_le_refl)
  next
    case (Some a)
    obtain k u where a: "a = (k, u)" by fastforce
    have IH: "(k, u) \<in> set xs" "\<forall>(j, w) \<in> set xs. f64_le w u \<and> (k < j \<longrightarrow> f64_lt w u)"
      using snoc Some a by (auto simp: sorted_wrt_append)
    have nn: "u \<noteq> NaN" "w \<noteq> NaN" using snoc.prems(2) IH(1) y by auto
    show ?thesis
    proof (cases "f64_lt w u")
      case True
      with snoc.prems(3) Some a y have "i = k" "v = u" by (simp_all add: max_by_snoc asc_Greater)
      with IH True y show ?thesis by (auto simp: f64_le_def)
    next
      case False
      with snoc.prems(3) Some a y have iv: "i = j" "v = w" by (simp_all add: max_by_snoc asc_Greater)
      have uw: "f64_le u w" using False f64_not_lt [of w u] nn by simp
      have "f64_le w' w \<and> (j < j' \<longrightarrow> f64_lt w' w)" if "(j', w') \<in> set xs" for j' w'
      proof -
        have "j' < j" using snoc.prems(1) y that by (auto simp: sorted_wrt_append)
        moreover have "f64_le w' w" using IH(2) that uw f64_le_trans by blast
        ultimately show ?thesis by simp
      qed
      with iv y show ?thesis by (auto simp: f64_le_refl [OF nn(2)])
    qed
  qed
qed (simp add: max_by_def)

lemma argmax_correct:
  assumes "vals \<noteq> []" "NaN \<notin> set vals"
  shows "argmax vals < length vals \<and> (\<forall>j < length vals. f64_le (vals ! j) (vals ! argmax vals) \<and>
    (argmax vals < j \<longrightarrow> f64_lt (vals ! j) (vals ! argmax vals)))"
proof -
  let ?xs = "zip [0..<length vals] vals"
  obtain i v where iv: "max_by (\<lambda>a b. unwrap_or (f64_partial_cmp (snd a) (snd b)) Equal) ?xs = Some (i, v)"
    using assms(1) max_by_None by (metis (no_types, lifting) length_0_conv length_upt length_zip min.idem
        minus_nat.diff_0 not_Some_eq surj_pair)
  have "\<forall>x \<in> set ?xs. snd x \<noteq> NaN" using assms(2) by (auto dest: set_zip_rightD)
  then have *: "(i, v) \<in> set ?xs" "\<forall>(j, w) \<in> set ?xs. f64_le w v \<and> (i < j \<longrightarrow> f64_lt w v)"
    using last_maximum [OF _ _ iv] by auto
  have i: "i < length vals" "v = vals ! i" using *(1) by (auto simp: set_zip)
  have "(j, vals ! j) \<in> set ?xs" if "j < length vals" for j using that by (auto simp: set_zip intro!: exI [of _ j])
  with *(2) i show ?thesis using iv by (fastforce simp: argmax_def unwrap_or_def)
qed

section \<open>Properties\<close>

text \<open>
  Greedy decoding. Without temperature, top-k and top-p the sampler returns the last index at
  which the logits are maximal.
\<close>

theorem greedy_is_argmax:
  assumes "logits \<noteq> []" "NaN \<notin> set logits" "greedy_mode temperature top_k top_p"
  shows "\<exists>i < length logits. sample_token f_exp rnd logits temperature top_k top_p = Some i \<and>
    (\<forall>j < length logits. f64_le (logits ! j) (logits ! i) \<and> (i < j \<longrightarrow> f64_lt (logits ! j) (logits ! i)))"
proof -
  have "scale_logits temperature logits = logits"
    using assms(3) by (cases temperature) (auto simp: greedy_mode_def scale_logits_def f64_le_def)
  with argmax_correct [OF assms(1,2)] assms(3) show ?thesis
    by (intro exI [of _ "argmax logits"]) (simp add: sample_token_def)
qed

text \<open>
  C18: Sampling. Otherwise the sampler returns the token of some rank \<open>m\<close> in the order of
  decreasing probability (at most \<open>m\<close> tokens are more probable); the rank is below \<open>top_k\<close> when
  that is set, and the probabilities before the rank have not yet added up to \<open>top_p\<close>.
\<close>

theorem sample_in_nucleus:
  assumes "logits \<noteq> []" "\<not> greedy_mode temperature top_k top_p"
    and "probs = softmax f_exp (scale_logits temperature logits)"
  shows "\<exists>m i. sample_token f_exp rnd logits temperature top_k top_p = Some i \<and>
    i < length logits \<and> ranked probs ! m = (probs ! i, i) \<and> m < length logits \<and> (top_k = 0 \<or> m < top_k) \<and>
    (f64_lt top_p (Fin 1) \<longrightarrow> m = 0 \<or> \<not> f64_le top_p (f32_sum (map fst (take m (ranked probs))))) \<and>
    (NaN \<notin> set probs \<longrightarrow> length (filter (f64_lt (probs ! i)) probs) \<le> m)"
proof -
  let ?n = "length logits" and ?r = "ranked probs"
  have lp: "length probs = ?n" using assms(3) by simp
  define r1 where "r1 = (if top_k > 0 \<and> top_k < ?n then take top_k ?r else ?r)"
  define cut where "cut = unwrap_or (map_option Suc (nucleus_position top_p (Fin 0) r1)) (length r1)"
  define r2 where "r2 = (if f64_lt top_p (Fin 1) then take (max cut 1) r1 else r1)"
  have out: "sample_token f_exp rnd logits temperature top_k top_p =
      (case draw (f32_mul rnd (f32_sum (map fst r2))) r2 of Some i \<Rightarrow> Some i | None \<Rightarrow> map_option snd (vec_get r2 0))"
    using assms(2) unfolding sample_token_def Let_def r2_def cut_def r1_def assms(3) by simp
  have "?r \<noteq> []" using lp assms(1) length_ranked by (metis length_0_conv)
  then have l1: "0 < length r1" "length r1 \<le> ?n" "top_k = 0 \<or> length r1 \<le> top_k"
    using lp by (auto simp: r1_def)
  then have l2: "0 < length r2" "length r2 \<le> length r1" by (auto simp: r2_def)
  obtain m where m: "m < length r2" "sample_token f_exp rnd logits temperature top_k top_p = Some (snd (r2 ! m))"
  proof (cases "draw (f32_mul rnd (f32_sum (map fst r2))) r2")
    case None
    with l2(1) that [of 0] show thesis by (simp add: out vec_get_def)
  next
    case (Some i)
    with draw_mem [OF Some] that show thesis by (auto simp: out)
  qed
  have "take (length (take k xs)) xs = take k xs" for k and xs :: "(f32 \<times> nat) list"
    by (metis append_eq_conv_conj append_take_drop_id)
  then have pre: "r1 = take (length r1) ?r" "r2 = take (length r2) r1"
    unfolding r1_def r2_def by (simp_all only: take_all order_refl split: if_split) simp_all
  have "r2 ! m = r1 ! m" using m(1) by (subst pre(2)) simp
  moreover have "r1 ! m = ?r ! m" using m(1) l2(2) by (subst pre(1)) simp
  moreover have "take m r1 = take m ?r" using m(1) l2(2) by (subst pre(1)) simp
  ultimately have nth: "r2 ! m = ?r ! m" "take m r1 = take m ?r" by simp_all
  have mn: "m < length probs" using m(1) l2 l1 lp by linarith
  have nuc: "\<not> f64_le top_p (f32_sum (map fst (take m ?r)))" if "f64_lt top_p (Fin 1)" "0 < m"
  proof -
    have "m < cut" using m(1) that by (auto simp: r2_def)
    with nucleus_prefix [of m top_p "Fin 0" r1] that(2) show ?thesis by (simp add: cut_def nth f32_sum_def)
  qed
  obtain i where i: "?r ! m = (probs ! i, i)" "i < length probs" "snd (r2 ! m) = i"
    using ranked_nth [OF mn] nth(1) by (metis prod.collapse)
  have "top_k = 0 \<or> m < top_k" using l1(3) l2(2) m(1) by linarith
  moreover have "NaN \<notin> set probs \<longrightarrow> length (filter (f64_lt (probs ! i)) probs) \<le> m"
    using rank_bound [of probs m] mn i(1) by simp
  ultimately show ?thesis using m(2) i mn lp nuc by - (rule exI [of _ m], rule exI [of _ i], auto)
qed

section \<open>Random numbers\<close>

lemma fl32_max: "fl32_round (2 ^ 32 - 1) = 2 ^ 32"
  using b32.round_eval [of 31 "2 ^ 32 - 1" 8 "2 ^ 24"] by (simp add: fl32_round_def)

text \<open>
  C40: The random number is at most one half. The code shifts 33 of 64 bits away, which leaves 31,
  and divides by the greatest 32-bit number; so although \<open>rand_f32\<close> is meant to be uniform on the
  unit interval, every value is between 0 and 1/2, and the sampler never draws from the upper half
  of the probability mass it kept.
\<close>

theorem rand_f32_at_most_half: "\<exists>q. rand_f32 ns = Fin q \<and> 0 \<le> q \<and> q \<le> 1 / 2"
proof -
  define x :: u64 where "x = drop_bit 33 ((ucast ns :: u64) * 6364136223846793005 + 1442695040888963407)"
  define m where "m = unat (ucast x :: u32)"
  have "unat y div 2 ^ 33 < 2 ^ 31" for y :: u64
    using unsigned_less [of y, where ?'a = nat] by (simp add: div_less_iff_less_mult)
  then have "drop_bit 33 (unat y) < 2 ^ 31" for y :: u64 by (simp only: drop_bit_eq_div)
  then have "unat x < 2 ^ 31" by (simp only: x_def unat_drop_bit_eq)
  then have m: "m < 2 ^ 31" by (simp add: m_def unsigned_ucast_eq take_bit_nat_eq_self)
  have pm: "(of_nat m :: rat) \<le> 2 powi 31"
  proof -
    have "(of_nat m :: rat) \<le> of_nat (2 ^ 31)" using m by (simp only: of_nat_le_iff)
    then show ?thesis by simp
  qed
  note a = to_f32_bounded [of "of_nat m" 31, simplified, OF pm [simplified]]
  have d: "f32_of_nat (2 ^ 32 - 1) = Fin (2 ^ 32)"
    by (simp add: f32_of_nat_def to_f32_def Let_def fl32_max [simplified])
  have r: "rand_f32 ns = to_f32 (fl32_round (of_nat m) / 2 ^ 32)"
    unfolding rand_f32_def Let_def x_def [symmetric] m_def [symmetric] d by (simp add: f32_of_nat_def a(1))
  have le: "fl32_round (of_nat m) / 2 ^ 32 \<le> 2 powi (- 1)" "0 \<le> fl32_round (of_nat m) / 2 ^ 32"
    using a(2,3) by (simp_all add: power_int_minus)
  from to_f32_bounded [OF le(2,1)] show ?thesis by (simp add: r power_int_minus inverse_eq_divide)
qed

section \<open>Session ids\<close>

text \<open>A word is determined by its exclusive or with its own right shift.\<close>

lemma xorshift_inj:
  fixes x y :: "'a :: len word"
  assumes "0 < k" "x XOR drop_bit k x = y XOR drop_bit k y"
  shows "x = y"
proof (rule bit_word_eqI)
  fix n
  have "bit x n = bit y n" if "LENGTH('a) - n = d" for n d
    using that
  proof (induction d arbitrary: n rule: less_induct)
    case (less d)
    show ?case
    proof (cases "n < LENGTH('a)")
      case True
      have "bit x (n + k) = bit y (n + k)"
        using less.IH [of "LENGTH('a) - (n + k)" "n + k"] less.prems True assms(1) by auto
      moreover have "bit (x XOR drop_bit k x) n = bit (y XOR drop_bit k y) n" using assms(2) by simp
      ultimately show ?thesis by (auto simp: bit_xor_iff bit_drop_bit_eq add.commute)
    qed (use bit_imp_le_length in blast)
  qed
  then show "bit x n = bit y n" by blast
qed

text \<open>Multiplication with a word that has an inverse is injective.\<close>

lemma mult_inj:
  fixes x y c :: u64
  assumes "c * d = 1" "x * c = y * c"
  shows "x = y"
proof -
  have "x * (c * d) = y * (c * d)" by (simp only: assms(2) mult.assoc [symmetric])
  then show ?thesis by (simp only: assms(1) mult_1_right)
qed

lemma splitmix_inj:
  fixes x y :: u64
  assumes "(let x1 = (x XOR drop_bit 30 x) * 0xbf58476d1ce4e5b9; x2 = (x1 XOR drop_bit 27 x1) * 0x94d049bb133111eb
      in x2 XOR drop_bit 31 x2) =
    (let x1 = (y XOR drop_bit 30 y) * 0xbf58476d1ce4e5b9; x2 = (x1 XOR drop_bit 27 x1) * 0x94d049bb133111eb
      in x2 XOR drop_bit 31 x2)"
  shows "x = y"
proof -
  have c1: "(0xbf58476d1ce4e5b9 :: u64) * 10871156337175269513 = 1" by simp
  have c2: "(0x94d049bb133111eb :: u64) * 3573116690164977347 = 1" by simp
  let ?f = "\<lambda>x :: u64. (x XOR drop_bit 30 x) * 0xbf58476d1ce4e5b9"
  let ?g = "\<lambda>x :: u64. (x XOR drop_bit 27 x) * 0x94d049bb133111eb"
  have "?g (?f x) XOR drop_bit 31 (?g (?f x)) = ?g (?f y) XOR drop_bit 31 (?g (?f y))"
    using assms unfolding Let_def .
  then have "?g (?f x) = ?g (?f y)" by (rule xorshift_inj [rotated]) simp
  then have "?f x XOR drop_bit 27 (?f x) = ?f y XOR drop_bit 27 (?f y)" by (rule mult_inj [OF c2])
  then have "?f x = ?f y" by (rule xorshift_inj [rotated]) simp
  then have "x XOR drop_bit 30 x = y XOR drop_bit 30 y" by (rule mult_inj [OF c1])
  then show ?thesis by (rule xorshift_inj [rotated]) simp
qed

text \<open>
  Session ids do not collide: for one process, two different readings of the clock (in
  nanoseconds, modulo \<open>2 ^ 64\<close>) give two different session ids, and so do two processes that read
  the clock in the same nanosecond.
\<close>

theorem session_id_injective:
  "(rand_session_id ns pid = rand_session_id ns' pid) = (ns = ns') \<and>
   (rand_session_id ns pid = rand_session_id ns pid') = (pid = pid')"
proof -
  have c: "(0x9e3779b97f4a7c15 :: u64) * 17428512612931826493 = 1" by simp
  have step: "a XOR p * 0x9e3779b97f4a7c15 = b XOR q * 0x9e3779b97f4a7c15" if "rand_session_id a p = rand_session_id b q" for a b p q :: u64
    using that unfolding rand_session_id_def Let_def by (rule splitmix_inj [unfolded Let_def])
  have xl: "a = b" if "a XOR p = b XOR p" for a b p :: u64
  proof -
    have "(a XOR p) XOR p = (b XOR p) XOR p" by (simp only: that)
    then show ?thesis by (simp only: xor.assoc xor_self_eq xor.right_neutral)
  qed
  have xr: "a = b" if "p XOR a = p XOR b" for a b p :: u64
    by (rule xl [of a p b]) (use that in \<open>simp only: xor.commute\<close>)
  have "ns = ns'" if "rand_session_id ns pid = rand_session_id ns' pid" by (rule xl [OF step [OF that]])
  moreover have "pid = pid'" if "rand_session_id ns pid = rand_session_id ns pid'"
    by (rule mult_inj [OF c xr [OF step [OF that]]])
  ultimately show ?thesis by (intro conjI iffI) (assumption | erule arg_cong | simp only:)+
qed

section \<open>Instances\<close>

theorem greedy_is_argmax_witness:
  "\<exists>i < 3. sample_token (\<lambda>x. x) (Fin 0) [Fin 1, Fin 3, Fin 2] (Fin 1) 0 (Fin 1) = Some i \<and>
    (\<forall>j < 3. f64_le ([Fin 1, Fin 3, Fin 2] ! j) ([Fin 1, Fin 3, Fin 2] ! i))"
proof -
  have "greedy_mode (Fin 1) 0 (Fin 1)" by (simp add: greedy_mode_def)
  then show ?thesis
    using greedy_is_argmax [of "[Fin 1, Fin 3, Fin 2]" "Fin 1" 0 "Fin 1" "\<lambda>x. x" "Fin 0"] by auto
qed

theorem sample_in_nucleus_witness:
  "\<exists>m i. sample_token (\<lambda>_. Fin 1) (Fin 0) [Fin 1, Fin 3] (Fin 1) 1 (Fin 1) = Some i \<and> i < 2 \<and> m < (1::nat)"
proof -
  have "\<not> greedy_mode (Fin 1) 1 (Fin 1)" by (simp add: greedy_mode_def)
  then show ?thesis
    using sample_in_nucleus [of "[Fin 1, Fin 3]" "Fin 1" 1 "Fin 1" _ "\<lambda>_. Fin 1" "Fin 0", OF _ _ refl] by auto
qed

end
