(* ===== verification/Generation.thy ===== *)
theory Generation
  imports Shard_Pipeline Sampling
begin

text \<open>
  Token generation (\<open>kwaai-cli/src/shard_cmd.rs\<close>): the streaming loop over the block servers with
  its one failover per token (\<open>run_streaming_inner\<close>), the loop over the local server that holds
  the whole model (\<open>run_via_local_bypass\<close>), and the length-prefixed TCP protocol of the local
  server. The tokenizer, the conversion of a tensor to \<open>f32\<close> values and the random numbers are
  arguments; the consumer of the stream is a predicate that says whether it still takes the next
  event.

  Lemmas: the loop ends, within the token limit and at the first end-of-sequence token; over
  servers whose ranges tile the model it produces the tokens of a single node; a failover replays
  the step on servers that already ran it.
\<close>

section \<open>The local server\<close>

text \<open>Frames have a 4-byte little-endian length, which wraps at \<open>2 ^ 32\<close>.\<close>

definition local_frame :: "bytes \<Rightarrow> bytes" where
  "local_frame bs = u32_to_le_bytes (word_of_nat (length bs)) @ bs"

definition read_local_frame :: "bytes \<Rightarrow> bytes option" where
  "read_local_frame stream =
     (if length stream < 4 then None
      else let len = unat (u32_from_le_bytes (take 4 stream)) in
        if length (drop 4 stream) < len then None else Some (take len (drop 4 stream)))"

text \<open>One connection of \<open>start_local_inference_server\<close>: \<open>None\<close> when it is closed without an answer.\<close>

definition local_connection ::
    "rpc_codec \<Rightarrow> ('t, 'kv) tensor_ops \<Rightarrow> nat \<Rightarrow> bytes \<Rightarrow> 'kv transformer_shard option
      \<Rightarrow> 'kv transformer_shard option \<times> bytes option" where
  "local_connection C M now incoming cell =
     (case read_local_frame incoming of
        None \<Rightarrow> (cell, None)
      | Some buf \<Rightarrow>
          (let (cell', resp) =
             (case cell of
                None \<Rightarrow> (None, error_response warming_up)
              | Some sh \<Rightarrow>
                  (case handle_inference_request C M now buf sh of
                     (sh', Inr r) \<Rightarrow> (Some sh', r)
                   | (sh', Inl e) \<Rightarrow> (Some sh', error_response e)));
               resp_bytes = (case rc_enc_res C resp of Inl _ \<Rightarrow> [] | Inr bs \<Rightarrow> bs)
           in (cell', Some (local_frame resp_bytes))))"

definition local_inference_call ::
    "rpc_codec \<Rightarrow> ('t, 'kv) tensor_ops \<Rightarrow> nat \<Rightarrow> inference_request \<Rightarrow> 'kv transformer_shard option
      \<Rightarrow> 'kv transformer_shard option \<times> (string + inference_response)" where
  "local_inference_call C M now request cell =
     (case rc_enc_req C request of
        Inl e \<Rightarrow> (cell, Inl (''serialise InferenceRequest: '' @ e))
      | Inr req_bytes \<Rightarrow>
          (case local_connection C M now (local_frame req_bytes) cell of
             (cell', None) \<Rightarrow> (cell', Inl ''read response length'')
           | (cell', Some reply) \<Rightarrow>
               (case read_local_frame reply of
                  None \<Rightarrow> (cell', Inl ''read response'')
                | Some buf \<Rightarrow>
                    (case rc_dec_res C buf of
                       Inl e \<Rightarrow> (cell', Inl (''deserialise InferenceResponse: '' @ e))
                     | Inr response \<Rightarrow>
                         (case ir_error response of
                            Some err \<Rightarrow> (cell', Inl (''Local inference error: '' @ err))
                          | None \<Rightarrow> (cell', Inr response))))))"

section \<open>Prompts\<close>

abbreviation nl :: string where
  "nl \<equiv> [CHR 0x0A]"

definition format_prompt :: "(string \<Rightarrow> u32 option) \<Rightarrow> string \<Rightarrow> string" where
  "format_prompt token_to_id prompt =
     (if token_to_id ''<|start_header_id|>'' \<noteq> None
      then ''<|start_header_id|>user<|end_header_id|>'' @ nl @ nl @ prompt @
        ''<|eot_id|><|start_header_id|>assistant<|end_header_id|>'' @ nl @ nl
      else if token_to_id ''<|im_start|>'' \<noteq> None
      then ''<|im_start|>user'' @ nl @ prompt @ nl @ ''<|im_end|>'' @ nl @ ''<|im_start|>assistant'' @ nl
      else prompt)"

definition prompt_tokens :: "(string \<Rightarrow> u32 option) \<Rightarrow> (string \<Rightarrow> string + u32 list) \<Rightarrow> u32 option \<Rightarrow> string \<Rightarrow> string + u32 list" where
  "prompt_tokens token_to_id encode bos prompt =
     (case encode (format_prompt token_to_id prompt) of
        Inl e \<Rightarrow> Inl (''Failed to encode prompt: '' @ e)
      | Inr ids \<Rightarrow> Inr (case bos of Some b \<Rightarrow> b # ids | None \<Rightarrow> ids))"

definition enrich_chain ::
    "(f64 \<Rightarrow> f64) \<Rightarrow> ('p \<Rightarrow> string) \<Rightarrow> reputation_store \<Rightarrow> 'p block_server_entry list \<Rightarrow> 'p block_server_entry list" where
  "enrich_chain f_exp base58 store chain =
     map (\<lambda>e. e\<lparr>be_trust_score := Some (ps_score (peer_score_of f_exp (base58 (be_peer_id e)) store))\<rparr>) chain"

section \<open>One token\<close>

record 't gen_opts =
  go_max_tokens :: nat
  go_temperature :: f32
  go_top_k :: nat
  go_top_p :: f32
  go_eos :: u32
  go_exp :: "f32 \<Rightarrow> f32"
  go_rand :: "nat \<Rightarrow> f32"
  go_values :: "'t \<Rightarrow> string + f32 list"

definition token_request :: "u64 \<Rightarrow> nat \<Rightarrow> u32 list \<Rightarrow> inference_request" where
  "token_request session_id seq_pos current_ids =
     (let (shape, data) = token_ids_to_bytes current_ids in
      \<lparr>iq_session_id = session_id, iq_seq_pos = word_of_nat seq_pos, iq_payload_type = TokenIds,
       iq_shape = shape, iq_data = data\<rparr>)"

text \<open>The last row of a \<open>[1, seq_len, vocab]\<close> tensor in row-major order, or all values.\<close>

definition last_logits :: "u32 list \<Rightarrow> f32 list \<Rightarrow> f32 list" where
  "last_logits shape vals =
     (if length shape = 3 \<and> 1 < shape ! 1
      then take (unat (shape ! 2)) (drop ((unat (shape ! 1) - 1) * unat (shape ! 2)) vals) else vals)"

definition next_token ::
    "('t, 'kv) tensor_ops \<Rightarrow> 't gen_opts \<Rightarrow> nat \<Rightarrow> inference_response \<Rightarrow> string + u32" where
  "next_token M opts n resp =
     (case f16_bytes_to_tensor M (ir_data resp) (ir_shape resp) of
        Inl e \<Rightarrow> Inl (''decode logits tensor: '' @ e)
      | Inr t \<Rightarrow>
          (case go_values opts t of
             Inl e \<Rightarrow> Inl e
           | Inr vals \<Rightarrow>
               (case sample_token (go_exp opts) (go_rand opts n) (last_logits (ir_shape resp) vals)
                       (go_temperature opts) (go_top_k opts) (go_top_p opts) of
                  None \<Rightarrow> Inl ''index out of bounds''
                | Some i \<Rightarrow> Inr (word_of_nat i))))"

section \<open>The streaming loop\<close>

datatype gen_error = Uncovered nat | Forwarding forward_error | Decoding string

definition forward_with_failover ::
    "('p, 'w) forward_env \<Rightarrow> 'p block_server_entry list \<Rightarrow> 'p block_server_entry list \<Rightarrow> inference_request
      \<Rightarrow> ('p, 'w) forward_state
      \<Rightarrow> ('p, 'w) forward_state \<times> 'p block_server_entry list \<times> (gen_error + inference_response)" where
  "forward_with_failover E chain pinned_path request st =
     (case forward_through_chain (E\<lparr>fe_chain := pinned_path\<rparr>) request st of
        (st1, Inr r) \<Rightarrow> (st1, pinned_path, Inr r)
      | (st1, Inl _) \<Rightarrow>
          (case build_pinned_path chain (fe_total_blocks E) (fs_failed st1) of
             Inl gap \<Rightarrow> (st1, pinned_path, Inl (Uncovered gap))
           | Inr path \<Rightarrow>
               (case forward_through_chain (E\<lparr>fe_chain := path\<rparr>) request st1 of
                  (st2, Inr r) \<Rightarrow> (st2, path, Inr r)
                | (st2, Inl e) \<Rightarrow> (st2, path, Inl (Forwarding e)))))"

text \<open>\<open>E n\<close> is the environment of the calls for the \<open>n\<close>-th token (its clock readings), \<open>piece\<close> the
  tokenizer's decoder, \<open>listening n\<close> says whether the consumer takes the \<open>n\<close>-th token. The result
  carries the events sent and the generated ids.\<close>

function generate ::
    "(nat \<Rightarrow> ('p, 'w) forward_env) \<Rightarrow> ('t, 'kv) tensor_ops \<Rightarrow> 't gen_opts \<Rightarrow> (u32 \<Rightarrow> string option) \<Rightarrow> (nat \<Rightarrow> bool)
      \<Rightarrow> 'p block_server_entry list \<Rightarrow> 'p block_server_entry list \<Rightarrow> u32 list \<Rightarrow> nat \<Rightarrow> u32 list \<Rightarrow> string list
      \<Rightarrow> ('p, 'w) forward_state \<Rightarrow> ('p, 'w) forward_state \<times> string list \<times> (gen_error + u32 list)" where
  "generate E M opts piece listening chain pinned_path current_ids seq_pos generated_ids events st =
     (let n = length generated_ids;
          request = token_request (fe_session_id (E n)) seq_pos current_ids
      in case forward_with_failover ((E n)\<lparr>fe_seq_pos := word_of_nat seq_pos\<rparr>) chain pinned_path request st of
           (st', path, Inl e) \<Rightarrow> (st', events, Inl e)
         | (st', path, Inr resp) \<Rightarrow>
             (case next_token M opts n resp of
                Inl e \<Rightarrow> (st', events, Inl (Decoding e))
              | Inr next_id \<Rightarrow>
                  if piece next_id \<noteq> None \<and> \<not> listening n then (st', events, Inr generated_ids)
                  else
                    let events' = (case piece next_id of Some p \<Rightarrow> events @ [p] | None \<Rightarrow> events);
                        ids' = generated_ids @ [next_id]
                    in if next_id = go_eos opts \<or> length ids' \<ge> go_max_tokens opts then (st', events', Inr ids')
                       else generate E M opts piece listening chain path [next_id]
                              (seq_pos + length current_ids) ids' events' st'))"
  by pat_completeness auto
termination
  by (relation "measure (\<lambda>(_, _, opts, _, _, _, _, _, _, ids, _). go_max_tokens opts - length ids)") auto

declare generate.simps [simp del]

definition stream_generate ::
    "(nat \<Rightarrow> ('p, 'w) forward_env) \<Rightarrow> ('t, 'kv) tensor_ops \<Rightarrow> 't gen_opts \<Rightarrow> (u32 \<Rightarrow> string option) \<Rightarrow> (nat \<Rightarrow> bool)
      \<Rightarrow> 'p block_server_entry list \<Rightarrow> u32 list \<Rightarrow> ('p, 'w) forward_state
      \<Rightarrow> ('p, 'w) forward_state \<times> string list \<times> (gen_error + u32 list)" where
  "stream_generate E M opts piece listening chain token_ids st =
     (case build_pinned_path chain (fe_total_blocks (E 0)) [] of
        Inl gap \<Rightarrow> (st, [], Inl (Uncovered gap))
      | Inr pinned_path \<Rightarrow> generate E M opts piece listening chain pinned_path token_ids 0 [] [] (st\<lparr>fs_failed := []\<rparr>))"

datatype shard_run_event = Token string | Done | RunError gen_error

definition run_streaming ::
    "(nat \<Rightarrow> ('p, 'w) forward_env) \<Rightarrow> ('t, 'kv) tensor_ops \<Rightarrow> 't gen_opts \<Rightarrow> (u32 \<Rightarrow> string option) \<Rightarrow> (nat \<Rightarrow> bool)
      \<Rightarrow> 'p block_server_entry list \<Rightarrow> u32 list \<Rightarrow> ('p, 'w) forward_state \<Rightarrow> shard_run_event list" where
  "run_streaming E M opts piece listening chain token_ids st =
     (case stream_generate E M opts piece listening chain token_ids st of
        (_, events, r) \<Rightarrow> map Token events @ [case r of Inr _ \<Rightarrow> Done | Inl e \<Rightarrow> RunError e])"

section \<open>The loop over the local server\<close>

text \<open>\<open>call n\<close> is the call for the \<open>n\<close>-th token.\<close>

function run_via_local_bypass ::
    "(nat \<Rightarrow> inference_request \<Rightarrow> 'w \<Rightarrow> 'w \<times> (string + inference_response)) \<Rightarrow> ('t, 'kv) tensor_ops \<Rightarrow> 't gen_opts
      \<Rightarrow> u64 \<Rightarrow> u32 list \<Rightarrow> nat \<Rightarrow> u32 list \<Rightarrow> 'w \<Rightarrow> 'w \<times> (string + u32 list)" where
  "run_via_local_bypass call M opts session_id current_ids seq_pos generated_ids w =
     (let n = length generated_ids in
      case call n (token_request session_id seq_pos current_ids) w of
        (w', Inl e) \<Rightarrow> (w', Inl e)
      | (w', Inr resp) \<Rightarrow>
          (if ir_response_type resp \<noteq> Logits then (w', Inl ''Local shard does not cover all blocks'')
           else case next_token M opts n resp of
             Inl e \<Rightarrow> (w', Inl e)
           | Inr next_id \<Rightarrow>
               (let ids' = generated_ids @ [next_id] in
                if next_id = go_eos opts \<or> length ids' \<ge> go_max_tokens opts then (w', Inr ids')
                else run_via_local_bypass call M opts session_id [next_id] (seq_pos + length current_ids) ids' w')))"
  by pat_completeness auto
termination
  by (relation "measure (\<lambda>(_, _, opts, _, _, _, ids, _). go_max_tokens opts - length ids)") auto

declare run_via_local_bypass.simps [simp del]

section \<open>Facts about the loops\<close>

lemma handle_no_error: "handle_inference_request C M now bs sh = (sh', Inr resp) \<Longrightarrow> ir_error resp = None"
  by (auto simp: handle_inference_request_def split: sum.splits prod.splits)

lemma read_local_frame_frame: "length bs < 2 ^ 32 \<Longrightarrow> read_local_frame (local_frame bs) = Some bs"
  by (simp add: read_local_frame_def local_frame_def unsigned_of_nat take_bit_nat_eq_self)

text \<open>One step of the streaming loop, by its outcome.\<close>

inductive gen_step ::
    "'t gen_opts \<Rightarrow> (u32 \<Rightarrow> string option) \<Rightarrow> (nat \<Rightarrow> bool)
      \<Rightarrow> u32 list \<Rightarrow> string list \<Rightarrow> string list \<times> (gen_error + u32 list) \<Rightarrow> bool"
  for opts piece listening where
  error: "gen_step opts piece listening ids events (events, Inl e)"
| dropped: "\<not> listening (length ids) \<Longrightarrow> gen_step opts piece listening ids events (events, Inr ids)"
| stop: "next_id = go_eos opts \<or> go_max_tokens opts \<le> Suc (length ids) \<Longrightarrow>
    gen_step opts piece listening ids events
      (case piece next_id of Some p \<Rightarrow> events @ [p] | None \<Rightarrow> events, Inr (ids @ [next_id]))"
| step: "next_id \<noteq> go_eos opts \<Longrightarrow> Suc (length ids) < go_max_tokens opts \<Longrightarrow>
    gen_step opts piece listening (ids @ [next_id])
      (case piece next_id of Some p \<Rightarrow> events @ [p] | None \<Rightarrow> events) r \<Longrightarrow>
    gen_step opts piece listening ids events r"

text \<open>The loop continues with the next token.\<close>

lemma generate_next:
  assumes "forward_with_failover ((E (length ids))\<lparr>fe_seq_pos := word_of_nat seq_pos\<rparr>) chain path
      (token_request (fe_session_id (E (length ids))) seq_pos current) st = (st', path', Inr resp)"
    and "next_token M opts (length ids) resp = Inr t" "piece t = None \<or> listening (length ids)"
  shows "generate E M opts piece listening chain path current seq_pos ids events st =
    (let events' = (case piece t of Some p \<Rightarrow> events @ [p] | None \<Rightarrow> events) in
     if t = go_eos opts \<or> go_max_tokens opts \<le> Suc (length ids) then (st', events', Inr (ids @ [t]))
     else generate E M opts piece listening chain path' [t] (seq_pos + length current) (ids @ [t]) events' st')"
proof -
  have no: "\<not> (piece t \<noteq> None \<and> \<not> listening (length ids))" using assms(3) by auto
  show ?thesis
    by (subst generate.simps) (simp only: Let_def assms(1,2) no if_False prod.case sum.case length_append_singleton)
qed

lemma generate_gen_step:
  "gen_step opts piece listening ids events
     (snd (generate E M opts piece listening chain path current seq_pos ids events st))"
proof (induction "go_max_tokens opts - length ids" arbitrary: path current seq_pos ids events st rule: less_induct)
  case less
  let ?n = "length ids"
  let ?E = "(E ?n)\<lparr>fe_seq_pos := word_of_nat seq_pos\<rparr>" and ?req = "token_request (fe_session_id (E ?n)) seq_pos current"
  obtain st' path' r where f: "forward_with_failover ?E chain path ?req st = (st', path', r)" by (metis prod_cases3)
  show ?case
  proof (cases r)
    case (Inl e)
    then show ?thesis by (subst generate.simps) (simp add: f gen_step.error)
  next
    case r: (Inr resp)
    show ?thesis
    proof (cases "next_token M opts ?n resp")
      case (Inl e)
      with r show ?thesis by (subst generate.simps) (simp add: f gen_step.error)
    next
      case t: (Inr t)
      show ?thesis
      proof (cases "piece t = None \<or> listening ?n")
        case False
        with f r t have "generate E M opts piece listening chain path current seq_pos ids events st = (st', events, Inr ids)"
          by (subst generate.simps) simp
        then show ?thesis using False gen_step.dropped by auto
      next
        case True
        note nxt = generate_next [where E = E and piece = piece and listening = listening and events = events, OF f [unfolded r] t True]
        show ?thesis
        proof (cases "t = go_eos opts \<or> go_max_tokens opts \<le> Suc ?n")
          case stop: True
          show ?thesis using gen_step.stop [OF stop, of piece listening events] stop by (simp add: nxt)
        next
          case go: False
          then have "go_max_tokens opts - length (ids @ [t]) < go_max_tokens opts - ?n" by simp linarith
          from less.hyps [OF this] go show ?thesis
            by (simp only: nxt Let_def if_False) (rule gen_step.step, auto)
        qed
      qed
    qed
  qed
qed

lemma map_filter_append [simp]: "List.map_filter f (xs @ ys) = List.map_filter f xs @ List.map_filter f ys"
  by (simp add: List.map_filter_def)

lemma length_map_filter_le: "length (List.map_filter f xs) \<le> length xs"
  by (simp add: List.map_filter_def)

lemma gen_step_bounds:
  assumes "gen_step opts piece listening ids events out" "length ids < max 1 (go_max_tokens opts)"
    "go_eos opts \<notin> set ids" "events = List.map_filter piece ids"
  shows "length (fst out) \<le> max 1 (go_max_tokens opts) \<and>
    (case snd out of Inl _ \<Rightarrow> True
     | Inr res \<Rightarrow> length res \<le> max 1 (go_max_tokens opts) \<and> go_eos opts \<notin> set (butlast res) \<and>
        fst out = List.map_filter piece res \<and>
        ((\<exists>n. \<not> listening n) \<or> res \<noteq> [] \<and> (last res = go_eos opts \<or> length res = max 1 (go_max_tokens opts))))"
  using assms
proof induction
  case (error ids events e)
  then show ?case using length_map_filter_le [of piece ids] by simp
next
  case (dropped ids events)
  then show ?case using length_map_filter_le [of piece ids] by (auto dest: in_set_butlastD)
next
  case (stop t ids events)
  have "(case piece t of Some p \<Rightarrow> events @ [p] | None \<Rightarrow> events) = List.map_filter piece (ids @ [t])"
    using stop by (simp split: option.split)
  then show ?case
    using stop length_map_filter_le [of piece "ids @ [t]"] by auto
next
  case (step t ids events r)
  have "(case piece t of Some p \<Rightarrow> events @ [p] | None \<Rightarrow> events) = List.map_filter piece (ids @ [t])"
    using step by (simp split: option.split)
  then show ?case using step by simp
qed

section \<open>Properties\<close>

text \<open>
  C11: Generation ends and respects its limits, whatever the servers do: at most \<open>max_tokens\<close>
  tokens are streamed (one if the limit is zero). On success the streamed pieces are exactly those
  of the generated ids, the end-of-sequence token occurs at most at the end, and unless the
  consumer went away the run ends with that token or at the limit.
\<close>

theorem generation_bounded:
  "case stream_generate E M opts piece listening chain token_ids st of
     (st', events, r) \<Rightarrow> length events \<le> max 1 (go_max_tokens opts) \<and>
       (case r of Inl _ \<Rightarrow> True
        | Inr ids \<Rightarrow> length ids \<le> max 1 (go_max_tokens opts) \<and> go_eos opts \<notin> set (butlast ids) \<and>
            events = List.map_filter piece ids \<and>
            ((\<exists>n. \<not> listening n) \<or> ids \<noteq> [] \<and> (last ids = go_eos opts \<or> length ids = max 1 (go_max_tokens opts))))"
proof (cases "build_pinned_path chain (fe_total_blocks (E 0)) []")
  case (Inr path)
  obtain st' events r where g: "generate E M opts piece listening chain path token_ids 0 [] [] (st\<lparr>fs_failed := []\<rparr>) = (st', events, r)"
    by (metis prod_cases3)
  have "gen_step opts piece listening [] [] (events, r)"
    using generate_gen_step [of opts piece listening "[]" "[]" E M chain path token_ids 0 "st\<lparr>fs_failed := []\<rparr>"] by (simp add: g)
  moreover have "[] = List.map_filter piece []" by (simp add: List.map_filter_def)
  ultimately show ?thesis
    using gen_step_bounds [of opts piece listening "[]" "[]" "(events, r)"]
    by (cases r) (auto simp: stream_generate_def Inr g less_max_iff_disj)
qed (simp add: stream_generate_def)

lemma token_request_simps [simp]:
  "iq_session_id (token_request sid sp ids) = sid" "iq_seq_pos (token_request sid sp ids) = word_of_nat sp"
  "iq_payload_type (token_request sid sp ids) = TokenIds"
  by (simp_all add: token_request_def token_ids_to_bytes_def)

lemma cluster_env_total: "fe_total_blocks (cluster_env C M now N es req) = N"
  by (simp add: cluster_env_def)

lemma cluster_env_chain: "(cluster_env C M now N es0 req)\<lparr>fe_chain := es\<rparr> = cluster_env C M now N es req"
  by (simp add: cluster_env_def)

lemma cluster_env_at:
  "(cluster_env C M now N [] (token_request sid 0 []))\<lparr>fe_seq_pos := word_of_nat sp, fe_chain := es\<rparr> =
     cluster_env C M now N es (token_request sid sp ids)"
  by (simp add: cluster_env_def)

lemma local_bypass_next:
  assumes "call (length ids) (token_request sid sp current) w = (w', Inr resp)" "ir_response_type resp = Logits"
    and "next_token M opts (length ids) resp = Inr t"
  shows "run_via_local_bypass call M opts sid current sp ids w =
    (if t = go_eos opts \<or> go_max_tokens opts \<le> Suc (length ids) then (w', Inr (ids @ [t]))
     else run_via_local_bypass call M opts sid [t] (sp + length current) (ids @ [t]) w')"
  by (subst run_via_local_bypass.simps) (simp only: Let_def assms prod.case sum.case length_append_singleton simp_thms if_False)

lemma generate_like_single:
  assumes C: "rpc_codec_ok C" and F16: "f16_lossless M" and t: "tiles N 0 es" "0 < N" "distinct (map be_peer_id es)"
    and same: "same_caches N es (fs_world st) F" "fs_failed st = []"
    and run: "run_via_local_bypass (\<lambda>n. single_answer C M (clock n)) M opts sid current sp ids F = (F', Inr out)"
  shows "\<exists>st' events'. generate (\<lambda>n. cluster_env C M (clock n) N [] (token_request sid 0 [])) M opts piece (\<lambda>_. True)
      chain es current sp ids events st = (st', events', Inr out) \<and> same_caches N es (fs_world st') F'"
  using same run
proof (induction "go_max_tokens opts - length ids" arbitrary: current sp ids events st F rule: less_induct)
  case less
  let ?n = "length ids" and ?req = "token_request sid sp current"
  let ?E = "\<lambda>n. cluster_env C M (clock n) N [] (token_request sid 0 [])"
  obtain F1 resp where F1: "single_answer C M (clock ?n) ?req F = (F1, Inr resp)"
    using less.prems(3) by (subst (asm) run_via_local_bypass.simps) (auto simp: Let_def split: prod.splits sum.splits)
  obtain t where t': "next_token M opts ?n resp = Inr t"
    using less.prems(3) F1 by (subst (asm) run_via_local_bypass.simps) (auto simp: Let_def split: sum.splits if_splits)
  have rest: "(if t = go_eos opts \<or> go_max_tokens opts \<le> Suc ?n then (F1, Inr (ids @ [t]))
      else run_via_local_bypass (\<lambda>n. single_answer C M (clock n)) M opts sid [t] (sp + length current) (ids @ [t]) F1) = (F', Inr out)"
  proof -
    have "ir_response_type resp = Logits"
      using less.prems(3) F1 by (subst (asm) run_via_local_bypass.simps) (auto simp: Let_def split: if_splits)
    from local_bypass_next [where call = "\<lambda>n. single_answer C M (clock n)", OF F1 this t'] less.prems(3) show ?thesis by (simp only:)
  qed
  obtain st1 where st1: "forward_through_chain (cluster_env C M (clock ?n) N es ?req) ?req st = (st1, Inr resp)"
    "fs_failed st1 = []" "same_caches N es (fs_world st1) F1"
    using distributed_step [OF C F16 t _ less.prems(1) _ F1] less.prems(2) by auto
  have fw: "forward_with_failover ((?E ?n)\<lparr>fe_seq_pos := word_of_nat sp\<rparr>) chain es
      (token_request (fe_session_id (?E ?n)) sp current) st = (st1, es, Inr resp)"
  proof -
    have req: "token_request (fe_session_id (?E ?n)) sp current = ?req" by (simp add: cluster_env_def)
    have env: "(?E ?n)\<lparr>fe_seq_pos := word_of_nat sp, fe_chain := es\<rparr> = cluster_env C M (clock ?n) N es ?req"
      by (rule cluster_env_at)
    show ?thesis unfolding forward_with_failover_def req env st1(1) by simp
  qed
  note nxt = generate_next [where E = ?E and piece = piece and listening = "\<lambda>_. True" and events = events, OF fw t' disjI2 [OF TrueI]]
  show ?case
  proof (cases "t = go_eos opts \<or> go_max_tokens opts \<le> Suc ?n")
    case True
    with rest st1(3) show ?thesis by (auto simp: nxt)
  next
    case False
    then have lt: "go_max_tokens opts - length (ids @ [t]) < go_max_tokens opts - ?n" by simp linarith
    have "run_via_local_bypass (\<lambda>n. single_answer C M (clock n)) M opts sid [t] (sp + length current) (ids @ [t]) F1 = (F', Inr out)"
      using rest False by (simp only: if_False)
    from less.hyps [OF lt st1(3,2) this] False show ?thesis by (simp only: nxt Let_def if_False)
  qed
qed

text \<open>
  C2: Distributed generation produces the tokens of a single node. Take servers that the pinned
  path orders into consecutive ranges of the whole model, and a node with the whole model and the
  same caches. Whatever the prompt, the sampling settings, the random numbers and the decoding
  pieces: when generating through the single node gives the token ids \<open>out\<close>, streaming through the
  servers gives the same ids, and afterwards the caches still agree.
\<close>

theorem generation_equals_single:
  assumes "rpc_codec_ok C" "f16_lossless M" "build_pinned_path chain N [] = Inr es" "tiles N 0 es" "0 < N"
    and "distinct (map be_peer_id es)" "same_caches N es (fs_world st) F"
    and "run_via_local_bypass (\<lambda>n. single_answer C M (clock n)) M opts sid token_ids 0 [] F = (F', Inr out)"
  shows "\<exists>st' events. stream_generate (\<lambda>n. cluster_env C M (clock n) N [] (token_request sid 0 [])) M opts piece (\<lambda>_. True)
      chain token_ids st = (st', events, Inr out) \<and> same_caches N es (fs_world st') F'"
  using generate_like_single [OF assms(1,2,4-6) _ _ assms(8), of "st\<lparr>fs_failed := []\<rparr>" piece chain "[]"] assms(3,7)
  by (simp add: stream_generate_def cluster_env_total)

text \<open>
  The local TCP protocol is transparent: as long as the encoded request and response are
  shorter than \<open>2 ^ 32\<close> bytes, a call through it gives the answer of the request handler and
  leaves the shard in the handler's state.
\<close>

theorem local_call_transparent:
  assumes "rpc_codec_ok C" "rc_enc_req C req = Inr bs" "length bs < 2 ^ 32"
    and "single_answer C M now req F = (F', Inr resp)" "rc_enc_res C resp = Inr rs" "length rs < 2 ^ 32"
  shows "local_inference_call C M now req (Some F) = (Some F', Inr resp)"
proof -
  have h: "handle_inference_request C M now bs F = (F', Inr resp)" using assms(2,4) by (simp add: single_answer_def)
  have "rc_dec_res C rs = Inr resp"
    using assms(1,5) unfolding rpc_codec_ok_def by (metis sum.inject(2))
  then show ?thesis
    using assms(2,5) h handle_no_error [OF h]
    by (simp add: local_inference_call_def local_connection_def read_local_frame_frame [OF assms(3)]
        read_local_frame_frame [OF assms(6)] Let_def)
qed

section \<open>Failover\<close>

lemma no_route_fatal:
  "blacklist ''call_unary_handler: no route to peer'' p failed = List.insert p failed"
  "call_transient ''no route to peer'' = False"
  by (simp_all add: blacklist_def hop_transient_def call_transient_def starts_with_def)

text \<open>A hop to a peer that cannot be reached, where no other server covers the position.\<close>

lemma cluster_hop_fails:
  assumes "rpc_codec_ok C" "E = cluster_env C M now N chain req0" "filter (\<lambda>x. covers x pos) chain = [e]" "pos < N"
    and "be_peer_id e \<notin> set (fs_failed st)" "hm_get (fs_world st) (be_peer_id e) = None"
  obtains st' where "forward_from E req r pos st = (st', Inl (AllFailed 1 pos))"
    "fs_world st' = fs_world st" "fs_failed st' = List.insert (be_peer_id e) (fs_failed st)"
proof -
  have pos: "pos < fe_total_blocks E" using assms(4) by (simp add: assms(2) cluster_env_def)
  have cand: "candidates_at E (fs_failed st) pos = [e]"
    using assms(3,5) by (simp add: candidates_at_def assms(2) cluster_env_def)
  obtain bs where bs: "rc_enc_req C req = Inr bs" using assms(1) unfolding rpc_codec_ok_def by blast
  have d: "dispatch E e req (fs_world st) = (fs_world st, Inl ''call_unary_handler: no route to peer'')"
    by (simp add: dispatch_def assms(2,6) cluster_env_def call_block_forward_def bs call_attempts.simps cluster_rpc_def
        no_route_fatal split: nat.split)
  let ?st = "st\<lparr>fs_calls := Suc (fs_calls st), fs_reputation := map_option (observe E e (fs_calls st) False) (fs_reputation st),
    fs_failed := List.insert (be_peer_id e) (fs_failed st)\<rparr>"
  show thesis
    by (rule that [of ?st]) (simp_all add: forward_from_step [OF pos] cand d Let_def no_route_fatal)
qed

text \<open>
  C23: A failover replays the step. The pinned path has a server for blocks \<open>[0, a)\<close> and one for
  \<open>[a, N)\<close>; the second cannot be reached, and the path is rebuilt with another server for the same
  blocks. The request is then sent again from block 0, so the first server, which kept the caches
  of the failed attempt, runs its blocks a second time on top of them (\<open>kv1\<close> instead of its caches
  before the step), and the replacement starts from its own caches, which are empty when it has
  not seen the session. The answer is returned without an error.
\<close>

theorem failover_replays_step:
  assumes C: "rpc_codec_ok C" and F16: "f16_lossless M" and a: "0 < a" "a < N"
    and e: "be_start_block e1 = 0" "be_end_block e1 = a" "be_start_block e2 = a" "be_end_block e2 = N"
      "be_start_block e3 = a" "be_end_block e3 = N"
    and d: "be_peer_id e1 \<noteq> be_peer_id e2" "be_peer_id e1 \<noteq> be_peer_id e3" "be_peer_id e2 \<noteq> be_peer_id e3" "fs_failed st = []"
    and path: "build_pinned_path chain N [be_peer_id e2] = Inr [e1, e3]"
    and w: "hm_get (fs_world st) (be_peer_id e1) = Some s1" "hm_get (fs_world st) (be_peer_id e2) = None"
      "hm_get (fs_world st) (be_peer_id e3) = Some s3"
    and sh: "ts_start_block s1 = 0" "ts_end_block s1 = a" "ts_total_blocks s1 = N"
      "ts_start_block s3 = a" "ts_end_block s3 = N" "ts_total_blocks s3 = N"
    and x: "payload_tensor M req = Some x"
    and run1: "run_loop M 0 (unat (iq_seq_pos req)) x (session_kv (iq_session_id req) s1) = (kv1, Inr y1)"
    and again: "run_loop M 0 (unat (iq_seq_pos req)) x kv1 = (kv1', Inr y1')"
    and run3: "run_loop M a (unat (iq_seq_pos req)) y1' (session_kv (iq_session_id req) s3) = (kv3, Inr y3)"
    and out: "tp_head M y3 = Inr z" "tensor_to_f16_bytes M z = Inr (shape, data)"
  shows "snd (snd (forward_with_failover (cluster_env C M now N [] req) chain [e1, e2] req st)) =
    Inr (logits_response (iq_session_id req) shape data)"
proof -
  let ?E = "\<lambda>es. cluster_env C M now N es req" and ?sid = "iq_session_id req" and ?sp = "iq_seq_pos req"
  have cov: "covers e1 0" "\<not> covers e1 a" "\<not> covers e2 0" "covers e2 a" "\<not> covers e3 0" "covers e3 a" "0 < N"
    using a e by (simp_all add: covers_def)
  have nl: "\<not> is_last s1" "is_last s3" using sh a by (simp_all add: is_last_def)
  obtain f1 d1 where f1: "tensor_to_f16_bytes M y1 = Inr (f1, d1)" by (rule f16_losslessE [OF F16])
  have o: "(if is_last s1 then tp_head M y else Inr y) = Inr y" for y using nl by simp
  obtain st1 where st1: "forward_from (?E [e1, e2]) req None 0 st =
      forward_from (?E [e1, e2]) (next_request (?E [e1, e2]) a \<lparr>ir_session_id = ?sid, ir_response_type = ResponseHidden,
          ir_shape = f1, ir_data = d1, ir_error = None\<rparr> req)
        (Some \<lparr>ir_session_id = ?sid, ir_response_type = ResponseHidden, ir_shape = f1, ir_data = d1, ir_error = None\<rparr>) a st1"
    "fs_world st1 = hm_insert (be_peer_id e1) (with_session ?sid now kv1 s1) (fs_world st)" "fs_failed st1 = []"
    using cluster_hop [OF C refl refl refl _ cov(7) _ w(1) _ x _ run1 [folded e(1)] o f1,
        where r = None and now = now and ?req0.0 = req and chain = "[e1, e2]"] e sh nl d(4) cov by auto
  have w2: "hm_get (fs_world st1) (be_peer_id e2) = None" using st1(2) d(1) w(2) by simp
  obtain st2 where st2: "forward_through_chain (?E [e1, e2]) req st = (st2, Inl (AllFailed 1 a))"
    "fs_world st2 = fs_world st1" "fs_failed st2 = [be_peer_id e2]"
    using cluster_hop_fails [OF C refl _ a(2) _ w2, where chain = "[e1, e2]" and M = M and now = now and ?req0.0 = req] st1(1,3) cov
    unfolding forward_through_chain_def by (auto simp: List.insert_def)
  have w': "hm_get (fs_world st2) (be_peer_id e1) = Some (with_session ?sid now kv1 s1)"
    "hm_get (fs_world st2) (be_peer_id e3) = Some s3"
    using st1(2) st2(2) d(2) w(3) by simp_all
  have run1': "run_loop M 0 (unat ?sp) x (session_kv ?sid (with_session ?sid now kv1 s1)) = (kv1', Inr y1')"
    using again by simp
  have "snd (forward_through_chain (?E [e1, e3]) req st2) = Inr (logits_response ?sid shape data)"
    using two_hop_forward [OF C F16 a(1) order_refl a(2) e(1,2,5,6) d(2) _ _ w'(1) _ _ _ w'(2) sh(4-6) x run1' run3 out]
      st2(3) d sh by simp
  then show ?thesis
    using st2 path by (auto simp: forward_with_failover_def cluster_env_total cluster_env_chain split: prod.split sum.split)
qed

section \<open>Instances\<close>

definition demo_opts :: "bytes gen_opts" where
  "demo_opts = \<lparr>go_max_tokens = 1, go_temperature = Fin 1, go_top_k = 0, go_top_p = Fin 1, go_eos = 0,
     go_exp = (\<lambda>x. x), go_rand = (\<lambda>_. Fin 0), go_values = (\<lambda>t. Inr (map (\<lambda>b. Fin (of_nat (unat b))) t))\<rparr>"

lemma demo_token_request: "token_request 7 0 [42] = demo_request"
proof -
  have four: "(4 :: nat) = Suc (Suc (Suc (Suc 0)))" by simp
  have "be_bytes 4 42 = [0, 0, 0, 42]" unfolding four by simp
  then show ?thesis by (simp add: token_request_def token_ids_to_bytes_def u32_to_le_bytes_def demo_request_def del: be_bytes.simps)
qed

lemma demo_answer: "\<exists>F'. single_answer demo_codec log_ops 5 demo_request (demo_shard 0 2 2) = (F', Inr (logits_response 7 [] [0, 0, 1, 0]))"
  using demo_single by (auto split: prod.splits sum.splits)

lemma demo_next_token: "next_token log_ops demo_opts 0 (logits_response 7 [] [0, 0, 1, 0]) = Inr 1"
  using log_ops_wire(2) [of "[0, 1]"]
  by (simp add: next_token_def logits_response_def demo_opts_def last_logits_def
      sample_token_def greedy_mode_def scale_logits_def argmax_def max_by_def unwrap_or_def f64_partial_cmp_def upt_rec f64_le_def)

lemma demo_local_run:
  "\<exists>F'. run_via_local_bypass (\<lambda>_. single_answer demo_codec log_ops 5) log_ops demo_opts 7 [42] 0 [] (demo_shard 0 2 2) = (F', Inr [1])"
proof -
  obtain F' where F': "single_answer demo_codec log_ops 5 demo_request (demo_shard 0 2 2) = (F', Inr (logits_response 7 [] [0, 0, 1, 0]))"
    using demo_answer by blast
  have "run_via_local_bypass (\<lambda>_. single_answer demo_codec log_ops 5) log_ops demo_opts 7 [42] 0 [] (demo_shard 0 2 2) =
      (if (1 :: u32) = go_eos demo_opts \<or> go_max_tokens demo_opts \<le> Suc (length ([] :: u32 list)) then (F', Inr ([] @ [1]))
       else run_via_local_bypass (\<lambda>_. single_answer demo_codec log_ops 5) log_ops demo_opts 7 [1] (0 + length [42 :: u32]) ([] @ [1]) F')"
    by (rule local_bypass_next [where resp = "logits_response 7 [] [0, 0, 1, 0]"])
      (simp_all add: demo_token_request F' demo_next_token, simp add: logits_response_def)
  then show ?thesis by (simp add: demo_opts_def)
qed

theorem generation_equals_single_witness:
  "\<exists>st' events. stream_generate (\<lambda>_. cluster_env demo_codec log_ops 5 2 [] (token_request 7 0 [])) log_ops demo_opts
      (\<lambda>_. Some ''x'') (\<lambda>_. True) [demo_entry 3 0 1, demo_entry 4 1 2] [42]
      (demo_state [(3, demo_shard 0 1 2), (4, demo_shard 1 2 2)]) = (st', events, Inr [1])"
proof -
  let ?es = "[demo_entry 3 0 1, demo_entry 4 1 2]" and ?st = "demo_state [(3, demo_shard 0 1 2), (4, demo_shard 1 2 2)]"
  obtain F' where F': "run_via_local_bypass (\<lambda>_. single_answer demo_codec log_ops 5) log_ops demo_opts 7 [42] 0 [] (demo_shard 0 2 2) = (F', Inr [1])"
    using demo_local_run by blast
  have p: "build_pinned_path ?es 2 [] = Inr ?es"
    by (simp add: build_pinned_path_def build_pinned_step build_pinned_done covers_def demo_entry_def)
  have t: "tiles 2 0 ?es" "distinct (map be_peer_id ?es)" by (simp_all add: demo_entry_def)
  have s: "same_caches 2 ?es (fs_world ?st) (demo_shard 0 2 2)"
    by (simp add: same_caches_def serves_def joint_kv_def entry_kv_def demo_state_def hm_get_def two_zeros)
  show ?thesis
    using generation_equals_single [OF demo_codec_ok log_ops_lossless p t(1) _ t(2) s F', of "\<lambda>_. Some ''x''"] by auto
qed

text \<open>Tensors that record what each block finds in its cache, and caches that grow by one byte with
  every run: one node answers \<open>[]\<close> to the first request, the cluster answers \<open>[0]\<close> after a failover.\<close>

definition cache_ops :: "(bytes, bytes) tensor_ops" where
  "cache_ops = \<lparr>tp_embed = (\<lambda>_. Inr []),
     tp_block = (\<lambda>g x _ c. (Some (unwrap_or c [] @ [word_of_nat g]), Inr (x @ unwrap_or c []))),
     tp_head = Inr, tp_dims = (\<lambda>_. []), tp_f16 = (\<lambda>x. Inr (map ucast x)), tp_from_vec = (\<lambda>vs _. Inr (map ucast vs))\<rparr>"

lemma cache_ops_lossless: "f16_lossless cache_ops"
  by (simp add: f16_lossless_def cache_ops_def comp_def ucast_u16)

theorem failover_replays_step_witness:
  "snd (snd (forward_with_failover (cluster_env demo_codec cache_ops 5 2 [] demo_request)
      [demo_entry 3 0 1, demo_entry 5 1 2, demo_entry 4 1 2] [demo_entry 3 0 1, demo_entry 4 1 2] demo_request
      (demo_state [(3, demo_shard 0 1 2), (5, demo_shard 1 2 2)]))) = Inr (logits_response 7 [] [0, 0])"
proof -
  let ?st = "demo_state [(3, demo_shard 0 1 2), (5, demo_shard 1 2 2)]"
  have x: "payload_tensor cache_ops demo_request = Some []"
    by (simp add: payload_tensor_def demo_request_def bytes_to_token_ids_def cache_ops_def)
  have p: "build_pinned_path [demo_entry 3 0 1, demo_entry 5 1 2, demo_entry 4 1 2] 2 [be_peer_id (demo_entry 4 1 2)] =
      Inr [demo_entry 3 0 1, demo_entry 5 1 2]"
    by (simp add: build_pinned_path_def build_pinned_step build_pinned_done covers_def demo_entry_def)
  have r: "run_loop cache_ops 0 (unat (iq_seq_pos demo_request)) [] (session_kv (iq_session_id demo_request) (demo_shard 0 1 2)) = ([Some [0]], Inr [])"
    "run_loop cache_ops 0 (unat (iq_seq_pos demo_request)) [] [Some [0]] = ([Some [0, 0]], Inr [0])"
    "run_loop cache_ops 1 (unat (iq_seq_pos demo_request)) [0] (session_kv (iq_session_id demo_request) (demo_shard 1 2 2)) = ([Some [1]], Inr [0])"
    by (simp_all add: cache_ops_def unwrap_or_def)
  have o: "tp_head cache_ops [0] = Inr [0]" "tensor_to_f16_bytes cache_ops [0] = Inr ([], [0, 0])"
    using u16_bytes_ucast [of 0] by (simp_all add: cache_ops_def tensor_to_f16_bytes_def)
  have "snd (snd (forward_with_failover (cluster_env demo_codec cache_ops 5 2 [] demo_request)
      [demo_entry 3 0 1, demo_entry 5 1 2, demo_entry 4 1 2] [demo_entry 3 0 1, demo_entry 4 1 2] demo_request ?st)) =
      Inr (logits_response (iq_session_id demo_request) [] [0, 0])"
    by (rule failover_replays_step [OF demo_codec_ok cache_ops_lossless _ _ _ _ _ _ _ _ _ _ _ _ p _ _ _ _ _ _ _ _ _ x r o])
      (simp_all add: demo_state_def hm_get_def)
  then show ?thesis by (simp add: demo_request_def)
qed

theorem local_call_transparent_witness:
  "\<exists>F'. local_inference_call demo_codec log_ops 5 demo_request (Some (demo_shard 0 2 2)) =
    (Some F', Inr (logits_response 7 [] [0, 0, 1, 0]))"
proof -
  obtain F' where F': "single_answer demo_codec log_ops 5 demo_request (demo_shard 0 2 2) = (F', Inr (logits_response 7 [] [0, 0, 1, 0]))"
    using demo_answer by blast
  obtain bs rs where bs: "rc_enc_req demo_codec demo_request = Inr bs" "rc_enc_res demo_codec (logits_response 7 [] [0, 0, 1, 0]) = Inr rs"
    using demo_codec_ok unfolding rpc_codec_ok_def by blast
  have "length bs < 2 ^ 32" using bs(1) by (auto simp: demo_codec_def demo_request_def enc_list_def)
  moreover have "length rs < 2 ^ 32" using bs(2) by (auto simp: demo_codec_def logits_response_def enc_list_def)
  ultimately show ?thesis using local_call_transparent [OF demo_codec_ok bs(1) _ F' bs(2)] by blast
qed

end
