(* ===== verification/Credentials.thy ===== *)
theory Credentials
  imports Rust_Order
begin

text \<open>
  Verifiable credentials (\<open>kwaai-trust/src/credential.rs\<close>, \<open>did.rs\<close>, \<open>verify.rs\<close>). A
  \<open>DateTime<Utc>\<close> is a number of nanoseconds since the epoch and every reading of the clock is an
  argument. Base64, base58, Ed25519, peer ids and JSON are the record \<open>trust_lib\<close>.

  Lemmas: a signed credential verifies, whoever signs it and whatever issuer it names; a copy of a
  credential that differs anywhere outside its proof verifies with that proof only when the signature
  also verifies a second message under the signer's key.
\<close>

section \<open>Credentials\<close>

datatype kwaai_credential_type =
  SummitAttendeeVC | FiduciaryPledgeVC | VerifiedNodeVC | UptimeVC | ThroughputVC | PeerEndorsementVC | BindingVC

fun credential_type_as_str :: "kwaai_credential_type \<Rightarrow> string" where
  "credential_type_as_str SummitAttendeeVC = ''SummitAttendeeVC''"
| "credential_type_as_str FiduciaryPledgeVC = ''FiduciaryPledgeVC''"
| "credential_type_as_str VerifiedNodeVC = ''VerifiedNodeVC''"
| "credential_type_as_str UptimeVC = ''UptimeVC''"
| "credential_type_as_str ThroughputVC = ''ThroughputVC''"
| "credential_type_as_str PeerEndorsementVC = ''PeerEndorsementVC''"
| "credential_type_as_str BindingVC = ''BindingVC''"

fun trust_weight :: "kwaai_credential_type \<Rightarrow> f64" where
  "trust_weight FiduciaryPledgeVC = to_f64 (30 / 100)"
| "trust_weight VerifiedNodeVC = to_f64 (20 / 100)"
| "trust_weight UptimeVC = to_f64 (20 / 100)"
| "trust_weight ThroughputVC = to_f64 (15 / 100)"
| "trust_weight SummitAttendeeVC = to_f64 (10 / 100)"
| "trust_weight PeerEndorsementVC = to_f64 (5 / 100)"
| "trust_weight BindingVC = Fin 0"

definition from_type_str :: "string \<Rightarrow> kwaai_credential_type option" where
  "from_type_str s =
     (if s = ''SummitAttendeeVC'' then Some SummitAttendeeVC
      else if s = ''FiduciaryPledgeVC'' then Some FiduciaryPledgeVC
      else if s = ''VerifiedNodeVC'' then Some VerifiedNodeVC
      else if s = ''UptimeVC'' then Some UptimeVC
      else if s = ''ThroughputVC'' then Some ThroughputVC
      else if s = ''PeerEndorsementVC'' then Some PeerEndorsementVC
      else if s = ''BindingVC'' then Some BindingVC
      else None)"

text \<open>
  \<open>serde_json::Value\<close>, the type of a claim: a credential that is read from a file can hold any of them. A number is
  an unsigned or a signed integer or a finite float; an object is its members in order.
\<close>

datatype claim_value =
    JNull
  | JBool bool
  | JNumber u64
  | JSigned i64
  | JFloat f64
  | JString string
  | JArray "claim_value list"
  | JObject "(string \<times> claim_value) list"

record credential_subject =
  sub_id :: string
  sub_claims :: "(string, claim_value) hashmap"

definition subject_new :: "string \<Rightarrow> credential_subject" where
  "subject_new i = \<lparr>sub_id = i, sub_claims = []\<rparr>"

definition with_claim :: "string \<Rightarrow> claim_value \<Rightarrow> credential_subject \<Rightarrow> credential_subject" where
  "with_claim key value s = s\<lparr>sub_claims := hm_insert key value (sub_claims s)\<rparr>"

record credential_proof =
  pf_type :: string
  pf_created :: int
  pf_verification_method :: string
  pf_purpose :: string
  pf_value :: string

record verifiable_credential =
  vc_context :: "string list"
  vc_id :: "string option"
  vc_type :: "string list"
  vc_issuer :: string
  vc_issuance_date :: int
  vc_expiration_date :: "int option"
  vc_subject :: credential_subject
  vc_proof :: "credential_proof option"

definition vc_new :: "int \<Rightarrow> string \<Rightarrow> credential_subject \<Rightarrow> string list \<Rightarrow> verifiable_credential" where
  "vc_new now issuer subject types =
     \<lparr>vc_context = [''https://www.w3.org/2018/credentials/v1'', ''https://kwaai.ai/credentials/v1''], vc_id = None,
      vc_type = types, vc_issuer = issuer, vc_issuance_date = now, vc_expiration_date = None,
      vc_subject = subject, vc_proof = None\<rparr>"

fun find_map :: "('a \<Rightarrow> 'b option) \<Rightarrow> 'a list \<Rightarrow> 'b option" where
  "find_map f [] = None"
| "find_map f (x # xs) = (case f x of Some y \<Rightarrow> Some y | None \<Rightarrow> find_map f xs)"

definition kwaai_type :: "verifiable_credential \<Rightarrow> kwaai_credential_type option" where
  "kwaai_type vc = find_map from_type_str (vc_type vc)"

definition vc_is_expired :: "int \<Rightarrow> verifiable_credential \<Rightarrow> bool" where
  "vc_is_expired now vc = unwrap_or (map_option (\<lambda>e. e < now) (vc_expiration_date vc)) False"

definition days :: "int \<Rightarrow> int" where
  "days n = n * 86400 * 10 ^ 9"

text \<open>The constructors read the clock for the issuance date and again for the expiry.\<close>

definition summit_attendee_vc :: "int \<Rightarrow> int \<Rightarrow> string \<Rightarrow> string \<Rightarrow> string \<Rightarrow> string \<Rightarrow> verifiable_credential" where
  "summit_attendee_vc now now' issuer_did subject_did event_name event_date =
     (vc_new now issuer_did
        (with_claim ''eventDate'' (JString event_date) (with_claim ''eventName'' (JString event_name) (subject_new subject_did)))
        [''VerifiableCredential'', ''SummitAttendeeVC''])\<lparr>vc_expiration_date := Some (now' + days 730)\<rparr>"

definition fiduciary_pledge_vc :: "int \<Rightarrow> string \<Rightarrow> string \<Rightarrow> string \<Rightarrow> verifiable_credential" where
  "fiduciary_pledge_vc now issuer_did subject_did pledge_hash =
     vc_new now issuer_did
       (with_claim ''pledgeName'' (JString ''GliaNet Fiduciary Pledge v1'')
         (with_claim ''pledgeHash'' (JString pledge_hash) (subject_new subject_did)))
       [''VerifiableCredential'', ''FiduciaryPledgeVC'']"

definition peer_endorsement_vc :: "int \<Rightarrow> int \<Rightarrow> string \<Rightarrow> string \<Rightarrow> u64 \<Rightarrow> verifiable_credential" where
  "peer_endorsement_vc now now' issuer_did subject_did interaction_count =
     (vc_new now issuer_did
        (with_claim ''interactionCount'' (JNumber interaction_count) (subject_new subject_did))
        [''VerifiableCredential'', ''PeerEndorsementVC''])\<lparr>vc_expiration_date := Some (now' + days 90)\<rparr>"

definition binding_vc :: "int \<Rightarrow> string \<Rightarrow> string \<Rightarrow> string \<Rightarrow> verifiable_credential" where
  "binding_vc now issuer_did node_did passkey_did =
     vc_new now issuer_did
       (with_claim ''linkType'' (JString ''PasskeyBinding'')
         (with_claim ''linkedIdentity'' (JString passkey_did) (subject_new node_did)))
       [''VerifiableCredential'', ''BindingVC'']"

section \<open>Libraries\<close>

record 'p trust_lib =
  tl_base58 :: "'p \<Rightarrow> string"
  tl_parse_peer :: "string \<Rightarrow> 'p option"
  tl_peer_bytes :: "'p \<Rightarrow> bytes"
  tl_bs58_encode :: "bytes \<Rightarrow> string"
  tl_b64_encode :: "bytes \<Rightarrow> string"
  tl_b64_decode :: "string \<Rightarrow> bytes option"
  tl_key_ok :: "bytes \<Rightarrow> bool"
  tl_verify :: "bytes \<Rightarrow> bytes \<Rightarrow> bytes \<Rightarrow> bool"
  tl_sign :: "bytes \<Rightarrow> bytes \<Rightarrow> bytes"
  tl_json :: "verifiable_credential \<Rightarrow> string + bytes"

text \<open>
  The text that \<open>to_string\<close> writes lists the fields and the claims, the claims in the iteration order of
  their \<open>HashMap\<close>.
\<close>

definition to_signing_bytes :: "'p trust_lib \<Rightarrow> verifiable_credential \<Rightarrow> string + bytes" where
  "to_signing_bytes L vc = tl_json L (vc\<lparr>vc_proof := None\<rparr>)"

section \<open>DIDs\<close>

definition peer_id_to_did :: "'p trust_lib \<Rightarrow> 'p \<Rightarrow> string" where
  "peer_id_to_did L p = ''did:peer:'' @ tl_base58 L p"

definition did_to_peer_id :: "'p trust_lib \<Rightarrow> string \<Rightarrow> 'p option" where
  "did_to_peer_id L did = Option.bind (strip_prefix ''did:peer:'' did) (tl_parse_peer L)"

definition did_matches_peer :: "'p trust_lib \<Rightarrow> string \<Rightarrow> 'p \<Rightarrow> bool" where
  "did_matches_peer L did p = unwrap_or (map_option (\<lambda>q. q = p) (did_to_peer_id L did)) False"

definition verification_method :: "'p trust_lib \<Rightarrow> 'p \<Rightarrow> string" where
  "verification_method L p = peer_id_to_did L p @ ''#key-1''"

text \<open>The scan over start positions that leave 36 bytes.\<close>

function scan_ed25519 :: "bytes \<Rightarrow> bytes option" where
  "scan_ed25519 bs =
     (if length bs < 36 then None
      else if bs ! 0 = 0x08 \<and> bs ! 1 = 0x01 \<and> bs ! 2 = 0x12 \<and> bs ! 3 = 0x20 then Some (take 32 (drop 4 bs))
      else scan_ed25519 (tl bs))"
  by pat_completeness auto
termination
  by (relation "measure length") auto

declare scan_ed25519.simps [simp del]

definition extract_ed25519_bytes :: "'p trust_lib \<Rightarrow> 'p \<Rightarrow> bytes option" where
  "extract_ed25519_bytes L p = scan_ed25519 (tl_peer_bytes L p)"

definition p256_spki_to_did :: "'p trust_lib \<Rightarrow> bytes \<Rightarrow> string + string" where
  "p256_spki_to_did L spki =
     (if length spki < 65 then Inl ''SPKI too short''
      else let uncompressed = drop (length spki - 65) spki in
        if uncompressed ! 0 \<noteq> 0x04 then Inl ''Expected uncompressed point prefix 0x04''
        else let x = take 32 (drop 1 uncompressed);
                 y_lsb = uncompressed ! 64;
                 prefix = (if even (unat y_lsb) then 0x02 else 0x03)
             in Inr (''did:key:z'' @ tl_bs58_encode L ([0x80, 0x24] @ prefix # x)))"

section \<open>Verification and signing\<close>

record verification_result =
  vr_structure_valid :: bool
  vr_signature_valid :: "bool option"
  vr_message :: string

definition vr_is_valid :: "verification_result \<Rightarrow> bool" where
  "vr_is_valid r \<longleftrightarrow> vr_structure_valid r \<and> vr_signature_valid r = Some True"

definition invalid_structure :: "string \<Rightarrow> verification_result" where
  "invalid_structure msg = \<lparr>vr_structure_valid = False, vr_signature_valid = None, vr_message = msg\<rparr>"

definition verify_ed25519_proof :: "'p trust_lib \<Rightarrow> verifiable_credential \<Rightarrow> string + bool" where
  "verify_ed25519_proof L vc =
     (case vc_proof vc of
        None \<Rightarrow> Inl ''no proof''
      | Some proof \<Rightarrow>
          (case tl_b64_decode L (pf_value proof) of
             None \<Rightarrow> Inl ''decoding proofValue base64url''
           | Some sig_bytes \<Rightarrow>
               if length sig_bytes \<noteq> 64 then Inl ''Expected 64-byte Ed25519 signature''
               else let did = hd (split_char CHR ''#'' (pf_verification_method proof)) in
                 case did_to_peer_id L did of
                   None \<Rightarrow> Inl (''could not parse DID as PeerId: '' @ did)
                 | Some p \<Rightarrow>
                     (case extract_ed25519_bytes L p of
                        None \<Rightarrow> Inl ''could not extract Ed25519 key from PeerId''
                      | Some key \<Rightarrow>
                          if \<not> tl_key_ok L key then Inl ''invalid Ed25519 public key''
                          else case to_signing_bytes L vc of
                            Inl e \<Rightarrow> Inl e
                          | Inr payload \<Rightarrow> Inr (tl_verify L key payload sig_bytes))))"

definition verify :: "'p trust_lib \<Rightarrow> int \<Rightarrow> verifiable_credential \<Rightarrow> verification_result" where
  "verify L now vc =
     (if vc_type vc = [] then invalid_structure ''Missing credential type''
      else if vc_issuer vc = [] then invalid_structure ''Missing issuer DID''
      else if sub_id (vc_subject vc) = [] then invalid_structure ''Missing subject DID''
      else if vc_is_expired now vc then invalid_structure ''Credential has expired''
      else case vc_proof vc of
        None \<Rightarrow> \<lparr>vr_structure_valid = True, vr_signature_valid = None, vr_message = ''Credential has no proof (unverified)''\<rparr>
      | Some proof \<Rightarrow>
          if pf_type proof \<noteq> ''Ed25519Signature2020''
          then \<lparr>vr_structure_valid = True, vr_signature_valid = None, vr_message = ''Unsupported proof type: '' @ pf_type proof\<rparr>
          else case verify_ed25519_proof L vc of
            Inr True \<Rightarrow> \<lparr>vr_structure_valid = True, vr_signature_valid = Some True, vr_message = ''Signature verified''\<rparr>
          | Inr False \<Rightarrow> \<lparr>vr_structure_valid = True, vr_signature_valid = Some False, vr_message = ''Signature verification failed''\<rparr>
          | Inl e \<Rightarrow> \<lparr>vr_structure_valid = True, vr_signature_valid = Some False, vr_message = ''Verification error: '' @ e\<rparr>)"

definition sign_credential_bytes ::
    "'p trust_lib \<Rightarrow> int \<Rightarrow> bytes \<Rightarrow> 'p \<Rightarrow> verifiable_credential \<Rightarrow> string + verifiable_credential" where
  "sign_credential_bytes L now secret_key_bytes issuer_peer_id vc =
     (case to_signing_bytes L vc of
        Inl e \<Rightarrow> Inl e
      | Inr payload \<Rightarrow>
          Inr (vc\<lparr>vc_proof := Some \<lparr>pf_type = ''Ed25519Signature2020'', pf_created = now,
                 pf_verification_method = verification_method L issuer_peer_id,
                 pf_purpose = ''assertionMethod'',
                 pf_value = tl_b64_encode L (tl_sign L secret_key_bytes payload)\<rparr>\<rparr>))"

section \<open>What the libraries document\<close>

text \<open>\<open>pub\<close> gives the public key of a secret key, \<open>peer_of\<close> the peer id of a public key: the identity
  multihash of the protobuf encoding of the key.\<close>

definition trust_lib_ok :: "'p trust_lib \<Rightarrow> (bytes \<Rightarrow> bytes) \<Rightarrow> (bytes \<Rightarrow> 'p) \<Rightarrow> bool" where
  "trust_lib_ok L pub peer_of \<longleftrightarrow>
     (\<forall>p. tl_parse_peer L (tl_base58 L p) = Some p \<and> CHR ''#'' \<notin> set (tl_base58 L p)) \<and>
     (\<forall>bs. tl_b64_decode L (tl_b64_encode L bs) = Some bs) \<and>
     (\<forall>sk. length (pub sk) = 32 \<and> tl_key_ok L (pub sk) \<and>
        tl_peer_bytes L (peer_of (pub sk)) = [0x00, 0x24, 0x08, 0x01, 0x12, 0x20] @ pub sk) \<and>
     (\<forall>sk msg. length (tl_sign L sk msg) = 64 \<and> tl_verify L (pub sk) msg (tl_sign L sk msg))"

text \<open>
  JSON as a text format: the text of a credential determines its fields and the sequence of its claims, so
  two credentials with the same text are equal.
\<close>

definition json_faithful :: "'p trust_lib \<Rightarrow> bool" where
  "json_faithful L \<longleftrightarrow> (\<forall>vc vc' b. tl_json L vc = Inr b \<longrightarrow> tl_json L vc' = Inr b \<longrightarrow> vc = vc')"

lemma split_char_hd: "c \<notin> set s \<Longrightarrow> hd (split_char c (s @ c # t)) = s"
proof (induction s)
  case (Cons d s)
  then have "hd (split_char c (s @ c # t)) = s" by simp
  moreover have "split_char c (s @ c # t) \<noteq> []" by (cases "s @ c # t") (auto split: list.splits)
  ultimately show ?case using Cons.prems by (auto split: list.splits)
qed simp

lemma did_roundtrip: "trust_lib_ok L pub peer_of \<Longrightarrow> did_to_peer_id L (peer_id_to_did L p) = Some p"
  by (simp add: trust_lib_ok_def did_to_peer_id_def peer_id_to_did_def)

lemma verification_method_did:
  "trust_lib_ok L pub peer_of \<Longrightarrow> hd (split_char CHR ''#'' (verification_method L p)) = peer_id_to_did L p"
  using split_char_hd [of "CHR ''#''" "peer_id_to_did L p" "''key-1''"]
  by (simp add: trust_lib_ok_def verification_method_def peer_id_to_did_def)

lemma extract_peer_key:
  assumes "trust_lib_ok L pub peer_of"
  shows "extract_ed25519_bytes L (peer_of (pub sk)) = Some (pub sk)"
proof -
  have b: "tl_peer_bytes L (peer_of (pub sk)) = 0x00 # 0x24 # 0x08 # 0x01 # 0x12 # 0x20 # pub sk" "length (pub sk) = 32"
    using assms by (simp_all add: trust_lib_ok_def)
  have "scan_ed25519 (0x08 # 0x01 # 0x12 # 0x20 # pub sk) = Some (pub sk)"
    using b(2) by (subst scan_ed25519.simps) simp
  then have "scan_ed25519 (0x24 # 0x08 # 0x01 # 0x12 # 0x20 # pub sk) = Some (pub sk)"
    using b(2) by (subst scan_ed25519.simps) simp
  then show ?thesis
    unfolding extract_ed25519_bytes_def b(1) using b(2) by (subst scan_ed25519.simps) simp
qed

text \<open>When a verification succeeds, a signature has been checked.\<close>

lemma valid_signature:
  assumes "vr_is_valid (verify L now vc)"
  obtains pf sg p key payload where "vc_proof vc = Some pf" "tl_b64_decode L (pf_value pf) = Some sg"
    "did_to_peer_id L (hd (split_char CHR ''#'' (pf_verification_method pf))) = Some p"
    "extract_ed25519_bytes L p = Some key" "to_signing_bytes L vc = Inr payload" "tl_verify L key payload sg"
proof -
  have v: "verify_ed25519_proof L vc = Inr True"
    using assms by (auto simp: verify_def vr_is_valid_def invalid_structure_def split: if_splits option.splits sum.splits bool.splits)
  show thesis
    using v that by (auto simp: verify_ed25519_proof_def Let_def split: option.splits if_splits sum.splits)
qed

lemma sign_verifies:
  assumes "trust_lib_ok L pub peer_of" "sign_credential_bytes L t sk (peer_of (pub sk)) vc = Inr vc'"
    and "vc_type vc \<noteq> []" "vc_issuer vc \<noteq> []" "sub_id (vc_subject vc) \<noteq> []" "\<not> vc_is_expired now vc"
  shows "vr_is_valid (verify L now vc') \<and> vc_issuer vc' = vc_issuer vc"
proof -
  obtain payload where pl: "to_signing_bytes L vc = Inr payload"
    and vc': "vc' = vc\<lparr>vc_proof := Some \<lparr>pf_type = ''Ed25519Signature2020'', pf_created = t,
        pf_verification_method = verification_method L (peer_of (pub sk)), pf_purpose = ''assertionMethod'',
        pf_value = tl_b64_encode L (tl_sign L sk payload)\<rparr>\<rparr>"
    using assms(2) by (auto simp: sign_credential_bytes_def split: sum.splits)
  have lib: "tl_b64_decode L (tl_b64_encode L bs) = Some bs" "length (tl_sign L sk msg) = 64"
    "tl_verify L (pub sk) msg (tl_sign L sk msg)" "tl_key_ok L (pub sk)" for bs msg
    using assms(1) by (auto simp: trust_lib_ok_def)
  have "to_signing_bytes L vc' = Inr payload" using pl by (simp add: vc' to_signing_bytes_def)
  then have "verify_ed25519_proof L vc' = Inr True"
    by (simp add: verify_ed25519_proof_def vc' lib verification_method_did [OF assms(1)] did_roundtrip [OF assms(1)]
        extract_peer_key [OF assms(1)])
  then show ?thesis
    using assms(3-6) by (simp add: verify_def vc' vr_is_valid_def vc_is_expired_def)
qed

section \<open>Properties\<close>

text \<open>
  C8: Signing and verifying. A credential with a type, a subject and any non-empty issuer, not yet
  expired, verifies after it is signed. The key that is checked is the one named in the proof, so
  this holds for every signer \<open>sk\<close>, also one that has nothing to do with the issuer the credential
  names.
\<close>

theorem signed_credential_verifies:
  assumes "trust_lib_ok L pub peer_of" "sign_credential_bytes L t sk (peer_of (pub sk)) vc = Inr vc'"
    and "vc_type vc \<noteq> []" "vc_issuer vc \<noteq> []" "sub_id (vc_subject vc) \<noteq> []" "\<not> vc_is_expired now vc"
  shows "vr_is_valid (verify L now vc') \<and> vc_issuer vc' = vc_issuer vc"
  by (rule sign_verifies [OF assms])

text \<open>
  C9: Tampering. Suppose a credential verifies, and a copy that carries the same proof but differs in
  anything else (type, issuer, dates, subject, a claim or the order of the claims) verifies too, at whatever
  times. Then the signature of the proof verifies two different messages, the signed bytes of the two
  credentials, under the one key that the proof names, which is what the signature scheme excludes. The
  hypothesis on the library is that JSON text determines the credential it was written from.
\<close>

theorem tampering_needs_forgery:
  assumes "json_faithful L" "vr_is_valid (verify L now vc)" "vr_is_valid (verify L now' vc')"
    and "vc_proof vc = Some pf" "vc_proof vc' = Some pf" "vc \<noteq> vc'"
  shows "\<exists>sg p key m m'. tl_b64_decode L (pf_value pf) = Some sg \<and>
    did_to_peer_id L (hd (split_char CHR ''#'' (pf_verification_method pf))) = Some p \<and> extract_ed25519_bytes L p = Some key \<and>
    to_signing_bytes L vc = Inr m \<and> to_signing_bytes L vc' = Inr m' \<and> m \<noteq> m' \<and> tl_verify L key m sg \<and> tl_verify L key m' sg"
proof -
  obtain sg p key m where v: "tl_b64_decode L (pf_value pf) = Some sg"
    "did_to_peer_id L (hd (split_char CHR ''#'' (pf_verification_method pf))) = Some p"
    "extract_ed25519_bytes L p = Some key" "to_signing_bytes L vc = Inr m" "tl_verify L key m sg"
    using valid_signature [OF assms(2)] assms(4) by (metis option.inject)
  obtain sg' p' key' m' where v': "tl_b64_decode L (pf_value pf) = Some sg'"
    "did_to_peer_id L (hd (split_char CHR ''#'' (pf_verification_method pf))) = Some p'"
    "extract_ed25519_bytes L p' = Some key'" "to_signing_bytes L vc' = Inr m'" "tl_verify L key' m' sg'"
    using valid_signature [OF assms(3)] assms(5) by (metis option.inject)
  have "sg' = sg" "p' = p" using v(1,2) v'(1,2) by simp_all
  then have "key' = key" using v(3) v'(3) by simp
  moreover have "m \<noteq> m'"
  proof
    assume "m = m'"
    then have "vc\<lparr>vc_proof := None\<rparr> = vc'\<lparr>vc_proof := None\<rparr>"
      using assms(1) v(4) v'(4) unfolding json_faithful_def to_signing_bytes_def by blast
    then have "vc\<lparr>vc_proof := Some pf\<rparr> = vc'\<lparr>vc_proof := Some pf\<rparr>"
      by (metis verifiable_credential.update_convs(8) verifiable_credential.surjective)
    with assms(4-6) show False by (metis verifiable_credential.surjective verifiable_credential.update_convs(8))
  qed
  ultimately show ?thesis using v v' \<open>sg' = sg\<close> by blast
qed

section \<open>Instances\<close>

text \<open>Bytes as pairs of letters; a peer id is its bytes; every 64-byte string is a signature.\<close>

definition demo_hex :: "bytes \<Rightarrow> string" where
  "demo_hex bs = concat (map (\<lambda>b. [char_of (65 + unat b div 16), char_of (65 + unat b mod 16)]) bs)"

fun demo_unhex :: "string \<Rightarrow> bytes" where
  "demo_unhex (a # b # s) = word_of_nat ((of_char a - 65) * 16 + (of_char b - 65)) # demo_unhex s"
| "demo_unhex _ = []"

lemma demo_unhex_hex: "demo_unhex (demo_hex bs) = bs"
proof (induction bs)
  case (Cons b bs)
  have "unat b div 16 < 16" using unsigned_less [of b, where ?'a = nat] by simp
  then have "(of_char (char_of (65 + unat b div 16)) :: nat) = 65 + unat b div 16"
    "(of_char (char_of (65 + unat b mod 16)) :: nat) = 65 + unat b mod 16"
    by (simp_all add: of_char_of)
  with Cons show ?case by (simp add: demo_hex_def)
qed (simp add: demo_hex_def)

lemma demo_hex_no_hash: "CHR ''#'' \<notin> set (demo_hex bs)"
proof -
  have "char_of (65 + n) \<noteq> CHR ''#''" if "n < 16" for n :: nat
  proof
    assume "char_of (65 + n) = CHR ''#''"
    then have "(of_char (char_of (65 + n)) :: nat) = of_char (CHR ''#'')" by (rule arg_cong)
    with that show False by (simp add: of_char_of)
  qed
  moreover have "unat b div 16 < 16" for b :: u8 using unsigned_less [of b, where ?'a = nat] by simp
  ultimately show ?thesis by (simp add: demo_hex_def) (metis mod_less_divisor zero_less_numeral)
qed

instance claim_value :: countable
  by countable_datatype

instance credential_subject_ext :: (countable) countable
  by (rule countable_classI [of "\<lambda>r. to_nat (sub_id r, sub_claims r, credential_subject.more r)"]) (simp add: credential_subject.equality)

instance credential_proof_ext :: (countable) countable
  by (rule countable_classI [of "\<lambda>r. to_nat (pf_type r, pf_created r, pf_verification_method r, pf_purpose r, pf_value r, credential_proof.more r)"])
    (simp add: credential_proof.equality)

instance verifiable_credential_ext :: (countable) countable
  by (rule countable_classI [of "\<lambda>r. to_nat (vc_context r, vc_id r, vc_type r, vc_issuer r, vc_issuance_date r, vc_expiration_date r,
      vc_subject r, vc_proof r, verifiable_credential.more r)"])
    (simp add: verifiable_credential.equality)

definition demo_trust_lib :: "bytes trust_lib" where
  "demo_trust_lib = \<lparr>tl_base58 = demo_hex, tl_parse_peer = (\<lambda>s. Some (demo_unhex s)), tl_peer_bytes = (\<lambda>p. p),
     tl_bs58_encode = demo_hex, tl_b64_encode = demo_hex, tl_b64_decode = (\<lambda>s. Some (demo_unhex s)),
     tl_key_ok = (\<lambda>_. True), tl_verify = (\<lambda>_ _ sg. length sg = 64), tl_sign = (\<lambda>_ _. replicate 64 0),
     tl_json = (\<lambda>vc. Inr (unary vc))\<rparr>"

abbreviation demo_pub :: "bytes \<Rightarrow> bytes" where
  "demo_pub _ \<equiv> replicate 32 0"

abbreviation demo_peer_of :: "bytes \<Rightarrow> bytes" where
  "demo_peer_of key \<equiv> [0x00, 0x24, 0x08, 0x01, 0x12, 0x20] @ key"

lemma demo_trust_lib_ok: "trust_lib_ok demo_trust_lib demo_pub demo_peer_of"
  by (simp add: trust_lib_ok_def demo_trust_lib_def demo_unhex_hex demo_hex_no_hash)

lemma demo_json_faithful: "json_faithful demo_trust_lib"
  by (auto simp: json_faithful_def demo_trust_lib_def unary_inj)

definition demo_vc :: "string \<Rightarrow> verifiable_credential" where
  "demo_vc issuer = fiduciary_pledge_vc 0 issuer ''did:peer:node'' ''hash''"

lemma demo_vc_facts:
  "vc_type (demo_vc i) \<noteq> []" "vc_issuer (demo_vc i) = i" "sub_id (vc_subject (demo_vc i)) = ''did:peer:node''"
  "\<not> vc_is_expired t (demo_vc i)"
  by (simp_all add: demo_vc_def fiduciary_pledge_vc_def vc_new_def with_claim_def subject_new_def vc_is_expired_def)

theorem signed_credential_verifies_witness:
  "\<exists>vc'. sign_credential_bytes demo_trust_lib 1 [] (demo_peer_of (demo_pub [])) (demo_vc ''did:peer:glianet'') = Inr vc' \<and>
    vr_is_valid (verify demo_trust_lib 2 vc')"
proof -
  obtain vc' where vc': "sign_credential_bytes demo_trust_lib 1 [] (demo_peer_of (demo_pub [])) (demo_vc ''did:peer:glianet'') = Inr vc'"
    by (simp add: sign_credential_bytes_def to_signing_bytes_def demo_trust_lib_def)
  from signed_credential_verifies [OF demo_trust_lib_ok vc', of 2] vc' show ?thesis by (simp add: demo_vc_facts)
qed

text \<open>Under a scheme that accepts every signature, a credential with another issuer verifies, by a second message.\<close>

theorem tampering_needs_forgery_witness:
  "\<exists>a b sg key m m'. vc_issuer a = ''aa'' \<and> vc_issuer b = ''b'' \<and>
    to_signing_bytes demo_trust_lib a = Inr m \<and> to_signing_bytes demo_trust_lib b = Inr m' \<and>
    m \<noteq> m' \<and> tl_verify demo_trust_lib key m sg \<and> tl_verify demo_trust_lib key m' sg"
proof -
  let ?sign = "\<lambda>i. sign_credential_bytes demo_trust_lib 1 [] (demo_peer_of (demo_pub [])) (demo_vc i)"
  obtain a b where a: "?sign ''aa'' = Inr a" and b: "?sign ''b'' = Inr b"
    by (simp add: sign_credential_bytes_def to_signing_bytes_def demo_trust_lib_def)
  have v: "vr_is_valid (verify demo_trust_lib 2 a)" "vr_is_valid (verify demo_trust_lib 2 b)"
    using sign_verifies [OF demo_trust_lib_ok a, of 2] sign_verifies [OF demo_trust_lib_ok b, of 2]
    by (simp_all add: demo_vc_facts)
  have i: "vc_issuer a = ''aa''" "vc_issuer b = ''b''"
    using sign_verifies [OF demo_trust_lib_ok a, of 2] sign_verifies [OF demo_trust_lib_ok b, of 2] by (simp_all add: demo_vc_facts)
  then have "a \<noteq> b" by auto
  moreover obtain pf where "vc_proof a = Some pf" "vc_proof b = Some pf"
    using a b by (auto simp: sign_credential_bytes_def to_signing_bytes_def demo_trust_lib_def)
  ultimately show ?thesis using tampering_needs_forgery [OF demo_json_faithful v] i by blast
qed

end
