(* ===== verification/Credential_Store.thy ===== *)
theory Credential_Store
  imports Credentials
begin

text \<open>
  The credential store (\<open>kwaai-trust/src/storage.rs\<close>), the trust score computed from credentials
  (\<open>kwaai-trust/src/trust_score.rs\<close>) and the identity commands that use both
  (\<open>kwaai-cli/src/identity.rs\<close>). The directory maps the names of its readable files to their texts and has no
  subdirectories; JSON and the printed
  date are parameters, and so is \<open>0.5.powf\<close>. A write can fail before or after the file was truncated. Readings of the clock are functions of the position
  of the credential in the list that is walked.

  Lemmas: saving replaces exactly the credentials with the same file name; the score stays in the
  unit interval and does not depend on proofs.
\<close>

section \<open>The store\<close>

record 'f store_lib =
  sl_to_json :: "verifiable_credential \<Rightarrow> string + 'f"
  sl_from_json :: "'f \<Rightarrow> verifiable_credential option"
  sl_date :: "int \<Rightarrow> string"

definition to_lowercase :: "string \<Rightarrow> string" where
  "to_lowercase s = map (\<lambda>c. if 65 \<le> (of_char c :: nat) \<and> (of_char c :: nat) \<le> 90 then char_of (of_char c + 32 :: nat) else c) s"

definition vc_filename :: "'f store_lib \<Rightarrow> verifiable_credential \<Rightarrow> string" where
  "vc_filename L vc =
     (let ty = unwrap_or (map_option (\<lambda>t. to_lowercase (credential_type_as_str t)) (kwaai_type vc)) ''credential'';
          issued = sl_date L (vc_issuance_date vc);
          issuer_prefix = unwrap_or (map_option (take 8) (strip_prefix ''did:peer:'' (vc_issuer vc))) ''unknown''
      in ty @ ''-'' @ issued @ ''-'' @ issuer_prefix @ ''.json'')"

text \<open>
  \<open>std::fs::write\<close> fails when the file cannot be opened, or in the middle, when it leaves a torn text behind. A name
  with a slash names a file in a directory that does not exist, and a name with a zero byte is refused. The
  error names the path.
\<close>

datatype 'f write_fault = OpenFails | TornWrite 'f

definition store_save ::
    "'f store_lib \<Rightarrow> 'f write_fault option \<Rightarrow> verifiable_credential \<Rightarrow> (string, 'f) hashmap \<Rightarrow> (string, 'f) hashmap \<times> (string + unit)" where
  "store_save L fault vc dir =
     (let filename = vc_filename L vc; err = Inl (''writing credential: '' @ filename) in
      case sl_to_json L vc of
        Inl e \<Rightarrow> (dir, Inl e)
      | Inr json \<Rightarrow>
          if CHR ''/'' \<in> set filename \<or> CHR 0x00 \<in> set filename then (dir, err)
          else case fault of
            None \<Rightarrow> (hm_insert filename json dir, Inr ())
          | Some OpenFails \<Rightarrow> (dir, err)
          | Some (TornWrite torn) \<Rightarrow> (hm_insert filename torn dir, err))"

definition import_file ::
    "'f store_lib \<Rightarrow> 'f write_fault option \<Rightarrow> 'f \<Rightarrow> (string, 'f) hashmap \<Rightarrow> (string, 'f) hashmap \<times> (string + verifiable_credential)" where
  "import_file L fault text dir =
     (case sl_from_json L text of
        None \<Rightarrow> (dir, Inl ''parsing credential JSON'')
      | Some vc \<Rightarrow>
          (case store_save L fault vc dir of
             (dir', Inl e) \<Rightarrow> (dir', Inl e)
           | (dir', Inr _) \<Rightarrow> (dir', Inr vc)))"

definition json_extension :: "string \<Rightarrow> bool" where
  "json_extension name \<longleftrightarrow> starts_with (rev ''.json'') (rev name) \<and> length ''.json'' < length name"

definition load_all :: "'f store_lib \<Rightarrow> (string, 'f) hashmap \<Rightarrow> verifiable_credential list" where
  "load_all L dir =
     List.map_filter (\<lambda>(name, text). if json_extension name then sl_from_json L text else None) dir"

definition load_for_subject :: "'f store_lib \<Rightarrow> string \<Rightarrow> (string, 'f) hashmap \<Rightarrow> verifiable_credential list" where
  "load_for_subject L did dir = filter (\<lambda>vc. sub_id (vc_subject vc) = did) (load_all L dir)"

fun keep_unexpired :: "(nat \<Rightarrow> int) \<Rightarrow> nat \<Rightarrow> verifiable_credential list \<Rightarrow> verifiable_credential list" where
  "keep_unexpired clk i [] = []"
| "keep_unexpired clk i (vc # vcs) =
     (if vc_is_expired (clk i) vc then keep_unexpired clk (Suc i) vcs else vc # keep_unexpired clk (Suc i) vcs)"

definition load_valid_for_subject ::
    "'f store_lib \<Rightarrow> (nat \<Rightarrow> int) \<Rightarrow> string \<Rightarrow> (string, 'f) hashmap \<Rightarrow> verifiable_credential list" where
  "load_valid_for_subject L clk did dir = keep_unexpired clk 0 (load_for_subject L did dir)"

section \<open>The trust score\<close>

record credential_score =
  ts_score :: f64
  ts_credential_contribution :: f64
  ts_peer_endorsement_contribution :: f64
  ts_credential_count :: nat

text \<open>\<open>num_days\<close> truncates towards zero.\<close>

definition num_days :: "int \<Rightarrow> int" where
  "num_days d = (if 0 \<le> d then d div days 1 else - ((- d) div days 1))"

definition time_decay :: "(f64 \<Rightarrow> f64) \<Rightarrow> int \<Rightarrow> int \<Rightarrow> f64" where
  "time_decay pow_half now issuance_date =
     (let age_days = f64_of_nat (nat (max (num_days (now - issuance_date)) 0))
      in pow_half (f64_div age_days (Fin 365)))"

fun score_loop ::
    "(f64 \<Rightarrow> f64) \<Rightarrow> (nat \<Rightarrow> int) \<Rightarrow> nat \<Rightarrow> verifiable_credential list \<Rightarrow> f64 \<Rightarrow> nat \<Rightarrow> f64 \<times> nat" where
  "score_loop pow_half clk i [] sc n = (sc, n)"
| "score_loop pow_half clk i (vc # vcs) sc n =
     (if vc_is_expired (clk (2 * i)) vc then score_loop pow_half clk (Suc i) vcs sc n
      else case kwaai_type vc of
        None \<Rightarrow> score_loop pow_half clk (Suc i) vcs sc n
      | Some ty \<Rightarrow>
          score_loop pow_half clk (Suc i) vcs
            (f64_add sc (f64_mul (trust_weight ty) (time_decay pow_half (clk (2 * i + 1)) (vc_issuance_date vc))))
            (Suc n))"

definition from_credentials :: "(f64 \<Rightarrow> f64) \<Rightarrow> (nat \<Rightarrow> int) \<Rightarrow> verifiable_credential list \<Rightarrow> credential_score" where
  "from_credentials pow_half clk vcs =
     (let (sc, count) = score_loop pow_half clk 0 vcs (Fin 0) 0; capped = f64_min sc (Fin 1)
      in \<lparr>ts_score = capped, ts_credential_contribution = capped, ts_peer_endorsement_contribution = Fin 0,
          ts_credential_count = count\<rparr>)"

definition tier_label :: "credential_score \<Rightarrow> string" where
  "tier_label s =
     (if f64_le (to_f64 (70 / 100)) (ts_score s) then ''Trusted''
      else if f64_le (to_f64 (40 / 100)) (ts_score s) then ''Verified''
      else if f64_le (to_f64 (10 / 100)) (ts_score s) then ''Known''
      else ''Unknown'')"

definition max_single_weight :: f64 where
  "max_single_weight =
     foldl f64_max (Fin 0)
       (map trust_weight [FiduciaryPledgeVC, VerifiedNodeVC, UptimeVC, ThroughputVC, SummitAttendeeVC, PeerEndorsementVC])"

section \<open>The identity commands\<close>

definition import_vc ::
    "'p trust_lib \<Rightarrow> 'f store_lib \<Rightarrow> 'f write_fault option \<Rightarrow> int \<Rightarrow> 'f \<Rightarrow> (string, 'f) hashmap
      \<Rightarrow> (string, 'f) hashmap \<times> (string + verification_result)" where
  "import_vc T L fault now text dir =
     (case import_file L fault text dir of
        (dir', Inl e) \<Rightarrow> (dir', Inl e)
      | (dir', Inr vc) \<Rightarrow> (dir', Inr (verify T now vc)))"

definition show_identity ::
    "(f64 \<Rightarrow> f64) \<Rightarrow> 'f store_lib \<Rightarrow> (nat \<Rightarrow> int) \<Rightarrow> (nat \<Rightarrow> int) \<Rightarrow> string \<Rightarrow> (string, 'f) hashmap \<Rightarrow> credential_score \<times> string" where
  "show_identity pow_half L clk clk' did dir =
     (let vcs = load_valid_for_subject L clk did dir; sc = from_credentials pow_half clk' vcs
      in (sc, tier_label sc))"

section \<open>Facts about the store\<close>

text \<open>
  The documented round trip of the JSON library. Credentials that differ only in the iteration order of their
  claims are one credential to the store, which never looks at that order.
\<close>

definition store_lib_ok :: "'f store_lib \<Rightarrow> bool" where
  "store_lib_ok L \<longleftrightarrow> (\<forall>vc text. sl_to_json L vc = Inr text \<longrightarrow> sl_from_json L text = Some vc)"

text \<open>A torn text is a proper prefix of a JSON object, which is not JSON.\<close>

fun fault_ok :: "'f store_lib \<Rightarrow> 'f write_fault option \<Rightarrow> bool" where
  "fault_ok L (Some (TornWrite torn)) \<longleftrightarrow> sl_from_json L torn = None"
| "fault_ok L _ \<longleftrightarrow> True"

inductive store_reachable :: "'f store_lib \<Rightarrow> (string, 'f) hashmap \<Rightarrow> bool" for L where
  empty: "store_reachable L []"
| saved: "store_reachable L dir \<Longrightarrow> fault_ok L fault \<Longrightarrow> store_reachable L (fst (store_save L fault vc dir))"
| imported: "store_reachable L dir \<Longrightarrow> fault_ok L fault \<Longrightarrow> store_reachable L (fst (import_file L fault text dir))"

lemma filename_extension: "json_extension (vc_filename L vc)"
  by (simp add: json_extension_def vc_filename_def Let_def starts_with_def)

definition files_ok :: "'f store_lib \<Rightarrow> (string, 'f) hashmap \<Rightarrow> bool" where
  "files_ok L dir \<longleftrightarrow> hm_wf dir \<and>
     (\<forall>(name, text) \<in> set dir. \<forall>vc. sl_from_json L text = Some vc \<longrightarrow> name = vc_filename L vc)"

text \<open>What a save leaves: the directory as it was, the new text, or a torn one.\<close>

lemma store_save_cases:
  obtains (unchanged) e where "store_save L fault vc dir = (dir, Inl e)"
  | (torn) t e where "store_save L fault vc dir = (hm_insert (vc_filename L vc) t dir, Inl e)" "fault = Some (TornWrite t)"
  | (written) json where "store_save L fault vc dir = (hm_insert (vc_filename L vc) json dir, Inr ())" "sl_to_json L vc = Inr json"
proof -
  consider e where "sl_to_json L vc = Inl e" | "CHR ''/'' \<in> set (vc_filename L vc) \<or> CHR 0x00 \<in> set (vc_filename L vc)"
    | "fault = Some OpenFails"
    | t json where "fault = Some (TornWrite t)" "sl_to_json L vc = Inr json"
        "\<not> (CHR ''/'' \<in> set (vc_filename L vc) \<or> CHR 0x00 \<in> set (vc_filename L vc))"
    | json where "fault = None" "sl_to_json L vc = Inr json"
        "\<not> (CHR ''/'' \<in> set (vc_filename L vc) \<or> CHR 0x00 \<in> set (vc_filename L vc))"
    by (metis option.exhaust sum.exhaust write_fault.exhaust)
  then show thesis
  proof cases
    case 1
    then show thesis by (intro unchanged) (simp add: store_save_def Let_def)
  next
    case 2
    then show thesis by (cases "sl_to_json L vc") (auto intro!: unchanged simp: store_save_def Let_def)
  next
    case 3
    then show thesis by (cases "sl_to_json L vc") (auto intro!: unchanged simp: store_save_def Let_def)
  next
    case (4 t json)
    then show thesis by (intro torn [of t]) (simp_all add: store_save_def Let_def)
  next
    case (5 json)
    then show thesis by (intro written [of json]) (simp_all add: store_save_def Let_def)
  qed
qed

lemma files_ok_insert:
  assumes "files_ok L dir" "sl_from_json L t = None \<or> sl_from_json L t = Some vc"
  shows "files_ok L (hm_insert (vc_filename L vc) t dir)"
proof -
  have "hm_wf dir" using assms(1) by (simp add: files_ok_def)
  then show ?thesis using assms by (auto simp: files_ok_def hm_set_insert)
qed

lemma files_ok_save:
  assumes "store_lib_ok L" "files_ok L dir" "fault_ok L fault"
  shows "files_ok L (fst (store_save L fault vc dir))"
  by (cases rule: store_save_cases [of L fault vc dir]) (use assms files_ok_insert [OF assms(2)] in \<open>auto simp: store_lib_ok_def\<close>)

lemma reachable_files_ok:
  assumes "store_lib_ok L" "store_reachable L dir"
  shows "files_ok L dir"
  using assms(2)
proof induction
  case empty
  show ?case by (simp add: files_ok_def)
next
  case (saved dir fault vc)
  then show ?case by (simp add: files_ok_save [OF assms(1)])
next
  case (imported dir fault contents)
  then show ?case
    using files_ok_save [OF assms(1) imported.IH imported.hyps(2)]
    by (auto simp: import_file_def split: option.split prod.split sum.split) (metis fst_conv)+
qed

lemma load_all_files:
  assumes "files_ok L dir"
  shows "vc \<in> set (load_all L dir) \<longleftrightarrow> (\<exists>text. (vc_filename L vc, text) \<in> set dir \<and> sl_from_json L text = Some vc)"
proof
  assume "vc \<in> set (load_all L dir)"
  then obtain name content where nt: "(name, content) \<in> set dir" "sl_from_json L content = Some vc"
    by (auto simp: load_all_def List.map_filter_def split: if_splits)
  then have "name = vc_filename L vc" using assms by (auto simp: files_ok_def)
  with nt show "\<exists>text. (vc_filename L vc, text) \<in> set dir \<and> sl_from_json L text = Some vc" by blast
next
  assume "\<exists>text. (vc_filename L vc, text) \<in> set dir \<and> sl_from_json L text = Some vc"
  then show "vc \<in> set (load_all L dir)"
    by (force simp: load_all_def List.map_filter_def filename_extension)
qed

lemma load_all_insert:
  assumes "files_ok L dir" "sl_from_json L t = None \<or> sl_from_json L t = Some vc"
  shows "set (load_all L (hm_insert (vc_filename L vc) t dir)) =
    set_option (sl_from_json L t) \<union> {v \<in> set (load_all L dir). vc_filename L v \<noteq> vc_filename L vc}"
proof -
  have wf: "hm_wf dir" using assms(1) by (simp add: files_ok_def)
  have "v \<in> set (load_all L (hm_insert (vc_filename L vc) t dir)) \<longleftrightarrow>
      sl_from_json L t = Some v \<or> v \<in> set (load_all L dir) \<and> vc_filename L v \<noteq> vc_filename L vc" for v
    unfolding load_all_files [OF files_ok_insert [OF assms]] load_all_files [OF assms(1)]
    using assms(2) by (auto simp: hm_set_insert [OF wf])
  then show ?thesis by auto
qed

lemma load_all_save:
  assumes "store_lib_ok L" "files_ok L dir" "store_save L fault vc dir = (dir', Inr ())"
  shows "set (load_all L dir') = insert vc {v \<in> set (load_all L dir). vc_filename L v \<noteq> vc_filename L vc}"
proof (cases rule: store_save_cases [of L fault vc dir])
  case (written json)
  then have "sl_from_json L json = Some vc" using assms(1) by (simp add: store_lib_ok_def)
  with written assms(3) load_all_insert [OF assms(2), of json vc] show ?thesis by auto
qed (use assms(3) in auto)

lemma load_all_save_fails:
  assumes "files_ok L dir" "fault_ok L fault" "store_save L fault vc dir = (dir', Inl e)"
  shows "{v \<in> set (load_all L dir'). vc_filename L v \<noteq> vc_filename L vc} = {v \<in> set (load_all L dir). vc_filename L v \<noteq> vc_filename L vc} \<and>
    set (load_all L dir') \<subseteq> set (load_all L dir)"
proof (cases rule: store_save_cases [of L fault vc dir])
  case (torn t e')
  then show ?thesis using assms(2,3) load_all_insert [OF assms(1), of t vc] by auto
qed (use assms(3) in auto)

section \<open>Facts about the score\<close>

definition pow_unit :: "(f64 \<Rightarrow> f64) \<Rightarrow> bool" where
  "pow_unit f \<longleftrightarrow> (\<forall>x. f64_le (Fin 0) x \<longrightarrow> f64_le (Fin 0) (f x) \<and> f64_le (f x) (Fin 1))"

lemma trust_weight_unit: "\<exists>w. trust_weight ty = Fin w \<and> 0 \<le> w \<and> w \<le> 1"
  using fl_round_unit [of "30 / 100"] fl_round_unit [of "20 / 100"] fl_round_unit [of "15 / 100"]
    fl_round_unit [of "10 / 100"] fl_round_unit [of "5 / 100"]
  by (cases ty) (simp_all add: to_f64_unit)

lemma time_decay_unit:
  assumes "pow_unit f"
  shows "\<exists>d. time_decay f now t = Fin d \<and> 0 \<le> d \<and> d \<le> 1"
proof -
  have "f64_le (Fin 0) (f64_of_nat n)" for n by (simp add: f64_of_nat_def to_f64_nonneg)
  then have "f64_le (Fin 0) (f64_div (f64_of_nat n) (Fin 365))" for n by (simp add: f64_div_nonneg)
  with assms show ?thesis unfolding unit_Fin [symmetric] by (simp add: time_decay_def pow_unit_def Let_def)
qed

text \<open>The credentials that count: those not expired at their reading of the clock and of a known type.\<close>

definition counted :: "(nat \<Rightarrow> int) \<Rightarrow> nat \<Rightarrow> verifiable_credential list \<Rightarrow> nat" where
  "counted clk i vcs = length (filter (\<lambda>(j, vc). \<not> vc_is_expired (clk (2 * j)) vc \<and> kwaai_type vc \<noteq> None) (enumerate i vcs))"

lemma score_loop_bounds:
  assumes "pow_unit f" "f64_le (Fin 0) sc"
  shows "f64_le (Fin 0) (fst (score_loop f clk i vcs sc n)) \<and> snd (score_loop f clk i vcs sc n) = n + counted clk i vcs"
  using assms(2)
proof (induction vcs arbitrary: i sc n)
  case (Cons vc vcs)
  obtain d where d: "time_decay f (clk (2 * i + 1)) (vc_issuance_date vc) = Fin d" "0 \<le> d"
    using time_decay_unit [OF assms(1)] by blast
  have "f64_le (Fin 0) (f64_mul (trust_weight ty) (Fin d))" for ty
    using trust_weight_unit [of ty] d(2) by (auto simp: to_f64_nonneg)
  with Cons d show ?case
    by (auto simp: counted_def f64_add_nonneg split: option.splits)
qed (simp add: counted_def)

lemma score_loop_proofs: "score_loop f clk i (map (\<lambda>vc. vc\<lparr>vc_proof := g vc\<rparr>) vcs) sc n = score_loop f clk i vcs sc n"
proof (induction vcs arbitrary: i sc n)
  case (Cons vc vcs)
  have "vc_is_expired t (vc\<lparr>vc_proof := g vc\<rparr>) = vc_is_expired t vc" "kwaai_type (vc\<lparr>vc_proof := g vc\<rparr>) = kwaai_type vc" for t
    by (simp_all add: vc_is_expired_def kwaai_type_def)
  with Cons show ?case by (simp split: option.split)
qed simp

section \<open>Properties\<close>

text \<open>
  C24: The credential store. In every store made by saving and importing, some of which may have failed,
  a save that succeeds keeps exactly the credentials with another file name and adds the new one. A
  save that fails adds nothing, and loses at most the credentials with the file name of the new one, whose
  file the failed write may have truncated.
\<close>

theorem credential_saved:
  assumes "store_lib_ok L" "store_reachable L dir" "fault_ok L fault" "store_save L fault vc dir = (dir', r)"
  shows "case r of
      Inr _ \<Rightarrow> set (load_all L dir') = insert vc {v \<in> set (load_all L dir). vc_filename L v \<noteq> vc_filename L vc}
    | Inl _ \<Rightarrow> {v \<in> set (load_all L dir). vc_filename L v \<noteq> vc_filename L vc} \<subseteq> set (load_all L dir') \<and>
        set (load_all L dir') \<subseteq> set (load_all L dir)"
  using load_all_save [OF assms(1) reachable_files_ok [OF assms(1,2)], of fault vc dir']
    load_all_save_fails [OF reachable_files_ok [OF assms(1,2)] assms(3), of vc dir'] assms(4)
  by (cases r) auto

text \<open>
  C37: Credentials of different issuers can replace each other: the file name has only the type, the
  second of issue and the first eight characters of the issuer's peer id (which Ed25519 peer ids
  share). Saving a second credential that agrees in these removes the first one.
\<close>

theorem credential_overwritten:
  assumes "store_lib_ok L" "store_reachable L dir" "v \<noteq> v'" "kwaai_type v = kwaai_type v'"
    and "sl_date L (vc_issuance_date v) = sl_date L (vc_issuance_date v')"
    and "vc_issuer v = ''did:peer:'' @ a" "vc_issuer v' = ''did:peer:'' @ b" "take 8 a = take 8 b"
    and "store_save L None v dir = (dir1, Inr ())" "store_save L None v' dir1 = (dir2, Inr ())"
  shows "v \<in> set (load_all L dir1) \<and> v \<notin> set (load_all L dir2) \<and> v' \<in> set (load_all L dir2)"
proof -
  have "vc_filename L v = vc_filename L v'" using assms(4-8) by (simp add: vc_filename_def)
  moreover have "store_reachable L dir1"
    using store_reachable.saved [OF assms(2), of None v] assms(9) by simp
  ultimately show ?thesis
    using load_all_save [OF assms(1) reachable_files_ok [OF assms(1,2)] assms(9)]
      load_all_save [OF assms(1) reachable_files_ok [OF assms(1)] assms(10)] assms(3)
    by simp
qed

text \<open>
  The credential score is between 0 and 1 and its count is the number of credentials that are
  not expired and of a known type.
\<close>

theorem credential_score_range:
  assumes "pow_unit pow_half"
  shows "(\<exists>r. ts_score (from_credentials pow_half clk vcs) = Fin r \<and> 0 \<le> r \<and> r \<le> 1) \<and>
    ts_credential_count (from_credentials pow_half clk vcs) = counted clk 0 vcs"
proof -
  have s: "f64_le (Fin 0) (fst (score_loop pow_half clk 0 vcs (Fin 0) 0))"
    "snd (score_loop pow_half clk 0 vcs (Fin 0) 0) = counted clk 0 vcs"
    using score_loop_bounds [OF assms, of "Fin 0" clk 0 vcs 0] by simp_all
  moreover have "\<exists>r. f64_min x (Fin 1) = Fin r \<and> 0 \<le> r \<and> r \<le> 1" if "f64_le (Fin 0) x" for x
    using that by (cases x) (auto simp: f64_min_def f64_le_def)
  ultimately show ?thesis by (simp add: from_credentials_def Let_def case_prod_beta)
qed

text \<open>
  The score does not look at proofs: removing or replacing the proof of every credential leaves
  the score, the tier and the count unchanged, so credentials that nobody signed count in full.
\<close>

theorem score_ignores_proofs:
  "from_credentials pow_half clk (map (\<lambda>vc. vc\<lparr>vc_proof := g vc\<rparr>) vcs) = from_credentials pow_half clk vcs"
  by (simp add: from_credentials_def score_loop_proofs)

section \<open>Instances\<close>

definition demo_store_lib :: "verifiable_credential store_lib" where
  "demo_store_lib = \<lparr>sl_to_json = Inr, sl_from_json = Some, sl_date = (\<lambda>t. show_nat (nat (t div 10 ^ 9)))\<rparr>"

lemma demo_store_lib_ok: "store_lib_ok demo_store_lib"
  by (simp add: store_lib_ok_def demo_store_lib_def)

lemma demo_filename: "vc_filename demo_store_lib (demo_vc i) = ''fiduciarypledgevc-0-'' @
    unwrap_or (map_option (take 8) (strip_prefix ''did:peer:'' i)) ''unknown'' @ ''.json''"
  by (simp add: vc_filename_def demo_store_lib_def demo_vc_def fiduciary_pledge_vc_def vc_new_def kwaai_type_def from_type_str_def
      to_lowercase_def show_nat.simps) code_simp

lemma demo_save:
  "store_save demo_store_lib None (demo_vc ''did:peer:12D3KooWaa'') dir =
     (hm_insert (vc_filename demo_store_lib (demo_vc ''did:peer:12D3KooWaa'')) (demo_vc ''did:peer:12D3KooWaa'') dir, Inr ())"
  "store_save demo_store_lib None (demo_vc ''did:peer:12D3KooWbb'') dir =
     (hm_insert (vc_filename demo_store_lib (demo_vc ''did:peer:12D3KooWbb'')) (demo_vc ''did:peer:12D3KooWbb'') dir, Inr ())"
  using demo_filename [of "''did:peer:12D3KooWaa''"] demo_filename [of "''did:peer:12D3KooWbb''"]
  by (simp_all add: store_save_def Let_def) (simp_all add: demo_store_lib_def)

theorem credential_saved_witness:
  "set (load_all demo_store_lib (fst (store_save demo_store_lib None (demo_vc ''did:peer:12D3KooWaa'') []))) = {demo_vc ''did:peer:12D3KooWaa''} \<and>
   load_all demo_store_lib (fst (store_save demo_store_lib (Some OpenFails) (demo_vc ''did:peer:12D3KooWaa'') [])) = []"
proof -
  have e: "load_all demo_store_lib [] = []" by (simp add: load_all_def List.map_filter_def)
  have "\<exists>x. store_save demo_store_lib (Some OpenFails) (demo_vc ''did:peer:12D3KooWaa'') [] = ([], Inl x)"
    by (cases rule: store_save_cases [of demo_store_lib "Some OpenFails" "demo_vc ''did:peer:12D3KooWaa''" "[]"])
      (auto simp: store_save_def Let_def split: sum.splits if_splits)
  then obtain x where "store_save demo_store_lib (Some OpenFails) (demo_vc ''did:peer:12D3KooWaa'') [] = ([], Inl x)" by blast
  note fails = credential_saved [OF demo_store_lib_ok store_reachable.empty _ this]
  show ?thesis
    using credential_saved [OF demo_store_lib_ok store_reachable.empty, OF _ demo_save(1)] fails e
    by (simp add: demo_save(1)) (auto simp: store_save_def Let_def split: sum.splits if_splits)
qed

theorem credential_overwritten_witness:
  "demo_vc ''did:peer:12D3KooWaa'' \<notin> set (load_all demo_store_lib
     (fst (store_save demo_store_lib None (demo_vc ''did:peer:12D3KooWbb'')
       (fst (store_save demo_store_lib None (demo_vc ''did:peer:12D3KooWaa'') [])))))"
proof -
  let ?a = "demo_vc ''did:peer:12D3KooWaa''" and ?b = "demo_vc ''did:peer:12D3KooWbb''"
  have "?a \<noteq> ?b" using demo_vc_facts(2) [of "''did:peer:12D3KooWaa''"] demo_vc_facts(2) [of "''did:peer:12D3KooWbb''"] by auto
  moreover have "vc_issuer ?a = ''did:peer:'' @ ''12D3KooWaa''" "vc_issuer ?b = ''did:peer:'' @ ''12D3KooWbb''" by (simp_all add: demo_vc_facts)
  moreover have "kwaai_type ?a = kwaai_type ?b" "vc_issuance_date ?a = vc_issuance_date ?b" "take 8 ''12D3KooWaa'' = take 8 ''12D3KooWbb''"
    by (simp_all add: demo_vc_def fiduciary_pledge_vc_def vc_new_def kwaai_type_def)
  ultimately show ?thesis
    using credential_overwritten [OF demo_store_lib_ok store_reachable.empty, of ?a ?b, OF _ _ _ _ _ _ demo_save(1) demo_save(2)]
    by (simp add: demo_save)
qed

theorem credential_score_range_witness:
  "\<exists>r. ts_score (from_credentials (\<lambda>_. Fin 1) (\<lambda>_. 0) [demo_vc ''did:peer:a'']) = Fin r \<and> 0 \<le> r \<and> r \<le> 1"
proof -
  have "pow_unit (\<lambda>_. Fin 1)" by (simp add: pow_unit_def)
  from credential_score_range [OF this] show ?thesis by blast
qed

end
