(* ===== verification/Rust_Float_Ops.thy ===== *)
theory Rust_Float_Ops
  imports Rust_Float Kwaai_Prelude
begin

text \<open>
  Further operations of Rust's floats: the value of a 32-bit pattern (\<open>f32::from_bits\<close> followed by
  the exact cast to \<open>f64\<close>), the correctly rounded square root, \<open>round\<close> to an integer with ties away
  from zero, \<open>abs\<close>, and the saturating casts to integers. The facts give bounds: a finite pattern
  has a value below \<open>2 ^ 128\<close>, a square root of a positive value is positive and within half a
  unit of the exact one, and sums of bounded terms stay finite.
\<close>

section \<open>Bit patterns\<close>

definition f32_value :: "u32 \<Rightarrow> f32" where
  "f32_value w =
     (let n = unat w; s = (if n < 2 ^ 31 then 1 else - 1); e = n div 2 ^ 23 mod 256; m = n mod 2 ^ 23
      in if e = 255 then (if m \<noteq> 0 then NaN else if s = 1 then PosInf else NegInf)
         else if e = 0 then Fin (s * of_nat m * 2 powi (- 149))
         else Fin (s * of_nat (2 ^ 23 + m) * 2 powi (int e - 150)))"

section \<open>Square root\<close>

text \<open>The integer square root, by recursion on the base-4 digits.\<close>

fun isqrt :: "nat \<Rightarrow> nat" where
  "isqrt n = (if n = 0 then 0
     else let r = 2 * isqrt (n div 4) in if (r + 1) * (r + 1) \<le> n then r + 1 else r)"

declare isqrt.simps [simp del]

text \<open>
  The square root of a positive \<open>x\<close> lies in \<open>[2 ^ k, 2 ^ (k + 1))\<close> with \<open>k\<close> half the exponent of \<open>x\<close>;
  it is rounded to the nearest multiple of \<open>2 ^ (k - 52)\<close>. The square root of a number of the
  format is never subnormal and never halfway between two neighbours.
\<close>

definition sqrt_quantum :: "rat \<Rightarrow> int" where
  "sqrt_quantum x = ilog2 x div 2 - 52"

definition sqrt_round :: "rat \<Rightarrow> rat" where
  "sqrt_round x =
     (let y = x / 4 powi sqrt_quantum x; n = isqrt (nat \<lfloor>y\<rfloor>)
      in of_nat (if (of_nat n + 1 / 2)\<^sup>2 < y then n + 1 else n) * 2 powi sqrt_quantum x)"

fun f64_sqrt :: "f64 \<Rightarrow> f64" where
  "f64_sqrt (Fin x) = (if x < 0 then NaN else if x = 0 then Fin 0 else Fin (sqrt_round x))"
| "f64_sqrt PosInf = PosInf"
| "f64_sqrt _ = NaN"

section \<open>Rounding and casts\<close>

fun f64_abs :: "f64 \<Rightarrow> f64" where
  "f64_abs (Fin x) = Fin \<bar>x\<bar>"
| "f64_abs NaN = NaN"
| "f64_abs _ = PosInf"

text \<open>\<open>round\<close>: to the nearest integer, ties away from zero.\<close>

definition round_half_away :: "rat \<Rightarrow> int" where
  "round_half_away x = (if 0 \<le> x then \<lfloor>x + 1 / 2\<rfloor> else - \<lfloor>1 / 2 - x\<rfloor>)"

fun f64_round :: "f64 \<Rightarrow> f64" where
  "f64_round (Fin x) = Fin (of_int (round_half_away x))"
| "f64_round x = x"

text \<open>\<open>as\<close> an integer type with the range \<open>[lo, hi]\<close>: towards zero, saturating, NaN to 0.\<close>

definition trunc_rat :: "rat \<Rightarrow> int" where
  "trunc_rat x = (if 0 \<le> x then \<lfloor>x\<rfloor> else \<lceil>x\<rceil>)"

fun f64_as_int :: "int \<Rightarrow> int \<Rightarrow> f64 \<Rightarrow> int" where
  "f64_as_int lo hi (Fin x) = max lo (min hi (trunc_rat x))"
| "f64_as_int lo hi PosInf = hi"
| "f64_as_int lo hi NegInf = lo"
| "f64_as_int lo hi NaN = 0"

section \<open>Facts\<close>

lemma isqrt_bounds: "isqrt n * isqrt n \<le> n \<and> n < (isqrt n + 1) * (isqrt n + 1)"
proof (induction n rule: less_induct)
  case (less n)
  show ?case
  proof (cases "n = 0")
    case True
    then show ?thesis by (simp add: isqrt.simps)
  next
    case False
    define r where "r = isqrt (n div 4)"
    have "r * r \<le> n div 4" "n div 4 < (r + 1) * (r + 1)"
      using less [of "n div 4"] False by (simp_all add: r_def)
    then have "(2 * r) * (2 * r) \<le> n" "n < (2 * r + 2) * (2 * r + 2)" by auto
    with False show ?thesis by (subst (1 2 3 4) isqrt.simps) (auto simp: r_def [symmetric] Let_def)
  qed
qed

lemma isqrt_pos: "0 < n \<Longrightarrow> 0 < isqrt n"
  using isqrt_bounds [of n] by (cases "isqrt n") auto

lemma sqrt_arg_ge:
  assumes "0 < x"
  shows "1 \<le> x / 4 powi sqrt_quantum x"
proof -
  define k where "k = ilog2 x div 2"
  have "(4::rat) powi k = 2 powi (2 * k)" using power_int_mult [of "2::rat" 2 k] by simp
  also have "\<dots> \<le> 2 powi ilog2 x" by (intro power_int_increasing) (auto simp: k_def)
  also have "\<dots> \<le> x" by (rule ilog2_bounds(1) [OF assms])
  finally have "4 powi k \<le> x" .
  moreover have "(4::rat) powi sqrt_quantum x \<le> 4 powi k"
    by (intro power_int_increasing) (auto simp: sqrt_quantum_def k_def)
  ultimately show ?thesis by simp
qed

lemma sqrt_round_pos:
  assumes "0 < x"
  shows "0 < sqrt_round x"
proof -
  let ?y = "x / 4 powi sqrt_quantum x"
  have "1 \<le> \<lfloor>?y\<rfloor>" using sqrt_arg_ge [OF assms] by linarith
  then have "0 < isqrt (nat \<lfloor>?y\<rfloor>)" by (intro isqrt_pos) simp
  then show ?thesis by (simp add: sqrt_round_def Let_def)
qed

text \<open>The rounded square root is within half a quantum of the exact one.\<close>

lemma sqrt_round_near:
  assumes "0 < x"
  shows "(sqrt_round x - 2 powi sqrt_quantum x / 2)\<^sup>2 \<le> x \<and> x \<le> (sqrt_round x + 2 powi sqrt_quantum x / 2)\<^sup>2"
proof -
  define q where "q = sqrt_quantum x"
  define y where "y = x / 4 powi q"
  define n where "n = isqrt (nat \<lfloor>y\<rfloor>)"
  define m :: nat where "m = (if (of_nat n + 1 / 2)\<^sup>2 < y then n + 1 else n)"
  have y1: "1 \<le> y" using sqrt_arg_ge [OF assms] by (simp add: y_def q_def)
  have fl: "of_nat (nat \<lfloor>y\<rfloor>) = (of_int \<lfloor>y\<rfloor> :: rat)" using y1 by simp
  have "of_nat (n * n) \<le> (of_nat (nat \<lfloor>y\<rfloor>) :: rat)" "of_nat (nat \<lfloor>y\<rfloor> + 1) \<le> (of_nat ((n + 1) * (n + 1)) :: rat)"
    using isqrt_bounds [of "nat \<lfloor>y\<rfloor>"] unfolding n_def of_nat_le_iff by auto
  then have "of_nat n * of_nat n \<le> (of_int \<lfloor>y\<rfloor> :: rat)" "of_int \<lfloor>y\<rfloor> + 1 \<le> (of_nat n + 1) * (of_nat n + 1 :: rat)"
    using fl by (simp_all add: algebra_simps)
  then have n: "of_nat n * of_nat n \<le> y" "y < (of_nat n + 1) * (of_nat n + 1)"
    using floor_correct [of y] by linarith+
  have "1 \<le> n" using isqrt_pos [of "nat \<lfloor>y\<rfloor>"] y1 by (simp add: n_def Suc_le_eq)
  then have n1: "(1::rat) \<le> of_nat n" by simp
  have m: "(of_nat m - 1 / 2)\<^sup>2 \<le> y \<and> y \<le> (of_nat m + 1 / 2)\<^sup>2"
    using n n1 by (auto simp: m_def power2_eq_square algebra_simps)
  have x: "x = y * (2 powi q)\<^sup>2"
    by (simp add: y_def power2_eq_square power_int_mult_distrib [symmetric])
  have s: "sqrt_round x = of_nat m * 2 powi q"
    by (simp add: sqrt_round_def Let_def m_def n_def y_def q_def)
  have "(sqrt_round x - 2 powi q / 2)\<^sup>2 = (of_nat m - 1 / 2)\<^sup>2 * (2 powi q)\<^sup>2"
    "(sqrt_round x + 2 powi q / 2)\<^sup>2 = (of_nat m + 1 / 2)\<^sup>2 * (2 powi q)\<^sup>2"
    by (simp_all add: s power_mult_distrib [symmetric] algebra_simps)
  moreover have "(of_nat m - 1 / 2)\<^sup>2 * (2 powi q)\<^sup>2 \<le> x" "x \<le> (of_nat m + 1 / 2)\<^sup>2 * (2 powi q)\<^sup>2"
    using m unfolding x by (simp_all add: mult_right_mono)
  ultimately show ?thesis by (simp only: q_def [symmetric] simp_thms)
qed

text \<open>A square root of a number between powers of 4 lies between the powers of 2.\<close>

lemma four_powi: "(4::rat) powi k = 2 powi (2 * k)"
  using power_int_mult [of "2::rat" 2 k] by simp

lemma isqrt_le: "isqrt n * isqrt n \<le> n"
  using isqrt_bounds by blast

lemma sqrt_round_range:
  assumes "0 < x"
  shows "2 powi (ilog2 x div 2) \<le> sqrt_round x" "sqrt_round x \<le> 2 powi (ilog2 x div 2 + 1)"
proof -
  define k where "k = ilog2 x div 2"
  define q where "q = sqrt_quantum x"
  define y where "y = x / 4 powi q"
  define n where "n = isqrt (nat \<lfloor>y\<rfloor>)"
  have q: "q = k - 52" by (simp add: q_def sqrt_quantum_def k_def)
  have "x < 2 powi (ilog2 x + 1)" by (rule ilog2_bounds(2) [OF assms])
  also have "\<dots> \<le> 2 powi (2 * (k + 1))" by (intro power_int_increasing) (auto simp: k_def)
  finally have "x < 4 powi (k + 1)" by (simp only: four_powi)
  moreover have "(4::rat) powi (k + 1) = 4 ^ 53 * 4 powi q" "(4::rat) powi k = 4 ^ 52 * 4 powi q"
    using power_int_add [of "4::rat" 53 q] power_int_add [of "4::rat" 52 q] by (simp_all add: q add.commute power_int_numeral)
  moreover have "4 powi k \<le> x"
  proof -
    have "(4::rat) powi k \<le> 2 powi ilog2 x" unfolding four_powi by (intro power_int_increasing) (auto simp: k_def)
    also have "\<dots> \<le> x" by (rule ilog2_bounds(1) [OF assms])
    finally show ?thesis .
  qed
  ultimately have y: "4 ^ 52 \<le> y" "y < 4 ^ 53" by (simp_all add: y_def divide_simps)
  have "2 ^ 52 * 2 ^ 52 \<le> nat \<lfloor>y\<rfloor>" "nat \<lfloor>y\<rfloor> < 2 ^ 53 * 2 ^ 53"
    using y by (simp_all add: le_floor_iff nat_less_iff floor_less_iff le_nat_iff)
  then have "2 ^ 52 * 2 ^ 52 < (n + 1) * (n + 1)" "n * n < 2 ^ 53 * 2 ^ 53"
    using isqrt_bounds [of "nat \<lfloor>y\<rfloor>"] unfolding n_def by linarith+
  then have n: "2 ^ 52 \<le> n" "n < 2 ^ 53"
    using mult_le_mono [of "n + 1" "2 ^ 52" "n + 1" "2 ^ 52"] mult_le_mono [of "2 ^ 53" n "2 ^ 53" n] by (force simp: not_le)+
  have s: "sqrt_round x = of_nat (if (of_nat n + 1 / 2)\<^sup>2 < y then n + 1 else n) * 2 powi q"
    by (simp add: sqrt_round_def Let_def n_def y_def q_def)
  have "(2 ^ 52 :: rat) \<le> of_nat n" "of_nat n + 1 \<le> (2 ^ 53 :: rat)"
    using n of_nat_le_iff [of "2 ^ 52" n, where ?'a = rat] of_nat_le_iff [of "n + 1" "2 ^ 53", where ?'a = rat] by simp_all
  moreover have "(2::rat) powi k = 2 ^ 52 * 2 powi q" "(2::rat) powi (k + 1) = 2 ^ 53 * 2 powi q"
    using power_int_add [of "2::rat" 52 q] power_int_add [of "2::rat" 53 q] by (simp_all add: q add.commute power_int_numeral)
  ultimately show "2 powi (ilog2 x div 2) \<le> sqrt_round x" "sqrt_round x \<le> 2 powi (ilog2 x div 2 + 1)"
    unfolding s k_def [symmetric] by (auto intro!: mult_right_mono)
qed

lemma sqrt_round_bounds:
  assumes "2 powi (2 * a) \<le> x" "x < 2 powi (2 * b)"
  shows "2 powi a \<le> sqrt_round x" "sqrt_round x \<le> 2 powi b"
proof -
  have x: "0 < x" using assms(1) two_powi_pos [of "2 * a"] by linarith
  have "2 * a \<le> ilog2 x"
    using assms(1) ilog2_bounds(2) [OF x] powi_less_le [of "2 * a" "ilog2 x"] by linarith
  then have "(2::rat) powi a \<le> 2 powi (ilog2 x div 2)" by (intro power_int_increasing) auto
  then show "2 powi a \<le> sqrt_round x" using sqrt_round_range(1) [OF x] by linarith
  have "ilog2 x \<le> 2 * b - 1"
    using assms(2) ilog2_bounds(1) [OF x] powi_less_le [of "ilog2 x" "2 * b - 1"] by simp
  then have "(2::rat) powi (ilog2 x div 2 + 1) \<le> 2 powi b" by (intro power_int_increasing) auto
  then show "sqrt_round x \<le> 2 powi b" using sqrt_round_range(2) [OF x] by linarith
qed

text \<open>Finite patterns.\<close>

definition f32_finite :: "u32 \<Rightarrow> bool" where
  "f32_finite w \<longleftrightarrow> unat w div 2 ^ 23 mod 256 \<noteq> 255"

lemma scaled_bounds:
  assumes "\<bar>s\<bar> = (1::rat)" "n \<le> 2 ^ 24" "e0 \<le> e" "e + 24 \<le> e1"
  shows "\<bar>s * of_nat n * 2 powi e\<bar> \<le> 2 powi e1" "s * of_nat n * 2 powi e \<noteq> 0 \<Longrightarrow> 2 powi e0 \<le> \<bar>s * of_nat n * 2 powi e\<bar>"
proof -
  have eq: "\<bar>s * of_nat n * 2 powi e\<bar> = of_nat n * 2 powi e" using assms(1) by (simp add: abs_mult)
  have "(of_nat n :: rat) \<le> of_nat (2 ^ 24)" using assms(2) by (simp only: of_nat_le_iff)
  then have "of_nat n * 2 powi e \<le> (2::rat) ^ 24 * 2 powi e" by (intro mult_right_mono) (auto simp del: power_numeral)
  also have "\<dots> = 2 powi (e + 24)" using power_int_add [of "2::rat" e 24] by (simp only: power_int_numeral mult.commute) simp
  also have "\<dots> \<le> (2::rat) powi e1" using assms(4) by (intro power_int_increasing) auto
  finally show "\<bar>s * of_nat n * 2 powi e\<bar> \<le> 2 powi e1" unfolding eq .
  assume "s * of_nat n * 2 powi e \<noteq> 0"
  then have "(1::rat) \<le> of_nat n" by (cases n) auto
  then have "2 powi e \<le> of_nat n * (2::rat) powi e" using mult_right_mono [of 1 "of_nat n" "(2::rat) powi e"] by simp
  moreover have "(2::rat) powi e0 \<le> 2 powi e" using assms(3) by (intro power_int_increasing) auto
  ultimately show "2 powi e0 \<le> \<bar>s * of_nat n * 2 powi e\<bar>" unfolding eq by linarith
qed

lemma f32_value_bounds:
  assumes "f32_finite w"
  obtains r where "f32_value w = Fin r" "\<bar>r\<bar> \<le> 2 powi 128" "r \<noteq> 0 \<Longrightarrow> 2 powi (- 149) \<le> \<bar>r\<bar>"
proof -
  define e where "e = unat w div 2 ^ 23 mod 256"
  define m where "m = unat w mod 2 ^ 23"
  define s :: rat where "s = (if unat w < 2 ^ 31 then 1 else - 1)"
  have s: "\<bar>s\<bar> = 1" by (simp add: s_def)
  have "e < 256" by (simp add: e_def)
  moreover have "e \<noteq> 255" using assms unfolding f32_finite_def e_def .
  ultimately have e: "e < 255" by linarith
  have m: "m < 2 ^ 23" by (simp add: m_def)
  have v: "f32_value w = (if e = 255 then (if m \<noteq> 0 then NaN else if s = 1 then PosInf else NegInf)
      else if e = 0 then Fin (s * of_nat m * 2 powi (- 149)) else Fin (s * of_nat (2 ^ 23 + m) * 2 powi (int e - 150)))"
    unfolding f32_value_def Let_def e_def m_def s_def by (rule refl)
  show thesis
  proof (cases "e = 0")
    case True
    have "f32_value w = Fin (s * of_nat m * 2 powi (- 149))" unfolding v using True by (simp only: if_True if_False) simp
    moreover have "m \<le> 2 ^ 24" "- 149 + 24 \<le> (128::int)" using m by simp_all
    ultimately show ?thesis using that scaled_bounds [OF s, of m "- 149" "- 149" 128] by blast
  next
    case False
    have "f32_value w = Fin (s * of_nat (2 ^ 23 + m) * 2 powi (int e - 150))"
      unfolding v using False e by (simp only: if_False) auto
    moreover have "2 ^ 23 + m \<le> 2 ^ 24" "- 149 \<le> int e - 150" "int e - 150 + 24 \<le> 128" using m e False by simp_all
    ultimately show ?thesis using that scaled_bounds [OF s, of "2 ^ 23 + m" "- 149" "int e - 150" 128] by blast
  qed
qed

text \<open>A sum of fewer than \<open>2 ^ 53\<close> terms bounded by a power of 2 is finite and bounded.\<close>

lemma fl_round_bound:
  assumes "\<bar>x\<bar> \<le> of_nat n * 2 powi e" "n < 2 ^ 53" "- 1074 \<le> e"
  shows "\<bar>fl_round x\<bar> \<le> of_nat n * 2 powi e"
proof -
  have g: "fl_round (of_nat n * 2 powi e) = of_nat n * 2 powi e"
    using fl_round_exact [of "of_nat n * 2 powi e" "int n" e] assms(2,3) by simp
  have "fl_round x \<le> fl_round (of_nat n * 2 powi e)" "fl_round (- (of_nat n * 2 powi e)) \<le> fl_round x"
    using assms(1) by (auto intro!: fl_round_mono)
  then show ?thesis using g by (simp add: fl_round_minus)
qed

lemma small_bound: "n < 2 ^ 53 \<Longrightarrow> e \<le> 900 \<Longrightarrow> of_nat n * (2::rat) powi e \<le> 2 ^ 1000"
proof -
  assume "n < 2 ^ 53" "e \<le> 900"
  then have "of_nat n \<le> (of_nat (2 ^ 53) :: rat)" "(2::rat) powi e \<le> 2 powi 900"
    by (simp only: of_nat_le_iff, intro power_int_increasing, auto)
  then have "of_nat n * (2::rat) powi e \<le> of_nat (2 ^ 53) * 2 powi 900" by (intro mult_mono) auto
  also have "\<dots> \<le> (2::rat) ^ 1000"
  proof -
    have "of_nat (2 ^ 53) * (2::rat) powi 900 = 2 ^ 53 * 2 ^ 900" by (simp only: power_int_numeral of_nat_power of_nat_numeral)
    also have "\<dots> = 2 ^ 953" by (simp only: power_add [symmetric]) simp
    also have "\<dots> \<le> (2::rat) ^ 1000" by (rule power_increasing) auto
    finally show ?thesis .
  qed
  finally show ?thesis .
qed

lemma f64_sum_bound:
  assumes "\<And>x. x \<in> set xs \<Longrightarrow> \<exists>r. x = Fin r \<and> \<bar>r\<bar> \<le> 2 powi e" "length xs < 2 ^ 53" "- 1074 \<le> e" "e \<le> 900"
  shows "\<exists>s. f64_sum xs = Fin s \<and> \<bar>s\<bar> \<le> of_nat (length xs) * 2 powi e"
  using assms(1,2)
proof (induction xs rule: rev_induct)
  case (snoc x xs)
  have "length xs < 2 ^ 53" using snoc.prems(2) by simp
  with snoc.IH snoc.prems(1) obtain s where s: "f64_sum xs = Fin s" "\<bar>s\<bar> \<le> of_nat (length xs) * 2 powi e"
    by (metis UnCI set_append)
  obtain r where r: "x = Fin r" "\<bar>r\<bar> \<le> 2 powi e" using snoc.prems(1) [of x] by auto
  have sum: "\<bar>s + r\<bar> \<le> of_nat (length (xs @ [x])) * 2 powi e"
    using s(2) r(2) by (simp add: algebra_simps)
  have "\<bar>s + r\<bar> \<le> 2 ^ 1000" using sum small_bound [OF snoc.prems(2) assms(4)] by linarith
  then show ?case
    using fl_round_bound [OF sum snoc.prems(2) assms(3)] s(1) r(1) by (simp add: f64_sum_def to_f64_small)
qed (simp add: f64_sum_def)

text \<open>A sum of non-negative terms is at least each power of 2 that a term reaches.\<close>

lemma f64_sum_ge:
  assumes "\<And>x. x \<in> set xs \<Longrightarrow> \<exists>r. x = Fin r \<and> 0 \<le> r" "Fin t \<in> set xs" "2 powi e \<le> t" "- 1074 \<le> e" "f64_sum xs = Fin s"
  shows "2 powi e \<le> s"
  using assms(1,2,5)
proof (induction xs arbitrary: s rule: rev_induct)
  case (snoc x xs)
  obtain r where r: "x = Fin r" "0 \<le> r" using snoc.prems(1) by auto
  have nn: "f64_le (Fin 0) (f64_sum xs)" by (rule f64_sum_nonneg) (use snoc.prems(1) in force)
  have eq: "f64_add (f64_sum xs) (Fin r) = Fin s" using snoc.prems(3) r by (simp add: f64_sum_def)
  then obtain a where a: "f64_sum xs = Fin a" by (cases "f64_sum xs") auto
  then have a0: "0 \<le> a" using nn by simp
  have s: "s = fl_round (a + r)" using eq a by (simp add: to_f64_def Let_def split: if_splits)
  have "2 powi e \<le> a + r"
    using snoc.IH [OF _ _ a] snoc.prems(1,2) a0 r assms(3) by (cases "Fin t \<in> set xs") fastforce+
  then have "fl_round (2 powi e) \<le> s" unfolding s by (rule fl_round_mono)
  then show ?case using fl_round_exact [of "2 powi e" 1 e] assms(4) by simp
qed simp

end
