(* ===== verification/Vector_Index.thy ===== *)
theory Vector_Index
  imports Rust_Order Rust_Float_Ops
begin

text \<open>
  The per-tenant vector index of the storage service (\<open>kwaai-storage/src/db.rs\<close>, \<open>TenantIndex\<close>):
  the HNSW graph with its slot table \<open>id_map\<close>, the reverse map, the raw vectors, insertion with
  tombstones, removal, the exact cosine search and the search over the graph.

  A vector is the list of its 32-bit patterns, so storing and reading it is exact; arithmetic is
  done on their values in \<open>f64\<close>. The graph (\<open>hnsw_rs\<close>) is the parameter \<open>hnsw_lib\<close>: nothing is
  assumed of what it returns except, for one theorem, that it reports a slot at most once. Its operations
  are total functions: a panic inside the graph library, for example on a vector of another length than the
  ones before, is outside the model. \<open>None\<close> is a panic of the modelled code.

  The invariant \<open>index_ok\<close> says that the slot table and the reverse map are inverse to each other and
  that the raw vectors belong to the live documents. With it, the operations never panic and
  implement a finite map from documents to vectors, and both searches return live documents only.
\<close>

section \<open>State\<close>

type_synonym vec32 = "u32 list"

record 'h hnsw_lib =
  hn_new :: "nat \<Rightarrow> nat \<Rightarrow> nat \<Rightarrow> nat \<Rightarrow> 'h"
  hn_insert :: "vec32 \<Rightarrow> nat \<Rightarrow> 'h \<Rightarrow> 'h"
  hn_search :: "'h \<Rightarrow> vec32 \<Rightarrow> nat \<Rightarrow> nat \<Rightarrow> (nat \<times> f32) list"

record 'h tenant_index =
  ti_hnsw :: 'h
  ti_id_map :: "i64 option list"
  ti_rev_map :: "(i64, nat) hashmap"
  ti_stored_vecs :: "(i64, vec32) hashmap"
  ti_next_id :: nat
  ti_dimension :: nat

definition BRUTE_FORCE_THRESHOLD :: nat where
  "BRUTE_FORCE_THRESHOLD = 2000"

section \<open>Operations\<close>

definition index_new_with_params :: "'h hnsw_lib \<Rightarrow> nat \<Rightarrow> nat \<Rightarrow> nat \<Rightarrow> 'h tenant_index" where
  "index_new_with_params H dimension m ef_construction =
     \<lparr>ti_hnsw = hn_new H m 65536 16 ef_construction, ti_id_map = [], ti_rev_map = [], ti_stored_vecs = [],
      ti_next_id = 0, ti_dimension = dimension\<rparr>"

definition index_new :: "'h hnsw_lib \<Rightarrow> nat \<Rightarrow> 'h tenant_index" where
  "index_new H dimension = index_new_with_params H dimension 16 200"

text \<open>\<open>None\<close> is the panic of an index out of range.\<close>

definition index_insert :: "'h hnsw_lib \<Rightarrow> i64 \<Rightarrow> vec32 \<Rightarrow> 'h tenant_index \<Rightarrow> 'h tenant_index option" where
  "index_insert H doc_id embedding idx =
     Option.bind (case hm_get (ti_rev_map idx) doc_id of
         Some old_id \<Rightarrow> vec_set (ti_id_map idx) old_id None
       | None \<Rightarrow> Some (ti_id_map idx)) (\<lambda>id_map.
     let hnsw_id = ti_next_id idx;
         id_map = (if length id_map \<le> hnsw_id then id_map @ replicate (hnsw_id + 1 - length id_map) None else id_map)
     in Option.bind (vec_set id_map hnsw_id (Some doc_id)) (\<lambda>id_map.
     Some (idx\<lparr>ti_next_id := ti_next_id idx + 1, ti_id_map := id_map,
               ti_rev_map := hm_insert doc_id hnsw_id (ti_rev_map idx),
               ti_stored_vecs := hm_insert doc_id embedding (ti_stored_vecs idx),
               ti_hnsw := hn_insert H embedding hnsw_id (ti_hnsw idx)\<rparr>)))"

definition tombstone :: "i64 \<Rightarrow> 'h tenant_index \<Rightarrow> ('h tenant_index \<times> bool) option" where
  "tombstone doc_id idx =
     (case hm_get (ti_rev_map idx) doc_id of
        Some hnsw_id \<Rightarrow> map_option (\<lambda>id_map.
          (idx\<lparr>ti_id_map := id_map, ti_rev_map := hm_remove doc_id (ti_rev_map idx),
               ti_stored_vecs := hm_remove doc_id (ti_stored_vecs idx)\<rparr>, True))
          (vec_set (ti_id_map idx) hnsw_id None)
      | None \<Rightarrow> Some (idx, False))"

definition live_count :: "'h tenant_index \<Rightarrow> nat" where
  "live_count idx = hm_len (ti_rev_map idx)"

definition vec_norm :: "vec32 \<Rightarrow> f64" where
  "vec_norm v = f64_sqrt (f64_sum (map (\<lambda>x. f64_mul (f32_value x) (f32_value x)) v))"

definition vec_dot :: "vec32 \<Rightarrow> vec32 \<Rightarrow> f64" where
  "vec_dot q d = f64_sum (map (\<lambda>(a, b). f64_mul (f32_value a) (f32_value b)) (zip q d))"

definition cosine :: "vec32 \<Rightarrow> vec32 \<Rightarrow> f64" where
  "cosine query emb =
     (let qnorm = vec_norm query; dot = vec_dot query emb; dnorm = vec_norm emb
      in if f64_lt (Fin 0) dnorm then f64_clamp (f64_div dot (f64_mul qnorm dnorm)) (Fin (- 1)) (Fin 1)
         else Fin 0)"

definition search_exact :: "'h tenant_index \<Rightarrow> vec32 \<Rightarrow> nat \<Rightarrow> (i64 \<times> f64) list" where
  "search_exact idx query top_k =
     (if f64_eq (vec_norm query) (Fin 0) then []
      else let scored = map (\<lambda>(doc_id, emb). (doc_id, cosine query emb)) (ti_stored_vecs idx)
           in take top_k (sort_by (f64_desc snd) scored))"

fun collect_neighbours ::
  "i64 option list \<Rightarrow> nat \<Rightarrow> (i64 \<times> f64) list \<Rightarrow> (nat \<times> f32) list \<Rightarrow> (i64 \<times> f64) list" where
  "collect_neighbours id_map top_k results [] = results"
| "collect_neighbours id_map top_k results ((d_id, distance) # rest) =
     (case vec_get id_map d_id of
        Some (Some doc_id) \<Rightarrow>
          let score = f64_clamp (f64_sub (Fin 1) distance) (Fin 0) (Fin 1);
              results = results @ [(doc_id, score)]
          in if top_k \<le> length results then results else collect_neighbours id_map top_k results rest
      | _ \<Rightarrow> collect_neighbours id_map top_k results rest)"

text \<open>
  \<open>usize\<close> arithmetic wraps here: \<open>top_k\<close> comes from the request. \<open>Vec::with_capacity(top_k)\<close> panics when the buffer, of
  16 bytes per result, would exceed \<open>isize::MAX\<close> bytes.
\<close>

definition max_capacity :: nat where
  "max_capacity = (2 ^ 63 - 1) div 16"

definition search_hnsw_ef :: "'h hnsw_lib \<Rightarrow> 'h tenant_index \<Rightarrow> vec32 \<Rightarrow> nat \<Rightarrow> nat \<Rightarrow> (i64 \<times> f64) list option" where
  "search_hnsw_ef H idx query top_k ef =
     (let fetch_k = max (top_k * 4 mod 2 ^ 64) ((top_k + 16) mod 2 ^ 64);
          neighbours = hn_search H (ti_hnsw idx) query fetch_k ef
      in if top_k > max_capacity then None else Some (collect_neighbours (ti_id_map idx) top_k [] neighbours))"

definition search_hnsw :: "'h hnsw_lib \<Rightarrow> 'h tenant_index \<Rightarrow> vec32 \<Rightarrow> nat \<Rightarrow> (i64 \<times> f64) list option" where
  "search_hnsw H idx query top_k = search_hnsw_ef H idx query top_k 64"

definition index_search :: "'h hnsw_lib \<Rightarrow> 'h tenant_index \<Rightarrow> vec32 \<Rightarrow> nat \<Rightarrow> (i64 \<times> f64) list option" where
  "index_search H idx query top_k =
     (if ti_rev_map idx = [] \<or> top_k = 0 then Some []
      else if hm_len (ti_rev_map idx) < BRUTE_FORCE_THRESHOLD then Some (search_exact idx query top_k)
      else search_hnsw H idx query top_k)"

section \<open>Invariant and abstraction\<close>

text \<open>What an index means: the vector of each live document.\<close>

definition index_abs :: "'h tenant_index \<Rightarrow> i64 \<Rightarrow> vec32 option" where
  "index_abs idx = hm_get (ti_stored_vecs idx)"

definition index_ok :: "'h tenant_index \<Rightarrow> bool" where
  "index_ok idx \<longleftrightarrow> hm_wf (ti_rev_map idx) \<and> hm_wf (ti_stored_vecs idx) \<and> length (ti_id_map idx) = ti_next_id idx \<and>
     (\<forall>d i. hm_get (ti_rev_map idx) d = Some i \<longleftrightarrow> vec_get (ti_id_map idx) i = Some (Some d)) \<and>
     (\<forall>d. hm_get (ti_stored_vecs idx) d = None \<longleftrightarrow> hm_get (ti_rev_map idx) d = None)"

lemma index_ok_new [simp]: "index_ok (index_new H n)" "index_abs (index_new H n) = Map.empty"
  "ti_dimension (index_new H n) = n"
  by (auto simp: index_new_def index_new_with_params_def index_ok_def index_abs_def vec_get_def)

lemma index_okD:
  assumes "index_ok idx"
  shows "hm_wf (ti_rev_map idx)" "hm_wf (ti_stored_vecs idx)" "length (ti_id_map idx) = ti_next_id idx"
    "hm_get (ti_stored_vecs idx) d = None \<longleftrightarrow> hm_get (ti_rev_map idx) d = None"
  using assms by (simp_all only: index_ok_def simp_thms)

lemma index_okI:
  assumes "hm_wf (ti_rev_map idx)" "hm_wf (ti_stored_vecs idx)" "length (ti_id_map idx) = ti_next_id idx"
    and "\<And>d i. hm_get (ti_rev_map idx) d = Some i \<longleftrightarrow> vec_get (ti_id_map idx) i = Some (Some d)"
    and "\<And>d. hm_get (ti_stored_vecs idx) d = None \<longleftrightarrow> hm_get (ti_rev_map idx) d = None"
  shows "index_ok idx"
  using assms by (simp only: index_ok_def simp_thms)

lemma index_ok_slot:
  assumes "index_ok idx" "hm_get (ti_rev_map idx) d = Some i"
  shows "i < length (ti_id_map idx)" "ti_id_map idx ! i = Some d"
  using assms by (auto simp: index_ok_def vec_get_def split: if_splits)

lemma index_ok_rev:
  "index_ok idx \<Longrightarrow> i < length (ti_id_map idx) \<Longrightarrow> ti_id_map idx ! i = Some d \<Longrightarrow> hm_get (ti_rev_map idx) d = Some i"
  by (auto simp: index_ok_def vec_get_def)

text \<open>Insertion: the slot of the old version is cleared, a new slot is appended.\<close>

lemma index_insert_eq:
  assumes "index_ok idx"
  shows "index_insert H d v idx = Some (idx\<lparr>ti_next_id := ti_next_id idx + 1,
      ti_id_map := (case hm_get (ti_rev_map idx) d of Some i \<Rightarrow> (ti_id_map idx)[i := None] | None \<Rightarrow> ti_id_map idx) @ [Some d],
      ti_rev_map := hm_insert d (ti_next_id idx) (ti_rev_map idx),
      ti_stored_vecs := hm_insert d v (ti_stored_vecs idx),
      ti_hnsw := hn_insert H v (ti_next_id idx) (ti_hnsw idx)\<rparr>)"
proof -
  note len = index_okD(3) [OF assms]
  show ?thesis
  proof (cases "hm_get (ti_rev_map idx) d")
    case None
    then show ?thesis by (simp add: index_insert_def vec_set_def Let_def list_update_append len)
  next
    case (Some i)
    with index_ok_slot(1) [OF assms Some] show ?thesis
      by (simp add: index_insert_def vec_set_def Let_def list_update_append len)
  qed
qed

lemma index_insert_ok:
  assumes "index_ok idx"
  shows "\<exists>idx'. index_insert H d v idx = Some idx' \<and> index_ok idx' \<and> index_abs idx' = (index_abs idx)(d \<mapsto> v) \<and>
    ti_dimension idx' = ti_dimension idx"
proof -
  define ids where "ids = (case hm_get (ti_rev_map idx) d of Some i \<Rightarrow> (ti_id_map idx)[i := None] | None \<Rightarrow> ti_id_map idx)"
  define idx' where "idx' = idx\<lparr>ti_next_id := ti_next_id idx + 1, ti_id_map := ids @ [Some d],
      ti_rev_map := hm_insert d (ti_next_id idx) (ti_rev_map idx),
      ti_stored_vecs := hm_insert d v (ti_stored_vecs idx), ti_hnsw := hn_insert H v (ti_next_id idx) (ti_hnsw idx)\<rparr>"
  have len: "length ids = ti_next_id idx" using index_okD(3) [OF assms] by (simp add: ids_def split: option.split)
  have old: "ids ! i = Some e \<longleftrightarrow> e \<noteq> d \<and> hm_get (ti_rev_map idx) e = Some i" if "i < length ids" for i e
  proof -
    have i: "i < length (ti_id_map idx)" using that len index_okD(3) [OF assms] by simp
    have base: "ti_id_map idx ! i = Some e \<longleftrightarrow> hm_get (ti_rev_map idx) e = Some i"
      using index_ok_slot(2) [OF assms, of e i] index_ok_rev [OF assms i, of e] by blast
    show ?thesis
    proof (cases "hm_get (ti_rev_map idx) d")
      case None
      then show ?thesis using base by (auto simp: ids_def)
    next
      case (Some j)
      show ?thesis using base i Some index_ok_slot [OF assms Some] by (auto simp: ids_def nth_list_update)
    qed
  qed
  have slot: "hm_get (hm_insert d (ti_next_id idx) (ti_rev_map idx)) e = Some i \<longleftrightarrow> vec_get (ids @ [Some d]) i = Some (Some e)" for e i
    using old [of i e] len index_ok_slot(1) [OF assms, of e i] index_okD(3) [OF assms]
    by (auto simp: vec_get_def nth_append less_Suc_eq)
  have "index_ok idx'"
  proof (rule index_okI)
    show "hm_get (ti_rev_map idx') e = Some i \<longleftrightarrow> vec_get (ti_id_map idx') i = Some (Some e)" for e i
      using slot [of e i] by (simp add: idx'_def del: hm_get_insert)
  qed (use index_okD [OF assms] len in \<open>simp_all add: idx'_def\<close>)
  moreover have "index_abs idx' = (index_abs idx)(d \<mapsto> v)" by (auto simp: index_abs_def idx'_def)
  ultimately show ?thesis using index_insert_eq [OF assms, of H d v] by (simp add: ids_def idx'_def)
qed

lemma tombstone_ok:
  assumes "index_ok idx"
  shows "\<exists>idx'. tombstone d idx = Some (idx', index_abs idx d \<noteq> None) \<and> index_ok idx' \<and>
    index_abs idx' = (index_abs idx)(d := None) \<and> ti_dimension idx' = ti_dimension idx"
proof (cases "hm_get (ti_rev_map idx) d")
  case None
  then have "index_abs idx d = None" using index_okD(4) [OF assms] by (simp add: index_abs_def)
  with None assms show ?thesis by (auto simp: tombstone_def)
next
  case (Some i)
  note i = index_ok_slot [OF assms Some]
  have live: "index_abs idx d \<noteq> None" using index_okD(4) [OF assms] Some by (simp add: index_abs_def)
  define idx' where "idx' = idx\<lparr>ti_id_map := (ti_id_map idx)[i := None], ti_rev_map := hm_remove d (ti_rev_map idx),
    ti_stored_vecs := hm_remove d (ti_stored_vecs idx)\<rparr>"
  have slot: "hm_get (hm_remove d (ti_rev_map idx)) e = Some j \<longleftrightarrow> vec_get ((ti_id_map idx)[i := None]) j = Some (Some e)" for e j
  proof (cases "j = i")
    case True
    have "e \<noteq> d \<Longrightarrow> hm_get (ti_rev_map idx) e \<noteq> Some i" using index_ok_slot(2) [OF assms, of e i] i(2) by auto
    then show ?thesis using True by (simp add: vec_get_def)
  next
    case False
    have "hm_get (ti_rev_map idx) e = Some j \<longleftrightarrow> j < length (ti_id_map idx) \<and> ti_id_map idx ! j = Some e"
      using index_ok_slot [OF assms, of e j] index_ok_rev [OF assms, of j e] by blast
    then show ?thesis using False i Some by (auto simp: vec_get_def)
  qed
  have "index_ok idx'"
  proof (rule index_okI)
    show "hm_get (ti_rev_map idx') e = Some j \<longleftrightarrow> vec_get (ti_id_map idx') j = Some (Some e)" for e j
      using slot [of e j] by (simp add: idx'_def del: hm_get_remove)
  qed (use index_okD [OF assms] in \<open>simp_all add: idx'_def\<close>)
  moreover have "index_abs idx' = (index_abs idx)(d := None)" by (auto simp: index_abs_def idx'_def)
  ultimately show ?thesis using Some i(1) live by (auto simp: tombstone_def vec_set_def idx'_def)
qed

lemma live_count_abs:
  assumes "index_ok idx"
  shows "live_count idx = card (dom (index_abs idx))"
proof -
  have "dom (hm_get (ti_stored_vecs idx)) = dom (hm_get (ti_rev_map idx))" unfolding dom_def using index_okD(4) [OF assms] by simp
  then show ?thesis using index_okD(1) [OF assms] by (simp add: live_count_def index_abs_def hm_len_card)
qed

section \<open>Both searches return live documents\<close>

definition hnsw_distinct :: "'h hnsw_lib \<Rightarrow> bool" where
  "hnsw_distinct H \<longleftrightarrow> (\<forall>h query k ef. distinct (map fst (hn_search H h query k ef)))"

definition score_ok :: "f64 \<Rightarrow> bool" where
  "score_ok s \<longleftrightarrow> s = NaN \<or> (f64_le (Fin (- 1)) s \<and> f64_le s (Fin 1))"

lemma clamp_score: "lo \<in> {- 1, 0} \<Longrightarrow> score_ok (f64_clamp x (Fin lo) (Fin 1))"
  by (cases x) (auto simp: f64_clamp_def score_ok_def)

lemma cosine_score: "score_ok (cosine q v)"
  by (simp add: cosine_def Let_def clamp_score) (simp add: score_ok_def)

lemma search_exact_mem:
  assumes "index_ok idx" "(d, s) \<in> set (search_exact idx q k)"
  shows "\<exists>v. index_abs idx d = Some v \<and> s = cosine q v"
proof -
  have "(d, s) \<in> set (map (\<lambda>(d, v). (d, cosine q v)) (ti_stored_vecs idx))"
    using assms(2) by (auto simp: search_exact_def Let_def split: if_splits dest: in_set_takeD)
  then show ?thesis using hm_get_in_set [OF index_okD(2) [OF assms(1)]] by (auto simp: index_abs_def)
qed

lemma search_exact_distinct: "index_ok idx \<Longrightarrow> distinct (map fst (search_exact idx q k))"
proof -
  assume "index_ok idx"
  let ?sc = "map (\<lambda>(d, v). (d, cosine q v)) (ti_stored_vecs idx)"
  have "map fst ?sc = map fst (ti_stored_vecs idx)" by (simp add: comp_def case_prod_beta)
  then have "distinct (map fst ?sc)" using index_okD(2) [OF \<open>index_ok idx\<close>] by (simp only: hm_wf_def)
  moreover have "mset (map fst (sort_by (f64_desc snd) ?sc)) = mset (map fst ?sc)" by (simp only: mset_map mset_sort_by)
  ultimately have "distinct (map fst (sort_by (f64_desc snd) ?sc))" by (metis mset_eq_imp_distinct_iff)
  then show ?thesis by (simp add: search_exact_def Let_def take_map [symmetric])
qed

text \<open>The loop over the neighbours: what it adds are documents of slots that are not tombstoned.\<close>

lemma collect_neighbours_mem:
  "(d, s) \<in> set (collect_neighbours ids k acc ns) \<Longrightarrow>
   (d, s) \<in> set acc \<or> ((\<exists>i \<in> fst ` set ns. vec_get ids i = Some (Some d)) \<and> score_ok s)"
  by (induction ids k acc ns rule: collect_neighbours.induct)
    (fastforce simp: Let_def clamp_score split: option.splits if_splits)+

lemma collect_neighbours_length:
  "length acc < k \<Longrightarrow> length (collect_neighbours ids k acc ns) \<le> k"
  by (induction ids k acc ns rule: collect_neighbours.induct) (auto simp: Let_def split: option.splits)

lemma collect_neighbours_distinct:
  assumes "\<And>i j d. vec_get ids i = Some (Some d) \<Longrightarrow> vec_get ids j = Some (Some d) \<Longrightarrow> i = j"
    and "distinct (map fst acc)" "distinct (map fst ns)"
    and "\<And>d i. d \<in> fst ` set acc \<Longrightarrow> vec_get ids i = Some (Some d) \<Longrightarrow> i \<notin> fst ` set ns"
  shows "distinct (map fst (collect_neighbours ids k acc ns))"
  using assms
proof (induction ids k acc ns rule: collect_neighbours.induct)
  case (2 ids k acc i dist rest)
  show ?case
  proof (cases "\<exists>d. vec_get ids i = Some (Some d)")
    case False
    then show ?thesis using 2 by (auto split: option.splits)
  next
    case True
    then obtain d where d: "vec_get ids i = Some (Some d)" by blast
    let ?acc = "acc @ [(d, f64_clamp (f64_sub (Fin 1) dist) (Fin 0) (Fin 1))]"
    have "d \<notin> fst ` set acc" using "2.prems"(4) [OF _ d] by auto
    then have acc: "distinct (map fst ?acc)" using "2.prems"(2) by simp
    have rest: "j \<notin> fst ` set rest" if "e \<in> fst ` set ?acc" "vec_get ids j = Some (Some e)" for e j
    proof (cases "e = d")
      case True
      then have "j = i" using "2.prems"(1) [OF _ d] that(2) by blast
      then show ?thesis using "2.prems"(3) by auto
    next
      case False
      then have "e \<in> fst ` set acc" using that(1) by auto
      from "2.prems"(4) [OF this that(2)] show ?thesis by auto
    qed
    have "distinct (map fst rest)" using "2.prems"(3) by simp
    with "2.IH"(3) [OF d refl refl refl] "2.prems"(1) acc rest d show ?thesis by (auto simp: Let_def)
  qed
qed simp

section \<open>Similarities of finite vectors\<close>

definition vec_finite :: "vec32 \<Rightarrow> bool" where
  "vec_finite v \<longleftrightarrow> list_all f32_finite v \<and> length v < 2 ^ 53"

lemma mul_bound:
  assumes "f32_finite a" "f32_finite b"
  obtains r where "f64_mul (f32_value a) (f32_value b) = Fin r" "\<bar>r\<bar> \<le> 2 powi 256"
proof -
  obtain x where x: "f32_value a = Fin x" "\<bar>x\<bar> \<le> 2 powi 128" by (rule f32_value_bounds [OF assms(1)])
  obtain y where y: "f32_value b = Fin y" "\<bar>y\<bar> \<le> 2 powi 128" by (rule f32_value_bounds [OF assms(2)])
  have "\<bar>x * y\<bar> \<le> 2 powi 128 * 2 powi 128" unfolding abs_mult by (rule mult_mono [OF x(2) y(2)]) auto
  also have "\<dots> = 2 powi 256" using power_int_add [of "2::rat" 128 128] by simp
  finally have b: "\<bar>x * y\<bar> \<le> of_nat 1 * 2 powi 256" by simp
  have "\<bar>x * y\<bar> \<le> 2 ^ 1000" by (rule order_trans [OF b small_bound]) simp_all
  with fl_round_bound [OF b] x(1) y(1) show thesis by (intro that [of "fl_round (x * y)"]) (simp_all add: to_f64_small)
qed

lemma square_bound:
  assumes "f32_finite a"
  obtains r where "f64_mul (f32_value a) (f32_value a) = Fin r" "0 \<le> r" "f32_value a \<noteq> Fin 0 \<Longrightarrow> 2 powi (- 298) \<le> r"
    "f32_value a = Fin 0 \<Longrightarrow> r = 0"
proof -
  obtain r where r: "f64_mul (f32_value a) (f32_value a) = Fin r" by (rule mul_bound [OF assms assms])
  obtain x where x: "f32_value a = Fin x" "x \<noteq> 0 \<Longrightarrow> 2 powi (- 149) \<le> \<bar>x\<bar>"
    using f32_value_bounds [OF assms] by blast
  have fl: "r = fl_round (x * x)" using r x(1) by (simp add: to_f64_def Let_def split: if_splits)
  have "2 powi (- 298) \<le> r" if "x \<noteq> 0"
  proof -
    have "(2::rat) powi (- 149) * 2 powi (- 149) \<le> \<bar>x\<bar> * \<bar>x\<bar>" by (rule mult_mono) (use x(2) [OF that] in auto)
    then have "fl_round (2 powi (- 298)) \<le> fl_round (x * x)"
      using power_int_add [of "2::rat" "- 149" "- 149"] by (intro fl_round_mono) simp
    then show ?thesis using fl fl_round_exact [of "2 powi (- 298)" 1 "- 298"] by simp
  qed
  with x(1) r fl show thesis by (intro that [of r]) (auto intro: fl_round_nonneg)
qed

lemma squares_facts:
  assumes "vec_finite v" "x \<in> set (map (\<lambda>x. f64_mul (f32_value x) (f32_value x)) v)"
  shows "\<exists>r. x = Fin r \<and> \<bar>r\<bar> \<le> 2 powi 256" "\<exists>r. x = Fin r \<and> 0 \<le> r"
proof -
  obtain a where a: "f32_finite a" "x = f64_mul (f32_value a) (f32_value a)"
    using assms by (auto simp: vec_finite_def list_all_iff)
  obtain r where "x = Fin r" "\<bar>r\<bar> \<le> 2 powi 256" unfolding a(2) by (rule mul_bound [OF a(1) a(1)])
  then show "\<exists>r. x = Fin r \<and> \<bar>r\<bar> \<le> 2 powi 256" by blast
  obtain r where "x = Fin r" "0 \<le> r" unfolding a(2) by (rule square_bound [OF a(1)])
  then show "\<exists>r. x = Fin r \<and> 0 \<le> r" by blast
qed

lemma length_scaled:
  assumes "n < 2 ^ 53" "e + 53 \<le> e'"
  shows "of_nat n * 2 powi e < (2::rat) powi e'"
proof -
  have "(of_nat n :: rat) < of_nat (2 ^ 53)" using assms(1) by (simp only: of_nat_less_iff)
  then have "of_nat n * 2 powi e < (2::rat) ^ 53 * 2 powi e" by (intro mult_strict_right_mono) (simp_all del: power_numeral)
  also have "\<dots> = 2 powi (e + 53)" using power_int_add [of "2::rat" e 53] by (simp only: power_int_numeral mult.commute) simp
  also have "\<dots> \<le> (2::rat) powi e'" using assms(2) by (intro power_int_increasing) auto
  finally show ?thesis .
qed

lemma vec_norm_pos:
  assumes "vec_finite v" "a \<in> set v" "f32_value a \<noteq> Fin 0"
  shows "\<exists>r. vec_norm v = Fin r \<and> 2 powi (- 149) \<le> r \<and> r \<le> 2 powi 155"
proof -
  let ?xs = "map (\<lambda>x. f64_mul (f32_value x) (f32_value x)) v"
  note facts = squares_facts [OF assms(1)]
  have len: "length ?xs < 2 ^ 53" using assms(1) by (simp add: vec_finite_def)
  have "\<exists>s. f64_sum ?xs = Fin s \<and> \<bar>s\<bar> \<le> of_nat (length ?xs) * 2 powi 256"
    by (rule f64_sum_bound [OF facts(1) len]) simp_all
  then obtain s where s: "f64_sum ?xs = Fin s" "\<bar>s\<bar> \<le> of_nat (length ?xs) * 2 powi 256" by blast
  have fin: "f32_finite a" using assms(1,2) by (simp add: vec_finite_def list_all_iff)
  obtain t where t: "f64_mul (f32_value a) (f32_value a) = Fin t" "2 powi (- 298) \<le> t"
    using square_bound [OF fin] assms(3) by blast
  have "f64_mul (f32_value a) (f32_value a) \<in> set ?xs" using assms(2) by simp
  then have "Fin t \<in> set ?xs" using t(1) by simp
  then have lo: "2 powi (- 298) \<le> s" using f64_sum_ge [OF facts(2) _ t(2) _ s(1)] by simp
  have up: "s < 2 powi 310" using s(2) length_scaled [OF len, of 256 310] by linarith
  have "2 powi (- 149) \<le> sqrt_round s" "sqrt_round s \<le> 2 powi 155"
    by (rule sqrt_round_bounds [of "- 149" s 155]; use lo up in simp)+
  moreover have "0 < s" using lo two_powi_pos [of "- 298"] by linarith
  ultimately show ?thesis using s(1) by (simp add: vec_norm_def)
qed

lemma vec_norm_cases:
  assumes "vec_finite v"
  shows "vec_norm v = Fin 0 \<or> (\<exists>r. vec_norm v = Fin r \<and> 2 powi (- 149) \<le> r \<and> r \<le> 2 powi 155)"
proof (cases "\<exists>a \<in> set v. f32_value a \<noteq> Fin 0")
  case True
  then show ?thesis using vec_norm_pos [OF assms] by blast
next
  case False
  then have "map (\<lambda>x. f64_mul (f32_value x) (f32_value x)) v = map (\<lambda>_. Fin 0) v" by simp
  moreover have "f64_sum (map (\<lambda>_. Fin 0) v) = Fin 0" by (induction v rule: rev_induct) (simp_all add: f64_sum_def)
  ultimately have "f64_sum (map (\<lambda>x. f64_mul (f32_value x) (f32_value x)) v) = Fin 0" by (simp only:)
  then show ?thesis by (simp add: vec_norm_def)
qed

lemma cosine_finite:
  assumes q: "vec_finite q" and v: "vec_finite v" and nz: "vec_norm q \<noteq> Fin 0"
  obtains r where "cosine q v = Fin r" "- 1 \<le> r" "r \<le> 1"
proof (cases "vec_norm v = Fin 0")
  case True
  then show thesis by (intro that [of 0]) (simp_all add: cosine_def)
next
  case False
  obtain a where a: "vec_norm q = Fin a" "2 powi (- 149) \<le> a" "a \<le> 2 powi 155" using vec_norm_cases [OF q] nz by auto
  obtain b where b: "vec_norm v = Fin b" "2 powi (- 149) \<le> b" "b \<le> 2 powi 155" using vec_norm_cases [OF v] False by auto
  have pos: "0 < a" "0 < b" using a(2) b(2) two_powi_pos [of "- 149"] by linarith+
  have "a * b \<le> 2 powi 155 * 2 powi 155" using a b pos by (intro mult_mono) auto
  also have "\<dots> = of_nat 1 * 2 powi 310" using power_int_add [of "2::rat" 155 155] by simp
  finally have up: "\<bar>a * b\<bar> \<le> of_nat 1 * 2 powi 310" using pos by simp
  have lo: "2 powi (- 298) \<le> fl_round (a * b)"
  proof -
    have "(2::rat) powi (- 149) * 2 powi (- 149) \<le> a * b" using a b pos by (intro mult_mono) auto
    then have "fl_round (2 powi (- 298)) \<le> fl_round (a * b)"
      using power_int_add [of "2::rat" "- 149" "- 149"] by (intro fl_round_mono) simp
    then show ?thesis using fl_round_exact [of "2 powi (- 298)" 1 "- 298"] by simp
  qed
  have prod: "f64_mul (vec_norm q) (vec_norm v) = Fin (fl_round (a * b))"
    using order_trans [OF up small_bound] a(1) b(1) by (simp add: to_f64_small)
  let ?xs = "map (\<lambda>(a, b). f64_mul (f32_value a) (f32_value b)) (zip q v)"
  have "\<exists>r. x = Fin r \<and> \<bar>r\<bar> \<le> 2 powi 256" if "x \<in> set ?xs" for x
  proof -
    from that obtain c d where "(c, d) \<in> set (zip q v)" and x: "x = f64_mul (f32_value c) (f32_value d)" by auto
    then have "c \<in> set q" "d \<in> set v" by (auto dest: set_zip_leftD set_zip_rightD)
    then have "f32_finite c" "f32_finite d" using q v by (simp_all add: vec_finite_def list_all_iff)
    with x show ?thesis using mul_bound by metis
  qed
  moreover have "length ?xs < 2 ^ 53" using q by (simp add: vec_finite_def min_def)
  ultimately obtain s where s: "vec_dot q v = Fin s" "\<bar>s\<bar> \<le> of_nat (length ?xs) * 2 powi 256"
    using f64_sum_bound [of ?xs 256] unfolding vec_dot_def by auto
  obtain y where y: "f64_div (vec_dot q v) (f64_mul (vec_norm q) (vec_norm v)) = to_f64 y"
    using prod s(1) lo two_powi_pos [of "- 298"] by auto
  have "f64_lt (Fin 0) (vec_norm v)" using b(1) pos by simp
  then have "cosine q v = f64_clamp (to_f64 y) (Fin (- 1)) (Fin 1)" by (simp add: cosine_def Let_def y)
  moreover have "to_f64 y \<noteq> NaN" by simp
  ultimately show thesis using that by (cases "to_f64 y") (auto simp: f64_clamp_def split: if_splits)
qed

lemma f64_eq_zero: "f64_eq x (Fin 0) \<longleftrightarrow> x = Fin 0"
  by (cases x) auto

lemma cosine_not_NaN: "vec_finite q \<Longrightarrow> vec_finite v \<Longrightarrow> vec_norm q \<noteq> Fin 0 \<Longrightarrow> cosine q v \<noteq> NaN"
  using cosine_finite [of q v] by fastforce

section \<open>Properties\<close>

text \<open>
  Search never returns a deleted document. On an index that satisfies the invariant, every result
  of a search, by either method, is a live document, no document occurs twice, there are at most
  \<open>top_k\<close> of them, and every score is NaN or between -1 and 1. A search for at most \<open>max_capacity\<close> results returns.
\<close>

theorem search_returns_live:
  assumes "index_ok idx" "hnsw_distinct H"
  shows "case index_search H idx q k of
      None \<Rightarrow> max_capacity < k
    | Some res \<Rightarrow> fst ` set res \<subseteq> dom (index_abs idx) \<and> distinct (map fst res) \<and> length res \<le> k \<and> (\<forall>r \<in> set res. score_ok (snd r))"
proof (cases "ti_rev_map idx = [] \<or> k = 0")
  case True
  then show ?thesis by (auto simp: index_search_def)
next
  case False
  show ?thesis
  proof (cases "hm_len (ti_rev_map idx) < BRUTE_FORCE_THRESHOLD")
    case True
    then have eq: "index_search H idx q k = Some (search_exact idx q k)" using False by (simp add: index_search_def)
    have "length (search_exact idx q k) \<le> k" by (simp add: search_exact_def Let_def)
    moreover have "index_abs idx (fst r) \<noteq> None \<and> score_ok (snd r)" if "r \<in> set (search_exact idx q k)" for r
      using search_exact_mem [OF assms(1), of "fst r" "snd r" q k] that cosine_score by force
    ultimately show ?thesis unfolding eq using search_exact_distinct [OF assms(1), of q k] by auto
  next
    case hnsw: False
    obtain ns where eq: "index_search H idx q k = (if k > max_capacity then None else Some (collect_neighbours (ti_id_map idx) k [] ns))"
      and "distinct (map fst ns)"
      using assms(2) False hnsw by (simp add: index_search_def search_hnsw_def search_hnsw_ef_def Let_def hnsw_distinct_def)
    have slots: "vec_get (ti_id_map idx) i = Some (Some d) \<longleftrightarrow> hm_get (ti_rev_map idx) d = Some i" for i d
      using assms(1) by (simp add: index_ok_def)
    have "distinct (map fst (collect_neighbours (ti_id_map idx) k [] ns))"
      by (rule collect_neighbours_distinct) (use slots \<open>distinct (map fst ns)\<close> in auto)
    moreover have "index_abs idx d \<noteq> None \<and> score_ok s" if "(d, s) \<in> set (collect_neighbours (ti_id_map idx) k [] ns)" for d s
      using collect_neighbours_mem [OF that] slots index_okD(4) [OF assms(1), of d] by (auto simp: index_abs_def)
    moreover have "length (collect_neighbours (ti_id_map idx) k [] ns) \<le> k"
      using collect_neighbours_length [of "[]" k] False by simp
    ultimately show ?thesis unfolding eq by (auto simp: image_subset_iff)
  qed
qed

text \<open>
  C10: Exact search is correct. For a query and stored vectors with finite entries and a query that is
  not zero, the result has as many entries as asked for (or all), each with the cosine similarity
  of its document, a number between -1 and 1; the entries are in order of decreasing similarity,
  and no document that is left out is more similar than one that is returned.
\<close>

theorem search_exact_topk:
  assumes "index_ok idx" "vec_finite q" "vec_norm q \<noteq> Fin 0" "\<And>d v. index_abs idx d = Some v \<Longrightarrow> vec_finite v"
    and "res = search_exact idx q k"
  shows "length res = min k (live_count idx) \<and> distinct (map fst res) \<and>
    (\<forall>(d, s) \<in> set res. \<exists>v r. index_abs idx d = Some v \<and> s = cosine q v \<and> s = Fin r \<and> - 1 \<le> r \<and> r \<le> 1) \<and>
    sorted_wrt (\<lambda>a b. f64_le (snd b) (snd a)) res \<and>
    (\<forall>d v. index_abs idx d = Some v \<longrightarrow> d \<in> fst ` set res \<or> (\<forall>r \<in> set res. f64_le (cosine q v) (snd r)))"
proof -
  define scored where "scored = map (\<lambda>(d, v). (d, cosine q v)) (ti_stored_vecs idx)"
  define all where "all = sort_by (f64_desc snd) scored"
  have res: "res = take k all" using assms(3,5) by (simp add: search_exact_def f64_eq_zero all_def scored_def)
  have mem: "(d, s) \<in> set all \<longleftrightarrow> (\<exists>v. index_abs idx d = Some v \<and> s = cosine q v)" for d s
    using hm_get_in_set [OF index_okD(2) [OF assms(1)]] by (force simp: all_def scored_def index_abs_def)
  have nn: "snd x \<noteq> NaN" if "x \<in> set all" for x
  proof -
    have "(fst x, snd x) \<in> set all" using that by simp
    then obtain v where "index_abs idx (fst x) = Some v" "snd x = cosine q v" unfolding mem by blast
    then show ?thesis using cosine_not_NaN [OF assms(2) assms(4) assms(3)] by metis
  qed
  have "sorted_wrt (\<lambda>a b. f64_desc snd a b \<noteq> Greater) all"
    unfolding all_def by (rule f64_desc.sort_by_sorted) (use nn in \<open>auto simp: all_def\<close>)
  then have sorted: "sorted_wrt (\<lambda>a b. f64_le (snd b) (snd a)) all"
    by (rule sorted_wrt_mono_rel [rotated]) (use nn f64_desc_Greater [of snd] in blast)
  have len: "length all = live_count idx"
  proof -
    have "length (ti_stored_vecs idx) = hm_len (ti_stored_vecs idx)" by (simp add: hm_len_def)
    then show ?thesis
      using live_count_abs [OF assms(1)] hm_len_card [OF index_okD(2) [OF assms(1)]] by (simp add: all_def scored_def index_abs_def)
  qed
  have "sorted_wrt (\<lambda>a b. f64_le (snd b) (snd a)) (take k all @ drop k all)" using sorted by simp
  note parts = this [unfolded sorted_wrt_append]
  have cross: "f64_le (snd b) (snd a)" if "a \<in> set (take k all)" "b \<in> set (drop k all)" for a b
    using parts that by blast
  have 1: "length res = min k (live_count idx)" using len by (simp add: res)
  have 2: "distinct (map fst res)" using search_exact_distinct [OF assms(1), of q k] assms(5) by simp
  have 3: "\<exists>v r. index_abs idx d = Some v \<and> s = cosine q v \<and> s = Fin r \<and> - 1 \<le> r \<and> r \<le> 1" if "(d, s) \<in> set res" for d s
  proof -
    have "(d, s) \<in> set all" using that unfolding res by (rule in_set_takeD)
    then obtain v where v: "index_abs idx d = Some v" "s = cosine q v" unfolding mem by blast
    obtain r where "cosine q v = Fin r" "- 1 \<le> r" "r \<le> 1" by (rule cosine_finite [OF assms(2) assms(4) [OF v(1)] assms(3)])
    with v show ?thesis by blast
  qed
  have 4: "sorted_wrt (\<lambda>a b. f64_le (snd b) (snd a)) res"
    unfolding res using parts by blast
  have 5: "d \<in> fst ` set res \<or> (\<forall>r \<in> set res. f64_le (cosine q v) (snd r))" if "index_abs idx d = Some v" for d v
  proof (cases "(d, cosine q v) \<in> set (take k all)")
    case True
    then show ?thesis unfolding res by force
  next
    case False
    have "(d, cosine q v) \<in> set all" using mem that by blast
    then have "(d, cosine q v) \<in> set (drop k all)" using False by (metis Un_iff append_take_drop_id set_append)
    then show ?thesis unfolding res using cross by fastforce
  qed
  show ?thesis using 1 2 3 4 5 by blast
qed

section \<open>Instances\<close>

text \<open>A graph library that keeps every slot and reports all of them at distance 0.\<close>

definition demo_hnsw :: "nat list hnsw_lib" where
  "demo_hnsw = \<lparr>hn_new = (\<lambda>_ _ _ _. []), hn_insert = (\<lambda>_ i h. if i \<in> set h then h else i # h),
     hn_search = (\<lambda>h _ k _. map (\<lambda>i. (i, Fin 0)) (take k (remdups h)))\<rparr>"

lemma demo_hnsw_distinct: "hnsw_distinct demo_hnsw"
  by (simp add: hnsw_distinct_def demo_hnsw_def comp_def distinct_take)

definition demo_index :: "nat list tenant_index" where
  "demo_index = the (index_insert demo_hnsw 7 [0x3f800000] (index_new demo_hnsw 1))"

lemma demo_index_facts: "index_ok demo_index" "index_abs demo_index = [7 \<mapsto> [0x3f800000] ]"
  using index_insert_ok [where idx = "index_new demo_hnsw 1" and H = demo_hnsw and d = 7 and v = "[0x3f800000]"]
  by (auto simp: demo_index_def)

lemma demo_vec_finite: "vec_finite [0x3f800000]"
  by (simp add: vec_finite_def f32_finite_def)

lemma demo_vec_norm: "vec_norm [0x3f800000] \<noteq> Fin 0"
proof -
  have "f32_value 0x3f800000 \<noteq> Fin 0" by (simp add: f32_value_def Let_def)
  then show ?thesis using vec_norm_pos [OF demo_vec_finite] two_powi_pos [of "- 149"] by force
qed

theorem search_returns_live_witness:
  "\<exists>res. index_search demo_hnsw demo_index [0x3f800000] 3 = Some res \<and> distinct (map fst res) \<and> fst ` set res \<subseteq> {7}"
  using search_returns_live [OF demo_index_facts(1) demo_hnsw_distinct, where q = "[0x3f800000]" and k = 3]
  by (auto simp: demo_index_facts max_capacity_def split: option.splits)

theorem search_exact_topk_witness:
  "length (search_exact demo_index [0x3f800000] 3) = 1"
proof -
  have v: "\<And>d v. index_abs demo_index d = Some v \<Longrightarrow> vec_finite v"
    by (auto simp: demo_index_facts(2) demo_vec_finite split: if_splits)
  have "live_count demo_index = 1" by (simp add: live_count_abs demo_index_facts)
  then show ?thesis
    using search_exact_topk [OF demo_index_facts(1) demo_vec_finite demo_vec_norm v refl, where k = 3] by simp
qed

end
