(* ===== verification/Storage_Db.thy ===== *)
theory Storage_Db
  imports Vector_Index
begin

text \<open>
  The embedded store of the storage service (\<open>kwaai-storage/src/db.rs\<close>, \<open>tenant.rs\<close>, \<open>vectors.rs\<close>):
  tenant records and vectors in two tables of the embedded database, one in-memory index per
  active tenant, the operations on tenants and vectors, and the rebuilding of the indices when the
  store is opened.

  The database (\<open>redb\<close>), its ordered tables of byte strings, the JSON form of a tenant record and the text
  of a tenant id are parameters; \<open>redb_ok\<close> and \<open>json_ok\<close> state what the code relies on. An operation that uses the
  database takes the error one of its database calls may return; a write transaction is applied as
  a whole or not at all. \<open>None\<close> is a panic.

  A tenant id is its 16 bytes. Every history of operations refines a plain map from tenants to a
  dimension and a map from documents to vectors, across restarts.
\<close>

section \<open>Parameters\<close>

record 't redb =
  rd_empty :: 't
  rd_get :: "'t \<Rightarrow> bytes \<Rightarrow> bytes option"
  rd_insert :: "bytes \<Rightarrow> bytes \<Rightarrow> 't \<Rightarrow> 't"
  rd_remove :: "bytes \<Rightarrow> 't \<Rightarrow> 't"
  rd_iter :: "'t \<Rightarrow> (bytes \<times> bytes) list"
  rd_range :: "bytes \<Rightarrow> 't \<Rightarrow> (bytes \<times> bytes) list"

record tenant_record =
  tr_peer_id :: string
  tr_display_name :: "string option"
  tr_capacity_limit_mb :: i64
  tr_status :: string
  tr_created_at :: string
  tr_vector_dimension :: nat

record ('h, 't) storage_env =
  se_redb :: "'t redb"
  se_hnsw :: "'h hnsw_lib"
  se_to_json :: "tenant_record \<Rightarrow> bytes"
  se_from_json :: "bytes \<Rightarrow> string + tenant_record"
  se_uuid_show :: "uuid \<Rightarrow> string"

section \<open>State\<close>

record ('h, 't) db_inner =
  db_tenants :: 't
  db_vectors :: 't
  db_indices :: "(uuid, 'h tenant_index) hashmap"

record tenant_info =
  tn_tenant_id :: uuid
  tn_peer_id :: string
  tn_display_name :: "string option"
  tn_capacity_limit_mb :: i64
  tn_status :: string
  tn_created_at :: string
  tn_vector_dimension :: u32

record tenant_stats =
  st_tenant_id :: uuid
  st_vector_count :: i64
  st_storage_bytes :: i64

definition record_to_info :: "uuid \<Rightarrow> tenant_record \<Rightarrow> tenant_info" where
  "record_to_info tenant_id rec =
     \<lparr>tn_tenant_id = tenant_id, tn_peer_id = tr_peer_id rec, tn_display_name = tr_display_name rec,
      tn_capacity_limit_mb = tr_capacity_limit_mb rec, tn_status = tr_status rec, tn_created_at = tr_created_at rec,
      tn_vector_dimension = word_of_nat (tr_vector_dimension rec)\<rparr>"

section \<open>Keys and values\<close>

definition vector_key :: "uuid \<Rightarrow> i64 \<Rightarrow> bytes" where
  "vector_key tenant_id doc_id = tenant_id @ u64_to_be_bytes doc_id"

definition f32s_to_bytes :: "vec32 \<Rightarrow> bytes" where
  "f32s_to_bytes v = concat (map u32_to_le_bytes v)"

definition bytes_to_f32s :: "bytes \<Rightarrow> vec32" where
  "bytes_to_f32s b = map u32_from_le_bytes (chunks4 b)"

section \<open>Opening the store\<close>

fun collect_dims ::
  "('h, 't) storage_env \<Rightarrow> (bytes \<times> bytes) list \<Rightarrow> (uuid, nat) hashmap \<Rightarrow> string + (uuid, nat) hashmap" where
  "collect_dims E [] dims = Inr dims"
| "collect_dims E ((k, v) # rest) dims =
     (case uuid_from_slice k of
        None \<Rightarrow> Inl ''corrupt tenant key''
      | Some tid \<Rightarrow>
          (case se_from_json E v of
             Inl e \<Rightarrow> Inl ''corrupt tenant record''
           | Inr rec \<Rightarrow> collect_dims E rest
               (if tr_status rec \<noteq> ''Deleted'' then hm_insert tid (tr_vector_dimension rec) dims else dims)))"

fun load_vectors ::
  "('h, 't) storage_env \<Rightarrow> (bytes \<times> bytes) list \<Rightarrow> (uuid, 'h tenant_index) hashmap \<Rightarrow> (uuid, 'h tenant_index) hashmap option" where
  "load_vectors E [] indices = Some indices"
| "load_vectors E ((key, v) # rest) indices =
     (if length key < 24 then load_vectors E rest indices
      else let tid = take 16 key in
        case hm_get indices tid of
          None \<Rightarrow> load_vectors E rest indices
        | Some idx \<Rightarrow>
            (let doc_id = u64_from_be_bytes (take 8 (drop 16 key)); embedding = bytes_to_f32s v
             in Option.bind (index_insert (se_hnsw E) doc_id embedding idx)
                  (\<lambda>idx. load_vectors E rest (hm_insert tid idx indices))))"

definition rebuild_indices ::
  "('h, 't) storage_env \<Rightarrow> 't \<Rightarrow> 't \<Rightarrow> (string + (uuid, 'h tenant_index) hashmap) option" where
  "rebuild_indices E tenants vectors =
     (case collect_dims E (rd_iter (se_redb E) tenants) [] of
        Inl e \<Rightarrow> Some (Inl e)
      | Inr dims \<Rightarrow> map_option Inr (load_vectors E (rd_iter (se_redb E) vectors)
          (map (\<lambda>(tid, dim). (tid, index_new (se_hnsw E) dim)) dims)))"

definition storage_open ::
  "('h, 't) storage_env \<Rightarrow> string option \<Rightarrow> 't \<Rightarrow> 't \<Rightarrow> (string + ('h, 't) db_inner) option" where
  "storage_open E fail tenants vectors =
     (case fail of
        Some e \<Rightarrow> Some (Inl e)
      | None \<Rightarrow> map_option (map_sum (\<lambda>e. e)
          (\<lambda>indices. \<lparr>db_tenants = tenants, db_vectors = vectors, db_indices = indices\<rparr>)) (rebuild_indices E tenants vectors))"

section \<open>Tenants\<close>

definition tenant_create ::
  "('h, 't) storage_env \<Rightarrow> string option \<Rightarrow> uuid \<Rightarrow> string \<Rightarrow> string \<Rightarrow> i64 \<Rightarrow> string option \<Rightarrow> nat \<Rightarrow>
     ('h, 't) db_inner \<Rightarrow> ('h, 't) db_inner \<times> (string + tenant_info)" where
  "tenant_create E fail tenant_id created_at peer_id capacity_limit_mb display_name vector_dimension st =
     (let rec = \<lparr>tr_peer_id = peer_id, tr_display_name = display_name, tr_capacity_limit_mb = capacity_limit_mb,
                 tr_status = ''Active'', tr_created_at = created_at, tr_vector_dimension = vector_dimension\<rparr>
      in case fail of
           Some e \<Rightarrow> (st, Inl e)
         | None \<Rightarrow> (st\<lparr>db_tenants := rd_insert (se_redb E) tenant_id (se_to_json E rec) (db_tenants st),
                        db_indices := hm_insert tenant_id (index_new (se_hnsw E) vector_dimension) (db_indices st)\<rparr>,
                    Inr (record_to_info tenant_id rec)))"

fun list_loop ::
  "('h, 't) storage_env \<Rightarrow> (bytes \<times> bytes) list \<Rightarrow> tenant_info list \<Rightarrow> string + tenant_info list" where
  "list_loop E [] out = Inr out"
| "list_loop E ((k, v) # rest) out =
     (case uuid_from_slice k of
        None \<Rightarrow> Inl ''corrupt tenant key''
      | Some tid \<Rightarrow>
          (case se_from_json E v of
             Inl e \<Rightarrow> Inl e
           | Inr rec \<Rightarrow> list_loop E rest (if tr_status rec \<noteq> ''Deleted'' then out @ [record_to_info tid rec] else out)))"

definition tenant_list :: "('h, 't) storage_env \<Rightarrow> string option \<Rightarrow> ('h, 't) db_inner \<Rightarrow> string + tenant_info list" where
  "tenant_list E fail st =
     (case fail of
        Some e \<Rightarrow> Inl e
      | None \<Rightarrow> map_sum (\<lambda>e. e) (sort_by (\<lambda>a b. str_cmp (tn_created_at a) (tn_created_at b)))
          (list_loop E (rd_iter (se_redb E) (db_tenants st)) []))"

definition tenant_get :: "('h, 't) storage_env \<Rightarrow> string option \<Rightarrow> uuid \<Rightarrow> ('h, 't) db_inner \<Rightarrow> string + tenant_info option" where
  "tenant_get E fail tenant_id st =
     (case fail of Some e \<Rightarrow> Inl e | None \<Rightarrow>
      case rd_get (se_redb E) (db_tenants st) tenant_id of
        None \<Rightarrow> Inr None
      | Some v \<Rightarrow>
          (case se_from_json E v of
             Inl e \<Rightarrow> Inl e
           | Inr rec \<Rightarrow> if tr_status rec = ''Deleted'' then Inr None else Inr (Some (record_to_info tenant_id rec))))"

text \<open>The keys of a tenant: from the smallest possible one until a key has another prefix.\<close>

fun collect_prefixed :: "bytes \<Rightarrow> (bytes \<times> bytes) list \<Rightarrow> bytes list option" where
  "collect_prefixed prefix [] = Some []"
| "collect_prefixed prefix ((kb, _) # rest) =
     (if length kb < 16 \<or> take 16 kb \<noteq> prefix then Some []
      else if length kb \<noteq> 24 then None
      else map_option (\<lambda>ks. kb # ks) (collect_prefixed prefix rest))"

definition tenant_delete ::
  "('h, 't) storage_env \<Rightarrow> string option \<Rightarrow> uuid \<Rightarrow> ('h, 't) db_inner \<Rightarrow> (('h, 't) db_inner \<times> (string + unit)) option" where
  "tenant_delete E fail tenant_id st =
     (let R = se_redb E in
      case fail of Some e \<Rightarrow> Some (st, Inl e) | None \<Rightarrow>
      case rd_get R (db_tenants st) tenant_id of
        None \<Rightarrow> Some (st, Inl ''tenant not found'')
      | Some rec_bytes \<Rightarrow>
          (case se_from_json E rec_bytes of
             Inl e \<Rightarrow> Some (st, Inl e)
           | Inr rec \<Rightarrow>
               if tr_status rec = ''Deleted'' then Some (st, Inl (''tenant not found: '' @ se_uuid_show E tenant_id))
               else map_option (\<lambda>keys.
                      (st\<lparr>db_tenants := rd_insert R tenant_id (se_to_json E (rec\<lparr>tr_status := ''Deleted''\<rparr>)) (db_tenants st),
                          db_vectors := foldl (\<lambda>t k. rd_remove R k t) (db_vectors st) keys,
                          db_indices := hm_remove tenant_id (db_indices st)\<rparr>, Inr ()))
                    (collect_prefixed tenant_id (rd_range R (tenant_id @ replicate 8 0) (db_vectors st)))))"

definition tenant_stats_of :: "uuid \<Rightarrow> ('h, 't) db_inner \<Rightarrow> tenant_stats" where
  "tenant_stats_of tenant_id st =
     (let vector_count = (case hm_get (db_indices st) tenant_id of Some idx \<Rightarrow> word_of_nat (live_count idx) | None \<Rightarrow> 0);
          dim = (case hm_get (db_indices st) tenant_id of Some idx \<Rightarrow> ti_dimension idx | None \<Rightarrow> 384)
      in \<lparr>st_tenant_id = tenant_id, st_vector_count = vector_count,
          st_storage_bytes = vector_count * (4 * word_of_nat dim + 24)\<rparr>)"

definition tenant_count :: "('h, 't) db_inner \<Rightarrow> i64" where
  "tenant_count st = word_of_nat (hm_len (db_indices st))"

definition total_vectors :: "('h, 't) db_inner \<Rightarrow> i64" where
  "total_vectors st = sum_list (map (\<lambda>idx. word_of_nat (live_count idx)) (hm_values (db_indices st)))"

definition total_storage_bytes :: "('h, 't) db_inner \<Rightarrow> i64" where
  "total_storage_bytes st =
     sum_list (map (\<lambda>idx. word_of_nat (live_count idx) * (4 * word_of_nat (ti_dimension idx) + 24)) (hm_values (db_indices st)))"

section \<open>Vectors\<close>

text \<open>The two halves of an upload: the rows of the batch in one transaction, then the index.\<close>

definition upload_persist :: "('h, 't) storage_env \<Rightarrow> uuid \<Rightarrow> (i64 \<times> vec32) list \<Rightarrow> 't \<Rightarrow> 't" where
  "upload_persist E tenant_id vectors table =
     foldl (\<lambda>t (doc_id, embedding). rd_insert (se_redb E) (vector_key tenant_id doc_id) (f32s_to_bytes embedding) t) table vectors"

fun upload_index :: "'h hnsw_lib \<Rightarrow> (i64 \<times> vec32) list \<Rightarrow> 'h tenant_index \<Rightarrow> 'h tenant_index option" where
  "upload_index H [] idx = Some idx"
| "upload_index H ((doc_id, embedding) # rest) idx =
     Option.bind (index_insert H doc_id embedding idx) (upload_index H rest)"

definition vs_upload ::
  "('h, 't) storage_env \<Rightarrow> string option \<Rightarrow> uuid \<Rightarrow> (i64 \<times> vec32) list \<Rightarrow> ('h, 't) db_inner \<Rightarrow>
     (('h, 't) db_inner \<times> (string + nat)) option" where
  "vs_upload E fail tenant_id vectors st =
     (if vectors = [] then Some (st, Inr 0)
      else case hm_get (db_indices st) tenant_id of
        None \<Rightarrow> Some (st, Inl ''tenant not found'')
      | Some idx \<Rightarrow>
          (case fail of
             Some e \<Rightarrow> Some (st, Inl e)
           | None \<Rightarrow> map_option (\<lambda>idx.
               (st\<lparr>db_vectors := upload_persist E tenant_id vectors (db_vectors st),
                   db_indices := hm_insert tenant_id idx (db_indices st)\<rparr>, Inr (length vectors)))
               (upload_index (se_hnsw E) vectors idx)))"

definition vs_search ::
  "('h, 't) storage_env \<Rightarrow> uuid \<Rightarrow> vec32 \<Rightarrow> nat \<Rightarrow> ('h, 't) db_inner \<Rightarrow> (string + (i64 \<times> f64) list) option" where
  "vs_search E tenant_id query top_k st =
     (case hm_get (db_indices st) tenant_id of
        None \<Rightarrow> Some (Inl ''tenant not found'')
      | Some idx \<Rightarrow> map_option Inr (index_search (se_hnsw E) idx query top_k))"

fun tombstone_all :: "i64 list \<Rightarrow> 'h tenant_index \<Rightarrow> nat \<Rightarrow> ('h tenant_index \<times> nat) option" where
  "tombstone_all [] idx deleted = Some (idx, deleted)"
| "tombstone_all (doc_id # rest) idx deleted =
     Option.bind (tombstone doc_id idx) (\<lambda>(idx, b). tombstone_all rest idx (if b then deleted + 1 else deleted))"

definition vs_delete ::
  "('h, 't) storage_env \<Rightarrow> string option \<Rightarrow> uuid \<Rightarrow> i64 list \<Rightarrow> ('h, 't) db_inner \<Rightarrow>
     (('h, 't) db_inner \<times> (string + nat)) option" where
  "vs_delete E fail tenant_id ids st =
     (if ids = [] then Some (st, Inr 0)
      else case hm_get (db_indices st) tenant_id of
        None \<Rightarrow> Some (st, Inl ''tenant not found'')
      | Some idx \<Rightarrow>
          (case fail of
             Some e \<Rightarrow> Some (st, Inl e)
           | None \<Rightarrow> map_option (\<lambda>(idx, deleted).
               (st\<lparr>db_vectors := foldl (\<lambda>t d. rd_remove (se_redb E) (vector_key tenant_id d) t) (db_vectors st) ids,
                   db_indices := hm_insert tenant_id idx (db_indices st)\<rparr>, Inr deleted))
               (tombstone_all ids idx 0)))"

definition vs_count :: "uuid \<Rightarrow> ('h, 't) db_inner \<Rightarrow> i64" where
  "vs_count tenant_id st =
     (case hm_get (db_indices st) tenant_id of Some idx \<Rightarrow> word_of_nat (live_count idx) | None \<Rightarrow> 0)"

end
