(* ===== verification/Storage_Refinement.thy ===== *)
theory Storage_Refinement
  imports Storage_Db
begin

text \<open>
  The storage service implements its contract: a map from tenants to a dimension and a map from
  documents to vectors. The invariant \<open>db_ok\<close> relates the two tables and the indices; every
  operation keeps it, never panics and changes the meaning of the state as the specification
  says, and opening the store again gives a state with the same meaning.
\<close>

section \<open>What is relied on\<close>

fun bytes_less :: "bytes \<Rightarrow> bytes \<Rightarrow> bool" where
  "bytes_less _ [] = False"
| "bytes_less [] (_ # _) = True"
| "bytes_less (a # as) (b # bs) = (a < b \<or> (a = b \<and> bytes_less as bs))"

text \<open>A table of \<open>redb\<close> is a map ordered by its keys.\<close>

definition redb_ok :: "'t redb \<Rightarrow> bool" where
  "redb_ok R \<longleftrightarrow>
     (\<forall>k. rd_get R (rd_empty R) k = None) \<and>
     (\<forall>k v t k'. rd_get R (rd_insert R k v t) k' = (if k' = k then Some v else rd_get R t k')) \<and>
     (\<forall>k t k'. rd_get R (rd_remove R k t) k' = (if k' = k then None else rd_get R t k')) \<and>
     (\<forall>t k v. (k, v) \<in> set (rd_iter R t) \<longleftrightarrow> rd_get R t k = Some v) \<and>
     (\<forall>t. sorted_wrt (\<lambda>a b. bytes_less (fst a) (fst b)) (rd_iter R t)) \<and>
     (\<forall>s t. rd_range R s t = filter (\<lambda>e. \<not> bytes_less (fst e) s) (rd_iter R t))"

definition json_ok :: "('h, 't) storage_env \<Rightarrow> bool" where
  "json_ok E \<longleftrightarrow> (\<forall>r. se_from_json E (se_to_json E r) = Inr r)"

lemma redb_simps:
  assumes "redb_ok R"
  shows "rd_get R (rd_empty R) k = None"
    "rd_get R (rd_insert R k v t) k' = (if k' = k then Some v else rd_get R t k')"
    "rd_get R (rd_remove R k t) k' = (if k' = k then None else rd_get R t k')"
    "(k, v) \<in> set (rd_iter R t) \<longleftrightarrow> rd_get R t k = Some v"
  using assms by (simp_all add: redb_ok_def)

lemma bytes_less_irrefl [simp]: "\<not> bytes_less a a"
  by (induction a) auto

lemma sorted_bytes_distinct: "sorted_wrt bytes_less ks \<Longrightarrow> distinct ks"
  by (induction ks) auto

lemma redb_iter_distinct: "redb_ok R \<Longrightarrow> distinct (map fst (rd_iter R t))"
proof -
  assume "redb_ok R"
  then have "sorted_wrt (\<lambda>a b. bytes_less (fst a) (fst b)) (rd_iter R t)" by (simp add: redb_ok_def)
  then have "sorted_wrt bytes_less (map fst (rd_iter R t))" by (simp add: sorted_wrt_map)
  then show ?thesis by (rule sorted_bytes_distinct)
qed

section \<open>The specification\<close>

type_synonym storage_spec = "uuid \<Rightarrow> (nat \<times> (i64 \<Rightarrow> vec32 option)) option"

datatype storage_op =
    OpCreate "string option" uuid string string i64 "string option" nat
  | OpDelete "string option" uuid
  | OpUpload "string option" uuid "(i64 \<times> vec32) list"
  | OpRemove "string option" uuid "i64 list"
  | OpReopen "string option"

definition on_tenant :: "uuid \<Rightarrow> ((i64 \<Rightarrow> vec32 option) \<Rightarrow> (i64 \<Rightarrow> vec32 option)) \<Rightarrow> storage_spec \<Rightarrow> storage_spec" where
  "on_tenant tid f s = (case s tid of None \<Rightarrow> s | Some (n, m) \<Rightarrow> s(tid \<mapsto> (n, f m)))"

fun put_all :: "(i64 \<times> vec32) list \<Rightarrow> (i64 \<Rightarrow> vec32 option) \<Rightarrow> (i64 \<Rightarrow> vec32 option)" where
  "put_all [] m = m"
| "put_all ((d, v) # vs) m = put_all vs (m(d \<mapsto> v))"

fun spec_step :: "storage_op \<Rightarrow> storage_spec \<Rightarrow> storage_spec" where
  "spec_step (OpCreate fail tid _ _ _ _ n) s = (if fail = None then s(tid \<mapsto> (n, Map.empty)) else s)"
| "spec_step (OpDelete fail tid) s = (if fail = None then s(tid := None) else s)"
| "spec_step (OpUpload fail tid vs) s = (if fail = None then on_tenant tid (put_all vs) s else s)"
| "spec_step (OpRemove fail tid ids) s = (if fail = None then on_tenant tid (\<lambda>m. m |` (- set ids)) s else s)"
| "spec_step (OpReopen fail) s = s"

text \<open>A step of the model; a restart that fails leaves the tables as they are and is repeated.\<close>

fun storage_step :: "('h, 't) storage_env \<Rightarrow> storage_op \<Rightarrow> ('h, 't) db_inner \<Rightarrow> ('h, 't) db_inner option" where
  "storage_step E (OpCreate fail tid ts pid cap name n) st = Some (fst (tenant_create E fail tid ts pid cap name n st))"
| "storage_step E (OpDelete fail tid) st = map_option fst (tenant_delete E fail tid st)"
| "storage_step E (OpUpload fail tid vs) st = map_option fst (vs_upload E fail tid vs st)"
| "storage_step E (OpRemove fail tid ids) st = map_option fst (vs_delete E fail tid ids st)"
| "storage_step E (OpReopen fail) st =
     Option.bind (storage_open E fail (db_tenants st) (db_vectors st)) (\<lambda>r. case r of Inl _ \<Rightarrow> Some st | Inr st' \<Rightarrow> Some st')"

fun storage_run :: "('h, 't) storage_env \<Rightarrow> storage_op list \<Rightarrow> ('h, 't) db_inner \<Rightarrow> ('h, 't) db_inner option" where
  "storage_run E [] st = Some st"
| "storage_run E (op # ops) st = Option.bind (storage_step E op st) (storage_run E ops)"

definition spec_run :: "storage_op list \<Rightarrow> storage_spec \<Rightarrow> storage_spec" where
  "spec_run ops s = foldl (\<lambda>s op. spec_step op s) s ops"

fun created_id :: "storage_op \<Rightarrow> uuid option" where
  "created_id (OpCreate fail tid _ _ _ _ _) = (if fail = None then Some tid else None)"
| "created_id _ = None"

text \<open>What the code relies on of \<open>Uuid::new_v4\<close>: ids of 16 bytes, never used twice.\<close>

definition fresh_ids :: "storage_op list \<Rightarrow> bool" where
  "fresh_ids ops \<longleftrightarrow> distinct (List.map_filter created_id ops) \<and> (\<forall>tid \<in> set (List.map_filter created_id ops). length tid = 16)"

section \<open>Keys\<close>

lemma vector_key_eq:
  "length tid = 16 \<Longrightarrow> length tid' = 16 \<Longrightarrow> vector_key tid d = vector_key tid' d' \<longleftrightarrow> tid = tid' \<and> d = d'"
  by (auto simp: vector_key_def) (metis u64_be_roundtrip)

lemma vector_key_parts:
  assumes "length tid = 16"
  shows "length (vector_key tid d) = 24" "take 16 (vector_key tid d) = tid"
    "u64_from_be_bytes (take 8 (drop 16 (vector_key tid d))) = d"
  using assms by (simp_all add: vector_key_def)

lemma f32s_roundtrip [simp]: "bytes_to_f32s (f32s_to_bytes v) = v"
  by (simp add: bytes_to_f32s_def f32s_to_bytes_def chunks4_concat comp_def)

text \<open>Keys between two keys with a common prefix have that prefix.\<close>

lemma bytes_less_prefix:
  "\<not> bytes_less k (p @ z) \<Longrightarrow> bytes_less k (p @ w) \<Longrightarrow> \<exists>w'. k = p @ w'"
proof (induction p arbitrary: k)
  case (Cons c p)
  then show ?case by (cases k) auto
qed simp

lemma bytes_less_zeros: "length w = n \<Longrightarrow> \<not> bytes_less w (replicate n 0)"
  by (induction n arbitrary: w) (auto simp: length_Suc_conv)

lemma bytes_less_append: "bytes_less (p @ w) (p @ z) = bytes_less w z"
  by (induction p) auto

lemma be_bytes_inj_value: "length k = 8 \<Longrightarrow> u64_to_be_bytes (u64_from_be_bytes k) = k"
proof -
  assume len: "length k = 8"
  have value_less: "be_value 0 xs < 256 ^ length xs" for xs :: bytes
  proof (induction xs rule: rev_induct)
    case (snoc x xs)
    have "unat x < 256" using unsigned_less [of x] by simp
    with snoc show ?case by simp
  qed simp
  have bytes_value: "be_bytes (length xs) (be_value 0 xs) = xs" for xs :: bytes
  proof (induction xs rule: rev_induct)
    case (snoc x xs)
    have "unat x < 256" using unsigned_less [of x] by simp
    then have "(be_value 0 xs * 256 + unat x) div 256 = be_value 0 xs" by simp
    moreover have "(word_of_nat (be_value 0 xs * 256 + unat x) :: u8) = x"
      unfolding word_unat_eq_iff unat_byte_of_nat using \<open>unat x < 256\<close> by simp
    ultimately show ?case using snoc by simp
  qed simp
  have "be_value 0 k < 2 ^ LENGTH(64)" using value_less [of k] len by simp
  then have "unat (word_of_nat (be_value 0 k) :: u64) = be_value 0 k" by (simp add: unat_of_nat)
  then show ?thesis using bytes_value [of k] len by (simp only: u64_to_be_bytes_def u64_from_be_bytes_def)
qed

lemma vector_key_of:
  assumes "length k = 24"
  shows "k = vector_key (take 16 k) (u64_from_be_bytes (take 8 (drop 16 k)))"
  using assms be_bytes_inj_value [of "drop 16 k"] by (simp add: vector_key_def)

section \<open>Invariant\<close>

definition tenant_active :: "('h, 't) storage_env \<Rightarrow> ('h, 't) db_inner \<Rightarrow> uuid \<Rightarrow> nat option" where
  "tenant_active E st tid =
     (case rd_get (se_redb E) (db_tenants st) tid of
        None \<Rightarrow> None
      | Some v \<Rightarrow> (case se_from_json E v of
          Inl _ \<Rightarrow> None
        | Inr r \<Rightarrow> if tr_status r = ''Deleted'' then None else Some (tr_vector_dimension r)))"

definition disk_vectors :: "('h, 't) storage_env \<Rightarrow> 't \<Rightarrow> uuid \<Rightarrow> i64 \<Rightarrow> vec32 option" where
  "disk_vectors E t tid d = map_option bytes_to_f32s (rd_get (se_redb E) t (vector_key tid d))"

definition storage_abs :: "('h, 't) db_inner \<Rightarrow> storage_spec" where
  "storage_abs st tid = map_option (\<lambda>idx. (ti_dimension idx, index_abs idx)) (hm_get (db_indices st) tid)"

text \<open>What the tables alone mean: this is what a restart reads.\<close>

definition disk_abs :: "('h, 't) storage_env \<Rightarrow> ('h, 't) db_inner \<Rightarrow> storage_spec" where
  "disk_abs E st tid = map_option (\<lambda>n. (n, disk_vectors E (db_vectors st) tid)) (tenant_active E st tid)"

definition tables_ok :: "('h, 't) storage_env \<Rightarrow> ('h, 't) db_inner \<Rightarrow> bool" where
  "tables_ok E st \<longleftrightarrow>
     (\<forall>k v. rd_get (se_redb E) (db_tenants st) k = Some v \<longrightarrow> length k = 16 \<and> (\<exists>r. se_from_json E v = Inr r)) \<and>
     (\<forall>k v. rd_get (se_redb E) (db_vectors st) k = Some v \<longrightarrow> length k = 24 \<and> tenant_active E st (take 16 k) \<noteq> None)"

definition db_ok :: "('h, 't) storage_env \<Rightarrow> ('h, 't) db_inner \<Rightarrow> bool" where
  "db_ok E st \<longleftrightarrow> tables_ok E st \<and> hm_wf (db_indices st) \<and>
     (\<forall>tid idx. hm_get (db_indices st) tid = Some idx \<longrightarrow> index_ok idx) \<and> storage_abs st = disk_abs E st"

lemma db_ok_length: "tables_ok E st \<Longrightarrow> tenant_active E st tid = Some n \<Longrightarrow> length tid = 16"
  by (auto simp: tables_ok_def tenant_active_def split: option.splits)

lemma db_ok_active:
  assumes "db_ok E st"
  shows "hm_get (db_indices st) tid = None \<longleftrightarrow> tenant_active E st tid = None"
proof -
  have "storage_abs st tid = disk_abs E st tid" using assms by (simp add: db_ok_def)
  then show ?thesis by (auto simp: storage_abs_def disk_abs_def)
qed

lemma db_ok_index:
  assumes "db_ok E st" "hm_get (db_indices st) tid = Some idx"
  shows "index_ok idx" "tenant_active E st tid = Some (ti_dimension idx)" "length tid = 16"
    "index_abs idx = disk_vectors E (db_vectors st) tid"
proof -
  show "index_ok idx" using assms by (simp add: db_ok_def)
  have "storage_abs st tid = disk_abs E st tid" using assms(1) by (simp add: db_ok_def)
  then show act: "tenant_active E st tid = Some (ti_dimension idx)" and "index_abs idx = disk_vectors E (db_vectors st) tid"
    using assms(2) by (cases "tenant_active E st tid"; simp add: storage_abs_def disk_abs_def)+
  show "length tid = 16" using db_ok_length act assms(1) by (auto simp: db_ok_def)
qed

section \<open>Tables\<close>

definition env_ok :: "('h, 't) storage_env \<Rightarrow> bool" where
  "env_ok E \<longleftrightarrow> redb_ok (se_redb E) \<and> json_ok E"

lemma redb_map_of: "redb_ok R \<Longrightarrow> map_of (rd_iter R t) k = rd_get R t k"
  using redb_simps(4) [of R k _ t] redb_iter_distinct [of R t]
  by (cases "rd_get R t k") (auto simp: map_of_eq_None_iff)

lemma collect_prefixed_sorted:
  assumes "sorted_wrt (\<lambda>a b. bytes_less (fst a) (fst b)) es" "length tid = 16"
    and "\<And>e. e \<in> set es \<Longrightarrow> length (fst e) = 24 \<and> \<not> bytes_less (fst e) (tid @ z)"
  shows "collect_prefixed tid es = Some (map fst (filter (\<lambda>e. take 16 (fst e) = tid) es))"
  using assms(1,3)
proof (induction es)
  case (Cons e es)
  obtain k v where e: "e = (k, v)" by (cases e)
  show ?case
  proof (cases "take 16 k = tid")
    case True
    moreover have "length k = 24" using Cons.prems(2) [of e] e by simp
    ultimately show ?thesis using Cons e by simp
  next
    case False
    have "take 16 (fst x) \<noteq> tid" if "x \<in> set es" for x
    proof
      assume p: "take 16 (fst x) = tid"
      have "bytes_less k (tid @ drop 16 (fst x))"
        using Cons.prems(1) that e append_take_drop_id [of 16 "fst x"] unfolding p by auto
      moreover have "\<not> bytes_less k (tid @ z)" using Cons.prems(2) [of e] e by simp
      ultimately obtain w where "k = tid @ w" using bytes_less_prefix by blast
      then show False using False assms(2) by simp
    qed
    then have "filter (\<lambda>e. take 16 (fst e) = tid) (e # es) = []" using False e by (simp add: filter_empty_conv)
    then show ?thesis using False e by simp
  qed
qed simp

lemma tenant_keys:
  assumes "redb_ok R" "length tid = 16" "\<And>k v. rd_get R t k = Some v \<Longrightarrow> length k = 24"
  obtains ks where "collect_prefixed tid (rd_range R (tid @ replicate 8 0) t) = Some ks"
    "\<And>k. k \<in> set ks \<longleftrightarrow> rd_get R t k \<noteq> None \<and> take 16 k = tid"
proof -
  let ?es = "rd_range R (tid @ replicate 8 0) t"
  have es: "?es = filter (\<lambda>e. \<not> bytes_less (fst e) (tid @ replicate 8 0)) (rd_iter R t)" using assms(1) by (simp add: redb_ok_def)
  have "sorted_wrt (\<lambda>a b. bytes_less (fst a) (fst b)) ?es"
    unfolding es using assms(1) by (intro sorted_wrt_filter) (simp add: redb_ok_def)
  moreover have "length (fst e) = 24 \<and> \<not> bytes_less (fst e) (tid @ replicate 8 0)" if "e \<in> set ?es" for e
    using that redb_simps(4) [OF assms(1), of "fst e" "snd e" t] assms(3) by (auto simp: es)
  ultimately have "collect_prefixed tid ?es = Some (map fst (filter (\<lambda>e. take 16 (fst e) = tid) ?es))"
    by (intro collect_prefixed_sorted assms(2)) auto
  moreover have "k \<in> set (map fst (filter (\<lambda>e. take 16 (fst e) = tid) ?es)) \<longleftrightarrow> rd_get R t k \<noteq> None \<and> take 16 k = tid" for k
  proof -
    have "\<not> bytes_less k (tid @ replicate 8 0)" if row: "rd_get R t k = Some v" "take 16 k = tid" for v
    proof -
      obtain w where k: "k = tid @ w" using row(2) append_take_drop_id [of 16 k] by metis
      have "length w = 8" using assms(3) [OF row(1)] assms(2) k by simp
      then show ?thesis using bytes_less_zeros [of w 8] by (simp only: k bytes_less_append not_False_eq_True)
    qed
    moreover have "k \<in> fst ` set (rd_iter R t) \<longleftrightarrow> rd_get R t k \<noteq> None"
      using redb_map_of [OF assms(1), of t k] map_of_eq_None_iff [of "rd_iter R t" k] by simp
    ultimately show ?thesis unfolding es by auto
  qed
  ultimately show thesis by (rule that)
qed

lemma rd_get_removes:
  "redb_ok R \<Longrightarrow> rd_get R (foldl (\<lambda>t d. rd_remove R (f d) t) t ds) k = (if k \<in> f ` set ds then None else rd_get R t k)"
  by (induction ds arbitrary: t) (auto simp: redb_simps)

lemma upload_persist_simps [simp]:
  "upload_persist E tid [] t = t"
  "upload_persist E tid ((d, v) # vs) t = upload_persist E tid vs (rd_insert (se_redb E) (vector_key tid d) (f32s_to_bytes v) t)"
  by (simp_all add: upload_persist_def)

lemma disk_vectors_upload:
  assumes "env_ok E" "length tid = 16" "length tid' = 16"
  shows "disk_vectors E (upload_persist E tid vs t) tid' =
    (if tid' = tid then put_all vs (disk_vectors E t tid) else disk_vectors E t tid')"
proof (induction vs arbitrary: t)
  case (Cons x vs)
  obtain d v where x: "x = (d, v)" by (cases x)
  have "redb_ok (se_redb E)" using assms(1) by (simp add: env_ok_def)
  then have step: "disk_vectors E (rd_insert (se_redb E) (vector_key tid d) (f32s_to_bytes v) t) tid' =
      (if tid' = tid then (disk_vectors E t tid)(d \<mapsto> v) else disk_vectors E t tid')"
    if "length tid' = 16" for tid'
    using that by (auto simp: disk_vectors_def redb_simps vector_key_eq assms(2) fun_eq_iff)
  show ?case unfolding x upload_persist_simps Cons.IH put_all.simps
    using step [OF assms(2)] step [OF assms(3)] by (simp only: refl if_True split: if_split) blast
qed simp

lemma rd_get_upload:
  assumes "env_ok E" "rd_get (se_redb E) (upload_persist E tid vs t) k = Some b"
  shows "rd_get (se_redb E) t k \<noteq> None \<or> (\<exists>d. k = vector_key tid d)"
  using assms(2)
proof (induction vs arbitrary: t)
  case (Cons x vs)
  obtain d v where x: "x = (d, v)" by (cases x)
  have R: "redb_ok (se_redb E)" using assms(1) by (simp add: env_ok_def)
  have "rd_get (se_redb E) (rd_insert (se_redb E) (vector_key tid d) (f32s_to_bytes v) t) k \<noteq> None \<or> (\<exists>d. k = vector_key tid d)"
    using Cons.prems by (intro Cons.IH) (simp add: x)
  then show ?case using redb_simps(2) [OF R, of "vector_key tid d" _ t k] by (auto split: if_splits)
qed simp

section \<open>Batches on an index\<close>

lemma upload_index_ok:
  "index_ok idx \<Longrightarrow> \<exists>idx'. upload_index H vs idx = Some idx' \<and> index_ok idx' \<and>
     index_abs idx' = put_all vs (index_abs idx) \<and> ti_dimension idx' = ti_dimension idx"
proof (induction vs arbitrary: idx)
  case (Cons x vs)
  obtain d v where x: "x = (d, v)" by (cases x)
  obtain idx1 where 1: "index_insert H d v idx = Some idx1" "index_ok idx1" "index_abs idx1 = (index_abs idx)(d \<mapsto> v)"
    "ti_dimension idx1 = ti_dimension idx" using index_insert_ok [OF Cons.prems] by blast
  obtain idx2 where "upload_index H vs idx1 = Some idx2" "index_ok idx2"
    "index_abs idx2 = put_all vs ((index_abs idx)(d \<mapsto> v))" "ti_dimension idx2 = ti_dimension idx"
    using Cons.IH [OF 1(2)] unfolding 1(3,4) by blast
  with 1(1) show ?case by (simp add: x)
qed auto

lemma tombstone_all_ok:
  "index_ok idx \<Longrightarrow> \<exists>idx' n'. tombstone_all ids idx n = Some (idx', n') \<and> index_ok idx' \<and>
     index_abs idx' = index_abs idx |` (- set ids) \<and> ti_dimension idx' = ti_dimension idx"
proof (induction ids arbitrary: idx n)
  case (Cons d ids)
  obtain idx1 where 1: "tombstone d idx = Some (idx1, index_abs idx d \<noteq> None)" "index_ok idx1"
    "index_abs idx1 = (index_abs idx)(d := None)" "ti_dimension idx1 = ti_dimension idx" using tombstone_ok [OF Cons.prems] by blast
  have "(index_abs idx)(d := None) |` (- set ids) = index_abs idx |` (- set (d # ids))"
    by (auto simp: restrict_map_def fun_eq_iff)
  moreover obtain idx2 n2 where "tombstone_all ids idx1 (if index_abs idx d \<noteq> None then n + 1 else n) = Some (idx2, n2)" "index_ok idx2"
    "index_abs idx2 = (index_abs idx)(d := None) |` (- set ids)" "ti_dimension idx2 = ti_dimension idx"
    using Cons.IH [OF 1(2)] unfolding 1(3,4) by blast
  ultimately show ?case using 1(1) by (simp only: tombstone_all.simps Option.bind.simps prod.case) blast
qed (simp add: restrict_map_def)

section \<open>Every operation keeps the invariant and implements its specification\<close>

lemma db_okI:
  assumes "tables_ok E st" "hm_wf (db_indices st)" "\<And>tid idx. hm_get (db_indices st) tid = Some idx \<Longrightarrow> index_ok idx"
    and "storage_abs st = disk_abs E st"
  shows "db_ok E st"
  using assms by (simp add: db_ok_def)

lemma tables_okI:
  assumes "\<And>k v. rd_get (se_redb E) (db_tenants st) k = Some v \<Longrightarrow> length k = 16 \<and> (\<exists>r. se_from_json E v = Inr r)"
    and "\<And>k v. rd_get (se_redb E) (db_vectors st) k = Some v \<Longrightarrow> length k = 24 \<and> tenant_active E st (take 16 k) \<noteq> None"
  shows "tables_ok E st"
  using assms by (simp add: tables_ok_def)

lemma tables_okD:
  assumes "tables_ok E st"
  shows "rd_get (se_redb E) (db_tenants st) k = Some v \<Longrightarrow> length k = 16 \<and> (\<exists>r. se_from_json E v = Inr r)"
    "rd_get (se_redb E) (db_vectors st) k = Some v \<Longrightarrow> length k = 24 \<and> tenant_active E st (take 16 k) \<noteq> None"
  using assms by (simp_all add: tables_ok_def)

lemma db_ok_tables: "db_ok E st \<Longrightarrow> tables_ok E st"
  by (simp add: db_ok_def)

lemma no_vectors:
  assumes "tables_ok E st" "tenant_active E st tid = None" "length tid = 16"
  shows "disk_vectors E (db_vectors st) tid = Map.empty"
proof -
  have "rd_get (se_redb E) (db_vectors st) (vector_key tid d) = None" for d
    using tables_okD(2) [OF assms(1), of "vector_key tid d"] assms(2) vector_key_parts(2) [OF assms(3)]
    by (cases "rd_get (se_redb E) (db_vectors st) (vector_key tid d)") auto
  then show ?thesis by (simp add: disk_vectors_def fun_eq_iff)
qed

lemma create_ok:
  assumes E: "env_ok E" and ok: "db_ok E st" and tid: "length tid = 16" "rd_get (se_redb E) (db_tenants st) tid = None"
    and st': "st' = fst (tenant_create E None tid ts pid cap name n st)"
  shows "db_ok E st'" "storage_abs st' = (storage_abs st)(tid \<mapsto> (n, Map.empty))"
    "rd_get (se_redb E) (db_tenants st') k \<noteq> None \<longleftrightarrow> k = tid \<or> rd_get (se_redb E) (db_tenants st) k \<noteq> None"
proof -
  define rec where "rec = \<lparr>tr_peer_id = pid, tr_display_name = name, tr_capacity_limit_mb = cap,
    tr_status = ''Active'', tr_created_at = ts, tr_vector_dimension = n\<rparr>"
  have st': "st' = st\<lparr>db_tenants := rd_insert (se_redb E) tid (se_to_json E rec) (db_tenants st),
    db_indices := hm_insert tid (index_new (se_hnsw E) n) (db_indices st)\<rparr>"
    using st' by (simp add: tenant_create_def rec_def Let_def)
  have R: "redb_ok (se_redb E)" and J: "se_from_json E (se_to_json E rec) = Inr rec"
    using E by (simp_all add: env_ok_def json_ok_def)
  note ten = redb_simps(2) [OF R, of tid "se_to_json E rec" "db_tenants st"]
  have act: "tenant_active E st' = (tenant_active E st)(tid \<mapsto> n)"
    by (simp add: tenant_active_def st' ten J fun_eq_iff) (simp add: rec_def)
  have none: "tenant_active E st tid = None" using tid(2) by (simp add: tenant_active_def)
  note tab = db_ok_tables [OF ok]
  have "tables_ok E st'"
  proof (rule tables_okI)
    show "length k = 16 \<and> (\<exists>r. se_from_json E v = Inr r)" if "rd_get (se_redb E) (db_tenants st') k = Some v" for k v
      using that tables_okD(1) [OF tab, of k v] tid(1) J by (auto simp: st' ten split: if_splits)
    show "length k = 24 \<and> tenant_active E st' (take 16 k) \<noteq> None" if "rd_get (se_redb E) (db_vectors st') k = Some v" for k v
      using that tables_okD(2) [OF tab, of k v] by (simp add: act) (simp add: st')
  qed
  moreover show abs: "storage_abs st' = (storage_abs st)(tid \<mapsto> (n, Map.empty))"
    by (simp add: storage_abs_def st' fun_eq_iff)
  moreover have "disk_abs E st' = (disk_abs E st)(tid \<mapsto> (n, Map.empty))"
    using no_vectors [OF tab none tid(1)] by (simp add: disk_abs_def act fun_eq_iff) (simp add: st')
  ultimately show "db_ok E st'"
    using ok by (intro db_okI) (auto simp: db_ok_def st' split: if_splits)
  show "rd_get (se_redb E) (db_tenants st') k \<noteq> None \<longleftrightarrow> k = tid \<or> rd_get (se_redb E) (db_tenants st) k \<noteq> None"
    by (simp add: st' ten)
qed

text \<open>The effect of a deletion on the table of records and on the indices.\<close>

definition tenant_marked :: "('h, 't) storage_env \<Rightarrow> uuid \<Rightarrow> ('h, 't) db_inner \<Rightarrow> ('h, 't) db_inner \<Rightarrow> bool" where
  "tenant_marked E tid st st' \<longleftrightarrow>
     (\<exists>b rec. rd_get (se_redb E) (db_tenants st) tid = Some b \<and> se_from_json E b = Inr rec \<and>
        rd_get (se_redb E) (db_tenants st') tid = Some (se_to_json E (rec\<lparr>tr_status := ''Deleted''\<rparr>))) \<and>
     (\<forall>k. k \<noteq> tid \<longrightarrow> rd_get (se_redb E) (db_tenants st') k = rd_get (se_redb E) (db_tenants st) k) \<and>
     db_indices st' = hm_remove tid (db_indices st)"

lemma delete_ok:
  assumes E: "env_ok E" and ok: "db_ok E st"
  obtains st' r where "tenant_delete E None tid st = Some (st', r)" "db_ok E st'" "storage_abs st' = (storage_abs st)(tid := None)"
    "\<And>k. rd_get (se_redb E) (db_tenants st') k \<noteq> None \<longleftrightarrow> rd_get (se_redb E) (db_tenants st) k \<noteq> None"
    "r = Inr () \<longleftrightarrow> storage_abs st tid \<noteq> None" "st' = st \<or> r = Inr ()"
    "tenant_active E st' = (tenant_active E st)(tid := None)"
    "\<And>k. rd_get (se_redb E) (db_vectors st') k = (if take 16 k = tid then None else rd_get (se_redb E) (db_vectors st) k)"
    "r = Inr () \<Longrightarrow> tenant_marked E tid st st'"
proof (cases "tenant_active E st tid")
  case None
  note tab = db_ok_tables [OF ok]
  have idx: "storage_abs st tid = None" using db_ok_active [OF ok, of tid] None by (simp add: storage_abs_def)
  then have noop: "(storage_abs st)(tid := None) = storage_abs st" "(tenant_active E st)(tid := None) = tenant_active E st"
    using None by (auto simp: fun_eq_iff)
  obtain e where "tenant_delete E None tid st = Some (st, Inl e)"
    using None tables_okD(1) [OF tab, of tid]
    by (fastforce simp: tenant_delete_def tenant_active_def Let_def split: option.splits sum.splits if_splits)
  moreover have "rd_get (se_redb E) (db_vectors st) k = None" if "take 16 k = tid" for k
    using tables_okD(2) [OF tab, of k] None that by (cases "rd_get (se_redb E) (db_vectors st) k") auto
  ultimately show thesis using that [of st "Inl e"] ok idx noop by auto
next
  case (Some n)
  note tab = db_ok_tables [OF ok]
  have tid: "length tid = 16" using db_ok_length [OF tab Some] .
  have R: "redb_ok (se_redb E)" and J: "json_ok E" using E by (simp_all add: env_ok_def)
  obtain b rec where b: "rd_get (se_redb E) (db_tenants st) tid = Some b" "se_from_json E b = Inr rec" "tr_status rec \<noteq> ''Deleted''"
    using Some by (auto simp: tenant_active_def split: option.splits sum.splits if_splits)
  obtain ks where ks: "collect_prefixed tid (rd_range (se_redb E) (tid @ replicate 8 0) (db_vectors st)) = Some ks"
    and mem: "\<And>k. k \<in> set ks \<longleftrightarrow> rd_get (se_redb E) (db_vectors st) k \<noteq> None \<and> take 16 k = tid"
    using tenant_keys [OF R tid, of "db_vectors st"] tables_okD(2) [OF tab] by metis
  define st' where "st' = st\<lparr>db_tenants := rd_insert (se_redb E) tid (se_to_json E (rec\<lparr>tr_status := ''Deleted''\<rparr>)) (db_tenants st),
    db_vectors := foldl (\<lambda>t k. rd_remove (se_redb E) k t) (db_vectors st) ks, db_indices := hm_remove tid (db_indices st)\<rparr>"
  have run: "tenant_delete E None tid st = Some (st', Inr ())" by (simp add: tenant_delete_def Let_def b ks st'_def)
  note ten = redb_simps(2) [OF R, of tid _ "db_tenants st"]
  have J': "se_from_json E (se_to_json E (rec\<lparr>tr_status := ''Deleted''\<rparr>)) = Inr (rec\<lparr>tr_status := ''Deleted''\<rparr>)"
    using J by (simp only: json_ok_def)
  have act: "tenant_active E st' = (tenant_active E st)(tid := None)"
    by (simp add: tenant_active_def st'_def ten J' fun_eq_iff)
  have vec: "rd_get (se_redb E) (db_vectors st') k = (if take 16 k = tid then None else rd_get (se_redb E) (db_vectors st) k)" for k
    using rd_get_removes [OF R, of "\<lambda>k. k" "db_vectors st" ks k] mem [of k] by (auto simp: st'_def)
  have keys: "rd_get (se_redb E) (db_tenants st') k \<noteq> None \<longleftrightarrow> rd_get (se_redb E) (db_tenants st) k \<noteq> None" for k
    using b(1) by (simp add: st'_def ten)
  have "tables_ok E st'"
  proof (rule tables_okI)
    show "length k = 16 \<and> (\<exists>r. se_from_json E v = Inr r)" if "rd_get (se_redb E) (db_tenants st') k = Some v" for k v
      using that tables_okD(1) [OF tab, of k v] tid J' by (auto simp: st'_def ten split: if_splits)
    show "length k = 24 \<and> tenant_active E st' (take 16 k) \<noteq> None" if "rd_get (se_redb E) (db_vectors st') k = Some v" for k v
      using that tables_okD(2) [OF tab, of k v] by (auto simp: vec act split: if_splits)
  qed
  moreover have abs: "storage_abs st' = (storage_abs st)(tid := None)" by (simp add: storage_abs_def st'_def fun_eq_iff)
  moreover have "disk_abs E st' x = ((disk_abs E st)(tid := None)) x" for x
  proof (cases "x = tid")
    case False
    have "disk_vectors E (db_vectors st') x = disk_vectors E (db_vectors st) x" if "tenant_active E st x = Some m" for m
      using db_ok_length [OF tab that] False by (auto simp: disk_vectors_def vec vector_key_parts fun_eq_iff)
    then show ?thesis using False by (cases "tenant_active E st x") (auto simp: disk_abs_def act)
  qed (simp add: disk_abs_def act)
  then have "disk_abs E st' = (disk_abs E st)(tid := None)" by blast
  ultimately have "db_ok E st'"
    using ok by (intro db_okI) (auto simp: db_ok_def st'_def split: if_splits)
  moreover have "storage_abs st tid \<noteq> None" using Some db_ok_active [OF ok, of tid] by (simp add: storage_abs_def)
  moreover have "tenant_marked E tid st st'"
    using b by (auto simp: tenant_marked_def st'_def ten)
  ultimately show thesis using that [OF run _ abs keys _ _ act vec] by blast
qed

text \<open>Uploads and removals of vectors change the rows and the index of one tenant together.\<close>

lemma vectors_changed_ok:
  assumes ok: "db_ok E st" and idx: "hm_get (db_indices st) tid = Some idx" and new: "index_ok idx'" "ti_dimension idx' = ti_dimension idx"
    and rows: "\<And>k v. rd_get (se_redb E) vecs k = Some v \<Longrightarrow> rd_get (se_redb E) (db_vectors st) k \<noteq> None \<or> (\<exists>d. k = vector_key tid d)"
    and disk: "\<And>tid'. length tid' = 16 \<Longrightarrow> disk_vectors E vecs tid' = (if tid' = tid then index_abs idx' else disk_vectors E (db_vectors st) tid')"
    and st': "st' = st\<lparr>db_vectors := vecs, db_indices := hm_insert tid idx' (db_indices st)\<rparr>"
  shows "db_ok E st'" "storage_abs st' = (storage_abs st)(tid \<mapsto> (ti_dimension idx, index_abs idx'))"
proof -
  note tab = db_ok_tables [OF ok] and old = db_ok_index [OF ok idx]
  have act: "tenant_active E st' = tenant_active E st" by (simp add: tenant_active_def st' fun_eq_iff)
  have "tables_ok E st'"
  proof (rule tables_okI)
    show "length k = 16 \<and> (\<exists>r. se_from_json E v = Inr r)" if "rd_get (se_redb E) (db_tenants st') k = Some v" for k v
      using that tables_okD(1) [OF tab, of k v] by (simp add: st')
    show "length k = 24 \<and> tenant_active E st' (take 16 k) \<noteq> None" if row: "rd_get (se_redb E) (db_vectors st') k = Some v" for k v
    proof -
      have "rd_get (se_redb E) vecs k = Some v" using row by (simp add: st')
      from rows [OF this] show ?thesis
        using tables_okD(2) [OF tab, of k] vector_key_parts [OF old(3)] old(2) by (auto simp: act)
    qed
  qed
  moreover show abs: "storage_abs st' = (storage_abs st)(tid \<mapsto> (ti_dimension idx, index_abs idx'))"
    using new(2) by (simp add: storage_abs_def st' fun_eq_iff)
  moreover have "disk_abs E st' x = ((disk_abs E st)(tid \<mapsto> (ti_dimension idx, index_abs idx'))) x" for x
  proof (cases "tenant_active E st x")
    case None
    then show ?thesis using old(2) by (auto simp: disk_abs_def act)
  next
    case (Some m)
    then have "length x = 16" by (rule db_ok_length [OF tab])
    then show ?thesis using Some old(2) disk [of x] by (auto simp: disk_abs_def act) (simp_all add: st')
  qed
  then have "disk_abs E st' = (disk_abs E st)(tid \<mapsto> (ti_dimension idx, index_abs idx'))" by blast
  ultimately show "db_ok E st'"
    using ok new(1) by (intro db_okI) (auto simp: db_ok_def st' split: if_splits)
qed

lemma on_tenant_id [simp]: "on_tenant tid (\<lambda>m. m |` UNIV) s = s" "on_tenant tid (put_all []) s = s"
  by (auto simp: on_tenant_def fun_eq_iff restrict_map_def split: option.splits)

lemma on_tenant_None: "s tid = None \<Longrightarrow> on_tenant tid f s = s"
  by (simp add: on_tenant_def)

lemma upload_ok:
  assumes E: "env_ok E" and ok: "db_ok E st"
  obtains st' r where "vs_upload E None tid vs st = Some (st', r)" "db_ok E st'" "storage_abs st' = on_tenant tid (put_all vs) (storage_abs st)"
    "db_tenants st' = db_tenants st"
proof (cases "vs = [] \<or> hm_get (db_indices st) tid = None")
  case True
  then have "on_tenant tid (put_all vs) (storage_abs st) = storage_abs st"
    by (auto simp: on_tenant_None storage_abs_def)
  moreover obtain r where "vs_upload E None tid vs st = Some (st, r)" using True by (cases "vs = []") (auto simp: vs_upload_def)
  ultimately show thesis using that ok by simp
next
  case False
  then obtain idx where idx: "hm_get (db_indices st) tid = Some idx" by blast
  note old = db_ok_index [OF ok idx]
  obtain idx' where new: "upload_index (se_hnsw E) vs idx = Some idx'" "index_ok idx'" "index_abs idx' = put_all vs (index_abs idx)"
    "ti_dimension idx' = ti_dimension idx" using upload_index_ok [OF old(1)] by blast
  define st' where "st' = st\<lparr>db_vectors := upload_persist E tid vs (db_vectors st), db_indices := hm_insert tid idx' (db_indices st)\<rparr>"
  have run: "vs_upload E None tid vs st = Some (st', Inr (length vs))" using False idx new(1) by (simp add: vs_upload_def st'_def)
  have "db_ok E st'" "storage_abs st' = (storage_abs st)(tid \<mapsto> (ti_dimension idx, index_abs idx'))"
    by (rule vectors_changed_ok [OF ok idx new(2,4) rd_get_upload [OF E] _ st'_def];
        simp add: disk_vectors_upload [OF E old(3)] new(3) old(4))+
  moreover have "storage_abs st tid = Some (ti_dimension idx, index_abs idx)" using idx by (simp add: storage_abs_def)
  ultimately show thesis using that [OF run] by (simp add: on_tenant_def new(3) st'_def)
qed

lemma disk_vectors_removes:
  assumes "env_ok E" "length tid = 16" "length tid' = 16"
  shows "disk_vectors E (foldl (\<lambda>t d. rd_remove (se_redb E) (vector_key tid d) t) t ids) tid' =
    (if tid' = tid then disk_vectors E t tid |` (- set ids) else disk_vectors E t tid')"
proof -
  have R: "redb_ok (se_redb E)" using assms(1) by (simp add: env_ok_def)
  have "vector_key tid' d \<in> vector_key tid ` set ids \<longleftrightarrow> tid' = tid \<and> d \<in> set ids" for d
    using vector_key_eq [OF assms(3,2)] by auto
  then show ?thesis by (auto simp: disk_vectors_def rd_get_removes [OF R] restrict_map_def fun_eq_iff)
qed

lemma remove_ok:
  assumes E: "env_ok E" and ok: "db_ok E st"
  obtains st' r where "vs_delete E None tid ids st = Some (st', r)" "db_ok E st'"
    "storage_abs st' = on_tenant tid (\<lambda>m. m |` (- set ids)) (storage_abs st)" "db_tenants st' = db_tenants st"
proof (cases "ids = [] \<or> hm_get (db_indices st) tid = None")
  case True
  then have "on_tenant tid (\<lambda>m. m |` (- set ids)) (storage_abs st) = storage_abs st"
    by (auto simp: on_tenant_None storage_abs_def)
  moreover obtain r where "vs_delete E None tid ids st = Some (st, r)" using True by (cases "ids = []") (auto simp: vs_delete_def)
  ultimately show thesis using that ok by simp
next
  case False
  then obtain idx where idx: "hm_get (db_indices st) tid = Some idx" by blast
  note old = db_ok_index [OF ok idx]
  obtain idx' n where new: "tombstone_all ids idx 0 = Some (idx', n)" "index_ok idx'" "index_abs idx' = index_abs idx |` (- set ids)"
    "ti_dimension idx' = ti_dimension idx" using tombstone_all_ok [OF old(1)] by blast
  define vecs where "vecs = foldl (\<lambda>t d. rd_remove (se_redb E) (vector_key tid d) t) (db_vectors st) ids"
  define st' where "st' = st\<lparr>db_vectors := vecs, db_indices := hm_insert tid idx' (db_indices st)\<rparr>"
  have run: "vs_delete E None tid ids st = Some (st', Inr n)" using False idx new(1) by (simp add: vs_delete_def st'_def vecs_def)
  have R: "redb_ok (se_redb E)" using E by (simp add: env_ok_def)
  have rows: "rd_get (se_redb E) vecs k = Some v \<Longrightarrow> rd_get (se_redb E) (db_vectors st) k \<noteq> None \<or> (\<exists>d. k = vector_key tid d)" for k v
    by (simp add: vecs_def rd_get_removes [OF R] split: if_splits)
  have "db_ok E st'" "storage_abs st' = (storage_abs st)(tid \<mapsto> (ti_dimension idx, index_abs idx'))"
    by (rule vectors_changed_ok [OF ok idx new(2,4) rows _ st'_def];
        simp add: vecs_def disk_vectors_removes [OF E old(3)] new(3) old(4))+
  moreover have "storage_abs st tid = Some (ti_dimension idx, index_abs idx)" using idx by (simp add: storage_abs_def)
  ultimately show thesis using that [OF run] by (simp add: on_tenant_def new(3) st'_def)
qed

section \<open>Opening the store\<close>

definition record_dim :: "('h, 't) storage_env \<Rightarrow> bytes \<Rightarrow> nat option" where
  "record_dim E v = (case se_from_json E v of
     Inl _ \<Rightarrow> None | Inr r \<Rightarrow> if tr_status r = ''Deleted'' then None else Some (tr_vector_dimension r))"

lemma tenant_active_record: "tenant_active E st tid = Option.bind (rd_get (se_redb E) (db_tenants st) tid) (record_dim E)"
  by (simp add: tenant_active_def record_dim_def split: option.split)

lemma collect_dims_ok:
  assumes "\<And>k v. (k, v) \<in> set es \<Longrightarrow> length k = 16 \<and> (\<exists>r. se_from_json E v = Inr r)" "distinct (map fst es)" "hm_wf dims"
    and "\<And>k. k \<in> fst ` set es \<Longrightarrow> hm_get dims k = None"
  shows "\<exists>dims'. collect_dims E es dims = Inr dims' \<and> hm_wf dims' \<and>
    (\<forall>tid. hm_get dims' tid = (case map_of es tid of None \<Rightarrow> hm_get dims tid | Some v \<Rightarrow> record_dim E v))"
  using assms
proof (induction es arbitrary: dims)
  case (Cons e es)
  obtain k v where e: "e = (k, v)" by (cases e)
  obtain r where k: "length k = 16" and r: "se_from_json E v = Inr r" using Cons.prems(1) [of k v] e by auto
  define dims1 where "dims1 = (if tr_status r \<noteq> ''Deleted'' then hm_insert k (tr_vector_dimension r) dims else dims)"
  have fresh: "k \<notin> fst ` set es" "hm_get dims k = None" using Cons.prems(2) Cons.prems(4) [of k] e by auto
  have get1: "hm_get dims1 tid = (if tid = k then record_dim E v else hm_get dims tid)" for tid
    using fresh(2) by (simp add: dims1_def record_dim_def r)
  have "\<exists>dims'. collect_dims E es dims1 = Inr dims' \<and> hm_wf dims' \<and>
      (\<forall>tid. hm_get dims' tid = (case map_of es tid of None \<Rightarrow> hm_get dims1 tid | Some v \<Rightarrow> record_dim E v))"
  proof (rule Cons.IH)
    show "hm_wf dims1" using Cons.prems(3) by (simp add: dims1_def)
    show "hm_get dims1 k' = None" if "k' \<in> fst ` set es" for k'
      using that fresh(1) Cons.prems(4) [of k'] by (auto simp: get1)
  qed (use Cons.prems(1,2) in auto)
  then obtain dims' where d: "collect_dims E es dims1 = Inr dims'" "hm_wf dims'"
    "\<And>tid. hm_get dims' tid = (case map_of es tid of None \<Rightarrow> hm_get dims1 tid | Some v \<Rightarrow> record_dim E v)" by blast
  have "map_of es k = None" using fresh(1) by (simp add: map_of_eq_None_iff)
  then have "hm_get dims' tid = (case map_of (e # es) tid of None \<Rightarrow> hm_get dims tid | Some v \<Rightarrow> record_dim E v)" for tid
    using d(3) [of tid] by (auto simp: e get1 split: option.split)
  moreover have "collect_dims E (e # es) dims = Inr dims'" using d(1) by (simp add: e uuid_from_slice_def k r dims1_def)
  ultimately show ?case using d(2) by blast
qed auto

text \<open>Loading rows: what each index holds afterwards.\<close>

definition with_rows :: "(bytes \<times> bytes) list \<Rightarrow> uuid \<Rightarrow> (i64 \<Rightarrow> vec32 option) \<Rightarrow> (i64 \<Rightarrow> vec32 option)" where
  "with_rows es tid m d = (case map_of es (vector_key tid d) of Some b \<Rightarrow> Some (bytes_to_f32s b) | None \<Rightarrow> m d)"

definition loaded :: "(bytes \<times> bytes) list \<Rightarrow> (uuid, 'h tenant_index) hashmap \<Rightarrow> (uuid, 'h tenant_index) hashmap \<Rightarrow> bool" where
  "loaded es a b \<longleftrightarrow> hm_wf b \<and> (\<forall>tid. hm_get b tid = None \<longleftrightarrow> hm_get a tid = None) \<and>
     (\<forall>tid idx idx'. hm_get a tid = Some idx \<longrightarrow> hm_get b tid = Some idx' \<longrightarrow>
        index_ok idx' \<and> ti_dimension idx' = ti_dimension idx \<and> index_abs idx' = with_rows es tid (index_abs idx))"

lemma loadedD:
  assumes "loaded es a b"
  shows "hm_wf b"
    "hm_get a tid = Some i \<Longrightarrow> hm_get b tid = Some i' \<Longrightarrow>
       index_ok i' \<and> ti_dimension i' = ti_dimension i \<and> index_abs i' = with_rows es tid (index_abs i)"
    "hm_get b tid = None \<longleftrightarrow> hm_get a tid = None"
  using assms unfolding loaded_def by blast+

lemma with_rows_other:
  "length tid = 16 \<Longrightarrow> length x = 16 \<Longrightarrow> x \<noteq> tid \<Longrightarrow> with_rows ((vector_key tid doc, v) # es) x m = with_rows es x m"
  by (auto simp: with_rows_def fun_eq_iff vector_key_eq)

lemma with_rows_here:
  "length tid = 16 \<Longrightarrow> map_of es (vector_key tid doc) = None \<Longrightarrow>
   with_rows ((vector_key tid doc, v) # es) tid m = with_rows es tid (m(doc \<mapsto> bytes_to_f32s v))"
  by (auto simp: with_rows_def fun_eq_iff vector_key_eq split: option.split)

lemma load_vectors_ok:
  assumes "\<And>k v. (k, v) \<in> set es \<Longrightarrow> length k = 24" "distinct (map fst es)" "hm_wf indices"
    and "\<And>tid idx. hm_get indices tid = Some idx \<Longrightarrow> index_ok idx \<and> length tid = 16"
  shows "\<exists>indices'. load_vectors E es indices = Some indices' \<and> loaded es indices indices'"
  using assms
proof (induction es arbitrary: indices)
  case Nil
  then show ?case by (auto simp: loaded_def with_rows_def)
next
  case (Cons e es)
  obtain k v where e: "e = (k, v)" by (cases e)
  define tid where "tid = take 16 k"
  define doc where "doc = u64_from_be_bytes (take 8 (drop 16 k))"
  have k: "length k = 24" using Cons.prems(1) [of k v] e by simp
  have key: "k = vector_key tid doc" using vector_key_of [OF k] by (simp only: tid_def doc_def)
  have tid: "length tid = 16" using k by (simp add: tid_def)
  have fresh: "map_of es (vector_key tid doc) = None" using Cons.prems(2) e key by (simp add: map_of_eq_None_iff)
  have es: "\<And>k v. (k, v) \<in> set es \<Longrightarrow> length k = 24" "distinct (map fst es)" using Cons.prems(1,2) by auto
  show ?case
  proof (cases "hm_get indices tid")
    case None
    have run: "load_vectors E (e # es) indices = load_vectors E es indices"
      using k None by (simp add: e tid_def [symmetric])
    have "\<exists>indices'. load_vectors E es indices = Some indices' \<and> loaded es indices indices'"
      by (rule Cons.IH) (use es Cons.prems(3,4) in auto)
    then obtain indices' where l: "load_vectors E es indices = Some indices'" "loaded es indices indices'" by blast
    have "with_rows (e # es) x (index_abs idx) = with_rows es x (index_abs idx)" if "hm_get indices x = Some idx" for x idx
      unfolding e key by (rule with_rows_other [OF tid]) (use Cons.prems(4) [OF that] that None in auto)
    then have "loaded (e # es) indices indices'" using l(2) unfolding loaded_def by simp
    then show ?thesis using run l(1) by simp
  next
    case (Some idx)
    obtain idx1 where i: "index_insert (se_hnsw E) doc (bytes_to_f32s v) idx = Some idx1" "index_ok idx1"
      "index_abs idx1 = (index_abs idx)(doc \<mapsto> bytes_to_f32s v)" "ti_dimension idx1 = ti_dimension idx"
      using index_insert_ok [of idx] Cons.prems(4) [OF Some] by blast
    have run: "load_vectors E (e # es) indices = load_vectors E es (hm_insert tid idx1 indices)"
      by (simp only: e load_vectors.simps Let_def tid_def [symmetric] doc_def [symmetric] Some option.case i(1) Option.bind.simps k) simp
    have "\<exists>indices'. load_vectors E es (hm_insert tid idx1 indices) = Some indices' \<and> loaded es (hm_insert tid idx1 indices) indices'"
      by (rule Cons.IH) (use es Cons.prems(3,4) i(2) tid in \<open>auto split: if_splits\<close>)
    then obtain indices' where l: "load_vectors E es (hm_insert tid idx1 indices) = Some indices'"
      "loaded es (hm_insert tid idx1 indices) indices'" by blast
    have "index_ok idx'' \<and> ti_dimension idx'' = ti_dimension idx0 \<and> index_abs idx'' = with_rows (e # es) x (index_abs idx0)"
      if a: "hm_get indices x = Some idx0" "hm_get indices' x = Some idx''" for x idx0 idx''
    proof (cases "x = tid")
      case True
      have "hm_get (hm_insert tid idx1 indices) x = Some idx1" using True by simp
      from loadedD(2) [OF l(2) this a(2)] have "index_ok idx'' \<and> ti_dimension idx'' = ti_dimension idx1 \<and> index_abs idx'' = with_rows es x (index_abs idx1)" .
      moreover have "idx0 = idx" using True a(1) Some by simp
      ultimately show ?thesis using with_rows_here [OF tid fresh, of v "index_abs idx"] unfolding True i(3,4) e key by simp
    next
      case False
      have "hm_get (hm_insert tid idx1 indices) x = Some idx0" using False a(1) by simp
      from loadedD(2) [OF l(2) this a(2)] have "index_ok idx'' \<and> ti_dimension idx'' = ti_dimension idx0 \<and> index_abs idx'' = with_rows es x (index_abs idx0)" .
      then show ?thesis using with_rows_other [OF tid _ False, of doc v es "index_abs idx0"] Cons.prems(4) [OF a(1)] unfolding e key by simp
    qed
    moreover have "hm_get indices' x = None \<longleftrightarrow> hm_get indices x = None" for x
      using loadedD(3) [OF l(2), of x] Some by (cases "x = tid") simp_all
    ultimately have "loaded (e # es) indices indices'" using loadedD(1) [OF l(2)] unfolding loaded_def by blast
    then show ?thesis using run l(1) by simp
  qed
qed

lemma open_tables:
  assumes E: "env_ok E" and tab: "tables_ok E st"
  obtains st' where "storage_open E None (db_tenants st) (db_vectors st) = Some (Inr st')" "db_ok E st'"
    "storage_abs st' = disk_abs E st" "db_tenants st' = db_tenants st" "db_vectors st' = db_vectors st"
proof -
  have R: "redb_ok (se_redb E)" using E by (simp add: env_ok_def)
  let ?ts = "rd_iter (se_redb E) (db_tenants st)" and ?vs = "rd_iter (se_redb E) (db_vectors st)"
  have ts: "(k, v) \<in> set ?ts \<Longrightarrow> length k = 16 \<and> (\<exists>r. se_from_json E v = Inr r)" for k v
    using tables_okD(1) [OF tab] unfolding redb_simps(4) [OF R] .
  have vs: "(k, v) \<in> set ?vs \<Longrightarrow> length k = 24" for k v
    using tables_okD(2) [OF tab, of k v] unfolding redb_simps(4) [OF R] by blast
  have "\<exists>dims'. collect_dims E ?ts [] = Inr dims' \<and> hm_wf dims' \<and>
      (\<forall>tid. hm_get dims' tid = (case map_of ?ts tid of None \<Rightarrow> hm_get [] tid | Some v \<Rightarrow> record_dim E v))"
    by (rule collect_dims_ok [OF ts redb_iter_distinct [OF R]]) simp_all
  moreover have "(case map_of ?ts tid of None \<Rightarrow> hm_get [] tid | Some v \<Rightarrow> record_dim E v) = tenant_active E st tid" for tid
    by (simp add: redb_map_of [OF R] tenant_active_record split: option.split)
  ultimately obtain dims where d: "collect_dims E ?ts [] = Inr dims" "hm_wf dims" "\<And>tid. hm_get dims tid = tenant_active E st tid"
    by (simp only:) blast
  define a where "a = map (\<lambda>(tid, n). (tid, index_new (se_hnsw E) n)) dims"
  have get_a: "hm_get a tid = map_option (index_new (se_hnsw E)) (tenant_active E st tid)" for tid
    using d(3) [of tid] by (simp add: a_def hm_get_def map_of_map)
  have wf_a: "hm_wf a" using d(2) by (simp add: a_def hm_wf_def comp_def case_prod_beta)
  have ia: "index_ok i \<and> length tid = 16" if new: "hm_get a tid = Some i" for tid i
  proof -
    obtain n where "tenant_active E st tid = Some n" "i = index_new (se_hnsw E) n" using new get_a [of tid] by auto
    then show ?thesis using db_ok_length [OF tab] by simp
  qed
  have "\<exists>b. load_vectors E ?vs a = Some b \<and> loaded ?vs a b"
    by (rule load_vectors_ok [OF vs redb_iter_distinct [OF R] wf_a ia])
  then obtain b where b: "load_vectors E ?vs a = Some b" "loaded ?vs a b" by blast
  define st' where "st' = \<lparr>db_tenants = db_tenants st, db_vectors = db_vectors st, db_indices = b\<rparr>"
  have run: "storage_open E None (db_tenants st) (db_vectors st) = Some (Inr st')"
    by (simp add: storage_open_def rebuild_indices_def d(1) b(1) a_def [symmetric] st'_def)
  have rows: "with_rows ?vs tid Map.empty = disk_vectors E (db_vectors st) tid" for tid
    by (auto simp: with_rows_def disk_vectors_def redb_map_of [OF R] fun_eq_iff split: option.split)
  have disk: "disk_abs E st' = disk_abs E st" "tables_ok E st'"
    using tab by (simp_all add: disk_abs_def tables_ok_def tenant_active_def st'_def fun_eq_iff)
  have none: "hm_get b tid = None \<longleftrightarrow> tenant_active E st tid = None" for tid
    using loadedD(3) [OF b(2), of tid] get_a [of tid] by simp
  have idx: "index_ok i \<and> tenant_active E st tid = Some (ti_dimension i) \<and> index_abs i = disk_vectors E (db_vectors st) tid"
    if got: "hm_get b tid = Some i" for tid i
  proof -
    have "tenant_active E st tid \<noteq> None" using none [of tid] got by simp
    then obtain n where n: "tenant_active E st tid = Some n" by blast
    then have "hm_get a tid = Some (index_new (se_hnsw E) n)" by (simp add: get_a)
    from loadedD(2) [OF b(2) this got] show ?thesis using n rows [of tid] by simp
  qed
  have abs: "storage_abs st' = disk_abs E st"
  proof
    fix tid
    show "storage_abs st' tid = disk_abs E st tid"
      using idx [of tid] none [of tid] by (cases "hm_get b tid") (simp_all add: storage_abs_def disk_abs_def st'_def)
  qed
  have "db_ok E st'"
  proof (rule db_okI)
    show "index_ok i" if got: "hm_get (db_indices st') tid = Some i" for tid i using idx [of tid i] got by (simp add: st'_def)
  qed (use abs disk loadedD(1) [OF b(2)] in \<open>simp_all add: st'_def\<close>)
  then show thesis using that [OF run _ abs] by (simp add: st'_def)
qed

section \<open>Histories\<close>

lemma step_ok:
  assumes E: "env_ok E" and ok: "db_ok E st"
    and new: "\<And>tid. created_id op = Some tid \<Longrightarrow> length tid = 16 \<and> rd_get (se_redb E) (db_tenants st) tid = None"
  shows "\<exists>st'. storage_step E op st = Some st' \<and> db_ok E st' \<and> storage_abs st' = spec_step op (storage_abs st) \<and>
    (\<forall>k. rd_get (se_redb E) (db_tenants st') k \<noteq> None \<longrightarrow> created_id op = Some k \<or> rd_get (se_redb E) (db_tenants st) k \<noteq> None)"
proof (cases op)
  case (OpCreate fail tid ts pid cap name n)
  show ?thesis
  proof (cases fail)
    case None
    then show ?thesis
      using create_ok [OF E ok, of tid _ ts pid cap name n] new [of tid] OpCreate by auto
  qed (use OpCreate ok in \<open>simp add: tenant_create_def\<close>)
next
  case (OpDelete fail tid)
  show ?thesis
  proof (cases fail)
    case None
    obtain st' r where "tenant_delete E None tid st = Some (st', r)" "db_ok E st'" "storage_abs st' = (storage_abs st)(tid := None)"
      "\<And>k. rd_get (se_redb E) (db_tenants st') k \<noteq> None \<longleftrightarrow> rd_get (se_redb E) (db_tenants st) k \<noteq> None"
      using delete_ok [OF E ok, of tid] by metis
    then show ?thesis using None OpDelete by auto
  qed (use OpDelete ok in \<open>simp add: tenant_delete_def Let_def\<close>)
next
  case (OpUpload fail tid vs)
  show ?thesis
  proof (cases fail)
    case None
    obtain st' r where "vs_upload E None tid vs st = Some (st', r)" "db_ok E st'" "storage_abs st' = on_tenant tid (put_all vs) (storage_abs st)"
      "db_tenants st' = db_tenants st" by (rule upload_ok [OF E ok])
    then show ?thesis using None OpUpload by auto
  qed (use OpUpload ok in \<open>simp add: vs_upload_def split: option.split\<close>)
next
  case (OpRemove fail tid ids)
  show ?thesis
  proof (cases fail)
    case None
    obtain st' r where "vs_delete E None tid ids st = Some (st', r)" "db_ok E st'"
      "storage_abs st' = on_tenant tid (\<lambda>m. m |` (- set ids)) (storage_abs st)" "db_tenants st' = db_tenants st" by (rule remove_ok [OF E ok])
    then show ?thesis using None OpRemove by auto
  qed (use OpRemove ok in \<open>simp add: vs_delete_def split: option.split\<close>)
next
  case (OpReopen fail)
  show ?thesis
  proof (cases fail)
    case None
    obtain st' where "storage_open E None (db_tenants st) (db_vectors st) = Some (Inr st')" "db_ok E st'"
      "storage_abs st' = disk_abs E st" "db_tenants st' = db_tenants st" by (rule open_tables [OF E db_ok_tables [OF ok]])
    then show ?thesis using None OpReopen ok by (simp add: db_ok_def)
  qed (use OpReopen ok in \<open>simp add: storage_open_def\<close>)
qed

definition empty_db :: "('h, 't) storage_env \<Rightarrow> ('h, 't) db_inner" where
  "empty_db E = \<lparr>db_tenants = rd_empty (se_redb E), db_vectors = rd_empty (se_redb E), db_indices = []\<rparr>"

lemma empty_db_ok:
  assumes "env_ok E"
  shows "db_ok E (empty_db E)" "storage_abs (empty_db E) = Map.empty" "rd_get (se_redb E) (db_tenants (empty_db E)) k = None"
proof -
  have none: "rd_get (se_redb E) (rd_empty (se_redb E)) k = None" for k
    using assms redb_simps(1) by (auto simp: env_ok_def)
  then show "db_ok E (empty_db E)"
    by (auto simp: db_ok_def tables_ok_def empty_db_def storage_abs_def disk_abs_def tenant_active_def fun_eq_iff)
  show "storage_abs (empty_db E) = Map.empty" "rd_get (se_redb E) (db_tenants (empty_db E)) k = None"
    using none by (simp_all add: empty_db_def storage_abs_def fun_eq_iff)
qed

lemma run_ok:
  assumes E: "env_ok E"
  shows "db_ok E st \<Longrightarrow> fresh_ids ops \<Longrightarrow>
    (\<And>k. k \<in> set (List.map_filter created_id ops) \<Longrightarrow> rd_get (se_redb E) (db_tenants st) k = None) \<Longrightarrow>
    \<exists>st'. storage_run E ops st = Some st' \<and> db_ok E st' \<and> storage_abs st' = spec_run ops (storage_abs st)"
proof (induction ops arbitrary: st)
  case Nil
  then show ?case by (simp add: spec_run_def)
next
  case (Cons op ops)
  have "\<exists>st'. storage_step E op st = Some st' \<and> db_ok E st' \<and> storage_abs st' = spec_step op (storage_abs st) \<and>
    (\<forall>k. rd_get (se_redb E) (db_tenants st') k \<noteq> None \<longrightarrow> created_id op = Some k \<or> rd_get (se_redb E) (db_tenants st) k \<noteq> None)"
    by (rule step_ok [OF E Cons.prems(1)]) (use Cons.prems(2,3) in \<open>auto simp: fresh_ids_def List.map_filter_simps\<close>)
  then obtain st' where s: "storage_step E op st = Some st'" "db_ok E st'" "storage_abs st' = spec_step op (storage_abs st)"
    "\<And>k. rd_get (se_redb E) (db_tenants st') k \<noteq> None \<Longrightarrow> created_id op = Some k \<or> rd_get (se_redb E) (db_tenants st) k \<noteq> None" by blast
  have "fresh_ids ops" using Cons.prems(2) by (auto simp: fresh_ids_def List.map_filter_simps split: option.splits)
  moreover have "rd_get (se_redb E) (db_tenants st') k = None" if "k \<in> set (List.map_filter created_id ops)" for k
  proof -
    have "created_id op \<noteq> Some k" "rd_get (se_redb E) (db_tenants st) k = None"
      using Cons.prems(2) Cons.prems(3) [of k] that by (auto simp: fresh_ids_def List.map_filter_simps split: option.splits)
    then show ?thesis using s(4) [of k] by blast
  qed
  ultimately obtain st'' where "storage_run E ops st' = Some st''" "db_ok E st''" "storage_abs st'' = spec_run ops (storage_abs st')"
    using Cons.IH [OF s(2)] by blast
  then show ?case using s(1,3) by (simp add: spec_run_def)
qed

section \<open>Properties\<close>

text \<open>
  C3: The storage service refines its specification. Every history of creations, deletions, uploads,
  removals and restarts, with any database errors, runs without a panic and ends in a state that
  means what the specification says; a restart at that point gives a state with the same meaning.
\<close>

theorem storage_refines_spec:
  assumes "env_ok E" "fresh_ids ops"
  shows "\<exists>st st'. storage_run E ops (empty_db E) = Some st \<and> storage_abs st = spec_run ops Map.empty \<and>
    storage_open E None (db_tenants st) (db_vectors st) = Some (Inr st') \<and> storage_abs st' = storage_abs st"
proof -
  note e = empty_db_ok [OF assms(1)]
  obtain st where st: "storage_run E ops (empty_db E) = Some st" "db_ok E st" "storage_abs st = spec_run ops Map.empty"
    using run_ok [OF assms(1) e(1) assms(2)] e(2,3) by auto
  obtain st' where "storage_open E None (db_tenants st) (db_vectors st) = Some (Inr st')" "storage_abs st' = disk_abs E st"
    by (rule open_tables [OF assms(1) db_ok_tables [OF st(2)]])
  then show ?thesis using st by (auto simp: db_ok_def)
qed

text \<open>
  C15: Deleting a tenant. In every state that a history reaches, deleting an active tenant succeeds. The
  deletion is soft for the record and hard for the data: the record of the tenant stays in the
  table, marked as deleted and otherwise unchanged, so that the tenant is not found any more; no row of
  the vector table has its prefix, and its index is gone. The record, the rows and the index of every
  other tenant are as before.
\<close>

theorem tenant_delete_erases:
  assumes "env_ok E" "fresh_ids ops" "storage_run E ops (empty_db E) = Some st" "storage_abs st tid \<noteq> None"
  shows "\<exists>st'. tenant_delete E None tid st = Some (st', Inr ()) \<and> tenant_get E None tid st' = Inr None \<and> storage_abs st' tid = None \<and>
    (\<exists>b rec. rd_get (se_redb E) (db_tenants st) tid = Some b \<and> se_from_json E b = Inr rec \<and>
       rd_get (se_redb E) (db_tenants st') tid = Some (se_to_json E (rec\<lparr>tr_status := ''Deleted''\<rparr>))) \<and>
    (\<forall>k. k \<noteq> tid \<longrightarrow> rd_get (se_redb E) (db_tenants st') k = rd_get (se_redb E) (db_tenants st) k) \<and>
    hm_get (db_indices st') tid = None \<and> (\<forall>x. x \<noteq> tid \<longrightarrow> hm_get (db_indices st') x = hm_get (db_indices st) x) \<and>
    (\<forall>k. take 16 k = tid \<longrightarrow> rd_get (se_redb E) (db_vectors st') k = None) \<and>
    (\<forall>k. take 16 k \<noteq> tid \<longrightarrow> rd_get (se_redb E) (db_vectors st') k = rd_get (se_redb E) (db_vectors st) k) \<and>
    (\<forall>x. x \<noteq> tid \<longrightarrow> storage_abs st' x = storage_abs st x)"
proof -
  have ok: "db_ok E st"
    using run_ok [OF assms(1) empty_db_ok(1) [OF assms(1)] assms(2)] empty_db_ok(3) [OF assms(1)] assms(3) by auto
  obtain st' r where d: "tenant_delete E None tid st = Some (st', r)" "db_ok E st'" "storage_abs st' = (storage_abs st)(tid := None)"
    "r = Inr () \<longleftrightarrow> storage_abs st tid \<noteq> None" "tenant_active E st' = (tenant_active E st)(tid := None)"
    "\<And>k. rd_get (se_redb E) (db_vectors st') k = (if take 16 k = tid then None else rd_get (se_redb E) (db_vectors st) k)"
    "r = Inr () \<Longrightarrow> tenant_marked E tid st st'"
    using delete_ok [OF assms(1) ok, of tid] by metis
  have "tenant_active E st' tid = None" using d(5) by simp
  then have "tenant_get E None tid st' = Inr None"
    using tables_okD(1) [OF db_ok_tables [OF d(2)], of tid]
    by (auto simp: tenant_get_def tenant_active_def split: option.splits sum.splits if_splits)
  then show ?thesis using d(1,3,4,6,7) assms(4) by (auto simp: tenant_marked_def)
qed

text \<open>Two uploads for a tenant whose transactions commit in one order and whose index updates run in
  the other: nothing holds a lock from the one to the other.\<close>

definition interleaved_uploads ::
  "('h, 't) storage_env \<Rightarrow> uuid \<Rightarrow> (i64 \<times> vec32) list \<Rightarrow> (i64 \<times> vec32) list \<Rightarrow> ('h, 't) db_inner \<Rightarrow> ('h, 't) db_inner option" where
  "interleaved_uploads E tid a b st =
     (case hm_get (db_indices st) tid of
        None \<Rightarrow> None
      | Some idx \<Rightarrow> map_option (\<lambda>idx.
          st\<lparr>db_vectors := upload_persist E tid b (upload_persist E tid a (db_vectors st)),
             db_indices := hm_insert tid idx (db_indices st)\<rparr>)
          (Option.bind (upload_index (se_hnsw E) b idx) (upload_index (se_hnsw E) a)))"

text \<open>
  C32: Concurrent uploads can leave the index and the table different. When two uploads write
  different vectors for one document, commit in one order and update the index in the other, a
  search sees the vector of the first until the store is opened again, and that of the second
  afterwards.
\<close>

theorem concurrent_uploads_diverge:
  assumes E: "env_ok E" and ok: "db_ok E st" and act: "storage_abs st tid = Some (n, m)"
    and st': "interleaved_uploads E tid [(d, a)] [(d, b)] st = Some st'"
  shows "storage_abs st' tid = Some (n, m(d \<mapsto> a)) \<and>
    (\<exists>st''. storage_open E None (db_tenants st') (db_vectors st') = Some (Inr st'') \<and> storage_abs st'' tid = Some (n, m(d \<mapsto> b)))"
proof -
  obtain idx where idx: "hm_get (db_indices st) tid = Some idx" "ti_dimension idx = n" "index_abs idx = m"
    using act by (auto simp: storage_abs_def)
  note old = db_ok_index [OF ok idx(1)] and tab = db_ok_tables [OF ok]
  obtain i1 where 1: "upload_index (se_hnsw E) [(d, b)] idx = Some i1" "index_ok i1" "index_abs i1 = put_all [(d, b)] (index_abs idx)"
    "ti_dimension i1 = ti_dimension idx" using upload_index_ok [OF old(1)] by blast
  obtain i2 where 2: "upload_index (se_hnsw E) [(d, a)] i1 = Some i2" "index_abs i2 = put_all [(d, a)] (index_abs i1)"
    "ti_dimension i2 = ti_dimension i1" using upload_index_ok [OF 1(2)] by blast
  define vecs where "vecs = upload_persist E tid [(d, b)] (upload_persist E tid [(d, a)] (db_vectors st))"
  have st': "st' = st\<lparr>db_vectors := vecs, db_indices := hm_insert tid i2 (db_indices st)\<rparr>"
    using st' idx(1) 1(1) 2(1) by (simp only: interleaved_uploads_def option.case Option.bind.simps option.map vecs_def) simp
  have "index_abs i2 = m(d \<mapsto> a)" by (simp add: 2(2) 1(3) idx(3))
  then have now: "storage_abs st' tid = Some (n, m(d \<mapsto> a))" using 1(4) 2(3) idx(2) by (simp add: storage_abs_def st')
  have act': "tenant_active E st' = tenant_active E st" by (simp add: tenant_active_def st' fun_eq_iff)
  have row: "length k = 24 \<and> tenant_active E st' (take 16 k) \<noteq> None" if "rd_get (se_redb E) vecs k = Some v" for k v
  proof -
    have "rd_get (se_redb E) (db_vectors st) k \<noteq> None \<or> (\<exists>d. k = vector_key tid d)"
      using rd_get_upload [OF E that [unfolded vecs_def]] rd_get_upload [OF E, of tid "[(d, a)]" "db_vectors st" k] by blast
    then show ?thesis using tables_okD(2) [OF tab, of k] vector_key_parts [OF old(3)] old(2) by (auto simp: act')
  qed
  have "tables_ok E st'"
    by (rule tables_okI) (use row tables_okD(1) [OF tab] in \<open>auto simp: st'\<close>)
  then obtain st'' where o: "storage_open E None (db_tenants st') (db_vectors st') = Some (Inr st'')" "storage_abs st'' = disk_abs E st'"
    by (rule open_tables [OF E])
  have "disk_vectors E vecs tid = m(d \<mapsto> b)"
    unfolding vecs_def disk_vectors_upload [OF E old(3) old(3)] using old(4) idx(3) by simp
  then have "disk_abs E st' tid = Some (n, m(d \<mapsto> b))" using old(2) idx(2) by (simp add: disk_abs_def act') (simp add: st')
  then show ?thesis using now o by auto
qed

section \<open>An instance of the parameters\<close>

text \<open>A table as an association list whose iteration sorts it; records as sequences of numbers in
  unary.\<close>

fun put_sorted :: "bytes \<Rightarrow> bytes \<Rightarrow> (bytes \<times> bytes) list \<Rightarrow> (bytes \<times> bytes) list" where
  "put_sorted k v [] = [(k, v)]"
| "put_sorted k v ((k', v') # r) =
     (if k = k' then (k, v) # r else if bytes_less k k' then (k, v) # (k', v') # r else (k', v') # put_sorted k v r)"

definition demo_iter :: "(bytes \<times> bytes) list \<Rightarrow> (bytes \<times> bytes) list" where
  "demo_iter t = foldr (\<lambda>(k, v). put_sorted k v) t []"

definition demo_redb :: "(bytes \<times> bytes) list redb" where
  "demo_redb = \<lparr>rd_empty = [], rd_get = map_of, rd_insert = (\<lambda>k v t. (k, v) # t), rd_remove = (\<lambda>k t. filter (\<lambda>e. fst e \<noteq> k) t),
     rd_iter = demo_iter, rd_range = (\<lambda>s t. filter (\<lambda>e. \<not> bytes_less (fst e) s) (demo_iter t))\<rparr>"

lemma bytes_less_total: "a \<noteq> b \<Longrightarrow> bytes_less a b \<or> bytes_less b a"
  by (induction a b rule: bytes_less.induct) (auto simp: neq_Nil_conv)

lemma bytes_less_trans: "bytes_less a b \<Longrightarrow> bytes_less b c \<Longrightarrow> bytes_less a c"
proof (induction a c arbitrary: b rule: bytes_less.induct)
  case (3 x xs z zs)
  then show ?case by (cases b) auto
next
  case (2 v va)
  then show ?case by simp
qed simp

lemma put_sorted_ok:
  assumes "sorted_wrt bytes_less (map fst r)"
  shows "sorted_wrt bytes_less (map fst (put_sorted k v r)) \<and> set (map fst (put_sorted k v r)) = insert k (set (map fst r)) \<and>
    map_of (put_sorted k v r) = (map_of r)(k \<mapsto> v)"
  using assms
proof (induction r)
  case (Cons e r)
  obtain k' v' where e: "e = (k', v')" by (cases e)
  show ?case
  proof (cases "k = k' \<or> bytes_less k k'")
    case True
    then show ?thesis using Cons.prems bytes_less_trans [of k k'] by (auto simp: e fun_eq_iff)
  next
    case False
    then have "bytes_less k' k" using bytes_less_total by blast
    then show ?thesis using False Cons by (auto simp: e fun_eq_iff)
  qed
qed simp

lemma demo_iter_ok: "sorted_wrt bytes_less (map fst (demo_iter t)) \<and> map_of (demo_iter t) = map_of t"
proof (induction t)
  case (Cons e t)
  obtain k v where e: "e = (k, v)" by (cases e)
  have eq: "demo_iter ((k, v) # t) = put_sorted k v (demo_iter t)" by (simp add: demo_iter_def)
  have s: "sorted_wrt bytes_less (map fst (demo_iter t))" using Cons by blast
  show ?case using put_sorted_ok [OF s, of k v] Cons unfolding e eq by (simp add: fun_eq_iff)
qed (simp add: demo_iter_def)

lemma demo_redb_ok: "redb_ok demo_redb"
proof -
  have mem: "(k, v) \<in> set (demo_iter t) \<longleftrightarrow> map_of t k = Some v" for k v t
  proof -
    have "distinct (map fst (demo_iter t))" using demo_iter_ok [of t] sorted_bytes_distinct by blast
    then show ?thesis using demo_iter_ok [of t] map_of_eq_Some_iff [of "demo_iter t" k v] by metis
  qed
  have rem: "map_of (filter (\<lambda>e. fst e \<noteq> k) t) k' = (if k' = k then None else map_of t k')" for k k' and t :: "(bytes \<times> bytes) list"
    by (induction t) auto
  have "sorted_wrt (\<lambda>a b. bytes_less (fst a) (fst b)) (demo_iter t)" for t
    using demo_iter_ok [of t] by (simp add: sorted_wrt_map)
  then show ?thesis using mem rem by (simp add: redb_ok_def demo_redb_def)
qed

fun enc_nats :: "nat list \<Rightarrow> bytes" where
  "enc_nats [] = []"
| "enc_nats (n # ns) = replicate n 1 @ 0 # enc_nats ns"

fun dec_nats :: "nat \<Rightarrow> bytes \<Rightarrow> nat list" where
  "dec_nats a [] = []"
| "dec_nats a (b # bs) = (if b = 0 then a # dec_nats 0 bs else dec_nats (Suc a) bs)"

lemma dec_enc_nats: "dec_nats 0 (enc_nats ns) = ns"
proof (induction ns)
  case (Cons n ns)
  have "dec_nats a (replicate n 1 @ 0 # bs) = (a + n) # dec_nats 0 bs" for a bs
    by (induction n arbitrary: a) auto
  with Cons show ?case by simp
qed simp

definition put_str :: "string \<Rightarrow> nat list" where
  "put_str s = length s # map of_char s"

fun get_str :: "nat list \<Rightarrow> string \<times> nat list" where
  "get_str [] = ([], [])"
| "get_str (n # ns) = (map char_of (take n ns), drop n ns)"

lemma get_put_str [simp]: "get_str (put_str s @ ns) = (s, ns)"
  by (simp add: put_str_def comp_def)

definition demo_to_json :: "tenant_record \<Rightarrow> bytes" where
  "demo_to_json r = enc_nats (tr_vector_dimension r # unat (tr_capacity_limit_mb r) # (if tr_display_name r = None then 0 else 1) #
     put_str (tr_peer_id r) @ put_str (tr_status r) @ put_str (tr_created_at r) @
     put_str (case tr_display_name r of None \<Rightarrow> [] | Some s \<Rightarrow> s))"

definition demo_from_json :: "bytes \<Rightarrow> string + tenant_record" where
  "demo_from_json b = (case dec_nats 0 b of
      n # c # has # ns \<Rightarrow>
        (let (pid, ns) = get_str ns; (status, ns) = get_str ns; (ts, ns) = get_str ns; (name, ns) = get_str ns
         in Inr \<lparr>tr_peer_id = pid, tr_display_name = (if has = 0 then None else Some name), tr_capacity_limit_mb = word_of_nat c,
                 tr_status = status, tr_created_at = ts, tr_vector_dimension = n\<rparr>)
    | _ \<Rightarrow> Inl ''json'')"

lemma demo_json: "demo_from_json (demo_to_json r) = Inr r"
proof -
  have "get_str (put_str s) = (s, [])" for s using get_put_str [of s "[]"] by simp
  then show ?thesis
    by (cases "tr_display_name r") (simp_all add: demo_from_json_def demo_to_json_def dec_enc_nats del: enc_nats.simps dec_nats.simps)
qed

definition demo_storage :: "(nat list, (bytes \<times> bytes) list) storage_env" where
  "demo_storage = \<lparr>se_redb = demo_redb, se_hnsw = demo_hnsw, se_to_json = demo_to_json, se_from_json = demo_from_json,
     se_uuid_show = (\<lambda>_. [])\<rparr>"

lemma demo_storage_ok: "env_ok demo_storage"
  by (simp add: env_ok_def demo_storage_def demo_redb_ok json_ok_def demo_json)

definition demo_tid :: uuid where
  "demo_tid = replicate 16 1"

definition demo_ops :: "storage_op list" where
  "demo_ops = [OpCreate None demo_tid ''now'' ''peer'' 10 None 1, OpUpload None demo_tid [(7, [1])] ]"

lemma demo_ops_fresh: "fresh_ids demo_ops"
  by (simp add: fresh_ids_def demo_ops_def demo_tid_def List.map_filter_simps)

lemma demo_spec: "spec_run demo_ops Map.empty demo_tid = Some (1, [7 \<mapsto> [1] ])"
  by (simp add: spec_run_def demo_ops_def on_tenant_def)

theorem storage_refines_spec_witness:
  "\<exists>st. storage_run demo_storage demo_ops (empty_db demo_storage) = Some st \<and> storage_abs st demo_tid = Some (1, [7 \<mapsto> [1] ])"
  using storage_refines_spec [OF demo_storage_ok demo_ops_fresh] demo_spec by auto

lemma demo_state:
  obtains st where "storage_run demo_storage demo_ops (empty_db demo_storage) = Some st" "db_ok demo_storage st"
    "storage_abs st demo_tid = Some (1, [7 \<mapsto> [1] ])"
  using run_ok [OF demo_storage_ok empty_db_ok(1) [OF demo_storage_ok] demo_ops_fresh] empty_db_ok(2,3) [OF demo_storage_ok] demo_spec
  by auto

theorem tenant_delete_erases_witness:
  "\<exists>st st'. storage_run demo_storage demo_ops (empty_db demo_storage) = Some st \<and>
     tenant_delete demo_storage None demo_tid st = Some (st', Inr ()) \<and> storage_abs st' demo_tid = None"
proof -
  obtain st where st: "storage_run demo_storage demo_ops (empty_db demo_storage) = Some st"
    "storage_abs st demo_tid = Some (1, [7 \<mapsto> [1] ])" by (rule demo_state)
  from tenant_delete_erases [OF demo_storage_ok demo_ops_fresh st(1), of demo_tid] st show ?thesis by auto
qed

theorem concurrent_uploads_diverge_witness:
  "\<exists>st st' st''. interleaved_uploads demo_storage demo_tid [(7, [2])] [(7, [3])] st = Some st' \<and>
     storage_open demo_storage None (db_tenants st') (db_vectors st') = Some (Inr st'') \<and>
     storage_abs st' demo_tid \<noteq> storage_abs st'' demo_tid"
proof -
  obtain st where st: "db_ok demo_storage st" "storage_abs st demo_tid = Some (1, [7 \<mapsto> [1] ])" by (rule demo_state)
  obtain idx where idx: "hm_get (db_indices st) demo_tid = Some idx" using st(2) by (auto simp: storage_abs_def)
  obtain i1 where 1: "upload_index (se_hnsw demo_storage) [(7, [3])] idx = Some i1" "index_ok i1"
    using upload_index_ok [OF db_ok_index(1) [OF st(1) idx]] by blast
  obtain i2 where 2: "upload_index (se_hnsw demo_storage) [(7, [2])] i1 = Some i2" using upload_index_ok [OF 1(2)] by blast
  obtain st' where st': "interleaved_uploads demo_storage demo_tid [(7, [2])] [(7, [3])] st = Some st'"
    using idx 1(1) 2 by (simp only: interleaved_uploads_def option.case Option.bind.simps option.map)
  obtain st'' where "storage_abs st' demo_tid = Some (1, [7 \<mapsto> [1], 7 \<mapsto> [2] ])"
    "storage_open demo_storage None (db_tenants st') (db_vectors st') = Some (Inr st'')"
    "storage_abs st'' demo_tid = Some (1, [7 \<mapsto> [1], 7 \<mapsto> [3] ])"
    using concurrent_uploads_diverge [OF demo_storage_ok st st'] by auto
  moreover have "[7 \<mapsto> [1], 7 \<mapsto> [2] ] (7 :: i64) \<noteq> [7 \<mapsto> [1], 7 \<mapsto> ([3] :: vec32)] 7" by simp
  ultimately show ?thesis using st' by (metis option.inject prod.inject)
qed

end
