(* ===== verification/Storage_Service.thy ===== *)
theory Storage_Service
  imports Storage_Refinement
begin

text \<open>
  The two front ends of the storage service: the REST handlers (\<open>kwaai-storage/src/api.rs\<close>) and the
  peer-to-peer protocol \<open>/kwaai/storage/1.0.0\<close> (\<open>kwaai-cli/src/storage_rpc.rs\<close>): the server's
  dispatch with its capacity checks, and the client calls.

  MessagePack (\<open>rmp_serde\<close>) is one \<open>codec\<close> per message type, with the round trip as hypothesis; the
  text form of a tenant id is a parameter as well. \<open>i64\<close> arithmetic wraps, as in the release
  profile; comparisons are signed. A database error that an operation meets is its argument \<open>fail\<close> (\<open>read_fail\<close> for
  the lookup that precedes another operation).
\<close>

section \<open>Integers of 64 bits\<close>

definition i64_gt :: "i64 \<Rightarrow> i64 \<Rightarrow> bool" where
  "i64_gt a b \<longleftrightarrow> sint b < sint a"

definition i64_max :: "i64 \<Rightarrow> i64 \<Rightarrow> i64" where
  "i64_max a b = (if i64_gt a b then a else b)"

text \<open>Division truncates towards zero.\<close>

definition i64_div :: "i64 \<Rightarrow> int \<Rightarrow> i64" where
  "i64_div a n = word_of_int (sgn (sint a) * (\<bar>sint a\<bar> div n))"

definition show_i64 :: "i64 \<Rightarrow> string" where
  "show_i64 a = (if sint a < 0 then ''-'' else []) @ show_nat (nat \<bar>sint a\<bar>)"

definition f64_of_i64 :: "i64 \<Rightarrow> f64" where
  "f64_of_i64 a = to_f64 (of_int (sint a))"

definition f64_as_i64 :: "f64 \<Rightarrow> i64" where
  "f64_as_i64 x = word_of_int (f64_as_int (- (2 ^ 63)) (2 ^ 63 - 1) x)"

text \<open>The format \<open>{:.2}\<close>.\<close>

definition two_digits :: "nat \<Rightarrow> string" where
  "two_digits n = [char_of (48 + n div 10 mod 10), char_of (48 + n mod 10)]"

fun show_fixed2 :: "f64 \<Rightarrow> string" where
  "show_fixed2 (Fin x) =
     (let n = nat (rne (\<bar>x\<bar> * 100)) in (if x < 0 then ''-'' else []) @ show_nat (n div 100) @ ''.'' @ two_digits (n mod 100))"
| "show_fixed2 PosInf = ''inf''"
| "show_fixed2 NegInf = ''-inf''"
| "show_fixed2 NaN = ''NaN''"

section \<open>REST handlers\<close>

record health_response =
  hr_status :: string
  hr_tenant_count :: i64
  hr_total_vectors :: i64
  hr_capacity_gb_total :: f64
  hr_capacity_gb_available :: f64
  hr_version :: string
  hr_peer_id :: string

record app_state =
  ap_capacity_gb :: f64
  ap_peer_id :: string
  ap_version :: string

type_synonym http_error = "nat \<times> string"

definition api_health :: "app_state \<Rightarrow> ('h, 't) db_inner \<Rightarrow> health_response" where
  "api_health A st =
     (let total = total_vectors st;
          used_gb = f64_div (f64_mul (f64_of_i64 total) (Fin (3 / 2))) (Fin 1048576);
          available = f64_max (f64_sub (ap_capacity_gb A) used_gb) (Fin 0)
      in \<lparr>hr_status = ''ok'', hr_tenant_count = tenant_count st, hr_total_vectors = total,
          hr_capacity_gb_total = ap_capacity_gb A, hr_capacity_gb_available = available,
          hr_version = ap_version A, hr_peer_id = ap_peer_id A\<rparr>)"

definition default_capacity :: i64 where
  "default_capacity = 1024"

definition default_dimension :: nat where
  "default_dimension = 384"

definition default_top_k :: nat where
  "default_top_k = 5"

record create_payload =
  cp_peer_id :: string
  cp_capacity_limit_mb :: i64
  cp_display_name :: "string option"
  cp_vector_dimension :: nat

text \<open>Fields that the request leaves out.\<close>

definition create_payload_of :: "string \<Rightarrow> i64 option \<Rightarrow> string option \<Rightarrow> nat option \<Rightarrow> create_payload" where
  "create_payload_of peer cap name dims =
     \<lparr>cp_peer_id = peer, cp_capacity_limit_mb = unwrap_or cap default_capacity, cp_display_name = name,
      cp_vector_dimension = unwrap_or dims default_dimension\<rparr>"

definition internal_error :: "string + 'a \<Rightarrow> http_error + 'a" where
  "internal_error r = map_sum (\<lambda>e. (500, e)) (\<lambda>x. x) r"

definition api_create_tenant ::
  "('h, 't) storage_env \<Rightarrow> string option \<Rightarrow> uuid \<Rightarrow> string \<Rightarrow> create_payload \<Rightarrow> ('h, 't) db_inner \<Rightarrow>
     ('h, 't) db_inner \<times> (http_error + (nat \<times> tenant_info))" where
  "api_create_tenant E fail tid now req st =
     (let (st, r) = tenant_create E fail tid now (cp_peer_id req) (cp_capacity_limit_mb req) (cp_display_name req)
                      (cp_vector_dimension req) st
      in (st, map_sum (\<lambda>e. e) (\<lambda>info. (201, info)) (internal_error r)))"

definition api_list_tenants :: "('h, 't) storage_env \<Rightarrow> string option \<Rightarrow> ('h, 't) db_inner \<Rightarrow> http_error + tenant_info list" where
  "api_list_tenants E fail st = internal_error (tenant_list E fail st)"

definition api_get_tenant ::
  "('h, 't) storage_env \<Rightarrow> string option \<Rightarrow> uuid \<Rightarrow> ('h, 't) db_inner \<Rightarrow> http_error + (tenant_info \<times> tenant_stats)" where
  "api_get_tenant E fail tid st =
     (case tenant_get E fail tid st of
        Inl e \<Rightarrow> Inl (500, e)
      | Inr None \<Rightarrow> Inl (404, ''tenant not found'')
      | Inr (Some info) \<Rightarrow> Inr (info, tenant_stats_of tid st))"

definition api_delete_tenant ::
  "('h, 't) storage_env \<Rightarrow> string option \<Rightarrow> uuid \<Rightarrow> ('h, 't) db_inner \<Rightarrow> (('h, 't) db_inner \<times> (http_error + nat)) option" where
  "api_delete_tenant E fail tid st =
     map_option (\<lambda>(st, r). (st, map_sum (\<lambda>e. e) (\<lambda>_. 204) (internal_error r))) (tenant_delete E fail tid st)"

definition api_upload_vectors ::
  "('h, 't) storage_env \<Rightarrow> string option \<Rightarrow> string option \<Rightarrow> uuid \<Rightarrow> (i64 \<times> vec32) list \<Rightarrow> ('h, 't) db_inner \<Rightarrow>
     (('h, 't) db_inner \<times> (http_error + nat)) option" where
  "api_upload_vectors E read_fail fail tid vectors st =
     (case tenant_get E read_fail tid st of
        Inl e \<Rightarrow> Some (st, Inl (500, e))
      | Inr None \<Rightarrow> Some (st, Inl (404, ''tenant not found''))
      | Inr (Some _) \<Rightarrow> map_option (\<lambda>(st, r). (st, internal_error r)) (vs_upload E fail tid vectors st))"

definition api_search_vectors ::
  "('h, 't) storage_env \<Rightarrow> uuid \<Rightarrow> vec32 \<Rightarrow> nat option \<Rightarrow> ('h, 't) db_inner \<Rightarrow> (http_error + (i64 \<times> f64) list) option" where
  "api_search_vectors E tid query top_k st =
     map_option internal_error (vs_search E tid query (unwrap_or top_k default_top_k) st)"

definition api_delete_vectors ::
  "('h, 't) storage_env \<Rightarrow> string option \<Rightarrow> uuid \<Rightarrow> i64 list \<Rightarrow> ('h, 't) db_inner \<Rightarrow>
     (('h, 't) db_inner \<times> (http_error + nat)) option" where
  "api_delete_vectors E fail tid ids st = map_option (\<lambda>(st, r). (st, internal_error r)) (vs_delete E fail tid ids st)"

section \<open>The peer-to-peer protocol\<close>

datatype storage_rpc_op =
  Health | CreateTenant | GetTenant | ListTenants | DeleteTenant | UploadVectors | SearchVectors | DeleteVectors

record storage_request =
  sq_op :: storage_rpc_op
  sq_tenant_id :: "string option"
  sq_payload :: bytes

record storage_response =
  sp_ok :: bool
  sp_payload :: bytes
  sp_error :: "string option"

definition response_ok :: "bytes \<Rightarrow> storage_response" where
  "response_ok payload = \<lparr>sp_ok = True, sp_payload = payload, sp_error = None\<rparr>"

definition response_err :: "string \<Rightarrow> storage_response" where
  "response_err msg = \<lparr>sp_ok = False, sp_payload = [], sp_error = Some msg\<rparr>"

record 'a codec =
  cd_enc :: "'a \<Rightarrow> string + bytes"
  cd_dec :: "bytes \<Rightarrow> string + 'a"

record storage_codecs =
  sc_request :: "storage_request codec"
  sc_response :: "storage_response codec"
  sc_create :: "create_payload codec"
  sc_upload :: "(i64 \<times> vec32) list codec"
  sc_search :: "(vec32 \<times> nat) codec"
  sc_ids :: "i64 list codec"
  sc_info :: "tenant_info codec"
  sc_infos :: "tenant_info list codec"
  sc_results :: "(i64 \<times> f64) list codec"
  sc_nat :: "nat codec"
  sc_health :: "health_response codec"
  sc_uuid_show :: "uuid \<Rightarrow> string"
  sc_uuid_parse :: "string \<Rightarrow> uuid option"

definition encode_ok :: "'a codec \<Rightarrow> 'a \<Rightarrow> storage_response" where
  "encode_ok c val = (case cd_enc c val of Inr bs \<Rightarrow> response_ok bs | Inl e \<Rightarrow> response_err (''serialise response: '' @ e))"

text \<open>What one request may meet outside of the store: the error of its database calls, the error of the lookup of
  its tenant, and the id and the time of a tenant it creates.\<close>

record rpc_context =
  rx_read_fail :: "string option"
  rx_fail :: "string option"
  rx_new_id :: uuid
  rx_now :: string

definition eve_capacity_bytes :: "f64 \<Rightarrow> i64" where
  "eve_capacity_bytes capacity_gb = f64_as_i64 (f64_mul capacity_gb (Fin 1073741824))"

text \<open>The capacity checks; \<open>None\<close> is permission.\<close>

definition create_error :: "app_state \<Rightarrow> create_payload \<Rightarrow> ('h, 't) db_inner \<Rightarrow> string option" where
  "create_error A input st =
     (let used_bytes = total_storage_bytes st;
          eve_bytes = eve_capacity_bytes (ap_capacity_gb A);
          requested_bytes = cp_capacity_limit_mb input * 1024 * 1024
      in if i64_gt eve_bytes 0 \<and> i64_gt (used_bytes + requested_bytes) eve_bytes
         then let available_mb = i64_div (i64_max (eve_bytes - used_bytes) 0) (1024 * 1024)
              in Some (''Eve storage full: only '' @ show_i64 available_mb @ '' MB available, '' @
                   show_i64 (cp_capacity_limit_mb input) @ '' MB requested'')
         else None)"

definition dispatch_create ::
  "('h, 't) storage_env \<Rightarrow> storage_codecs \<Rightarrow> app_state \<Rightarrow> rpc_context \<Rightarrow> create_payload \<Rightarrow> ('h, 't) db_inner \<Rightarrow>
     ('h, 't) db_inner \<times> storage_response" where
  "dispatch_create E C A X input st =
     (case create_error A input st of
        Some msg \<Rightarrow> (st, response_err msg)
      | None \<Rightarrow>
          (let (st, r) = tenant_create E (rx_fail X) (rx_new_id X) (rx_now X) (cp_peer_id input) (cp_capacity_limit_mb input)
                           (cp_display_name input) (cp_vector_dimension input) st
           in (st, case r of Inr info \<Rightarrow> encode_ok (sc_info C) info | Inl e \<Rightarrow> response_err e)))"

definition incoming_bytes :: "(i64 \<times> vec32) list \<Rightarrow> i64" where
  "incoming_bytes vectors =
     (let len = (case vectors of [] \<Rightarrow> 384 | v # _ \<Rightarrow> length (snd v))
      in word_of_nat (length vectors) * (4 * word_of_nat len + 24))"

definition quota_error :: "uuid \<Rightarrow> tenant_info \<Rightarrow> i64 \<Rightarrow> ('h, 't) db_inner \<Rightarrow> string option" where
  "quota_error tid info incoming st =
     (if i64_gt (tn_capacity_limit_mb info) 0
      then let used = st_storage_bytes (tenant_stats_of tid st); limit_bytes = tn_capacity_limit_mb info * 1024 * 1024
           in if i64_gt (used + incoming) limit_bytes
              then Some (''tenant quota exceeded: '' @ show_i64 (i64_div (used + incoming) (1024 * 1024)) @ ''/'' @
                         show_i64 (tn_capacity_limit_mb info) @ '' MB used'')
              else None
      else None)"

definition eve_error :: "app_state \<Rightarrow> i64 \<Rightarrow> ('h, 't) db_inner \<Rightarrow> string option" where
  "eve_error A incoming st =
     (let eve_bytes = eve_capacity_bytes (ap_capacity_gb A) in
      if i64_gt eve_bytes 0
      then let total_bytes = total_storage_bytes st
           in if i64_gt (total_bytes + incoming) eve_bytes
              then Some (''Eve storage full: '' @ show_fixed2 (f64_div (f64_of_i64 total_bytes) (Fin 1073741824)) @ ''/'' @
                         show_fixed2 (ap_capacity_gb A) @ '' GB used'')
              else None
      else None)"

definition dispatch_upload ::
  "('h, 't) storage_env \<Rightarrow> storage_codecs \<Rightarrow> app_state \<Rightarrow> rpc_context \<Rightarrow> uuid \<Rightarrow> (i64 \<times> vec32) list \<Rightarrow> ('h, 't) db_inner \<Rightarrow>
     (('h, 't) db_inner \<times> storage_response) option" where
  "dispatch_upload E C A X tid vectors st =
     (let incoming = incoming_bytes vectors in
      case tenant_get E (rx_read_fail X) tid st of
        Inr None \<Rightarrow> Some (st, response_err ''tenant not found'')
      | Inl e \<Rightarrow> Some (st, response_err (''tenant lookup: '' @ e))
      | Inr (Some info) \<Rightarrow>
          (case quota_error tid info incoming st of
             Some msg \<Rightarrow> Some (st, response_err msg)
           | None \<Rightarrow>
               (case eve_error A incoming st of
                  Some msg \<Rightarrow> Some (st, response_err msg)
                | None \<Rightarrow> map_option (\<lambda>(st, r).
                    (st, case r of Inr n \<Rightarrow> encode_ok (sc_nat C) n | Inl e \<Rightarrow> response_err e))
                    (vs_upload E (rx_fail X) tid vectors st))))"

text \<open>A payload that does not decode is answered with the error.\<close>

definition with_payload :: "'a codec \<Rightarrow> bytes \<Rightarrow> 's \<Rightarrow> ('a \<Rightarrow> ('s \<times> storage_response) option) \<Rightarrow> ('s \<times> storage_response) option" where
  "with_payload c payload st f = (case cd_dec c payload of Inl e \<Rightarrow> Some (st, response_err (''payload: '' @ e)) | Inr v \<Rightarrow> f v)"

definition with_tenant :: "uuid option \<Rightarrow> 's \<Rightarrow> (uuid \<Rightarrow> ('s \<times> storage_response) option) \<Rightarrow> ('s \<times> storage_response) option" where
  "with_tenant tid st f = (case tid of None \<Rightarrow> Some (st, response_err ''missing tenant_id'') | Some t \<Rightarrow> f t)"

definition storage_dispatch ::
  "('h, 't) storage_env \<Rightarrow> storage_codecs \<Rightarrow> app_state \<Rightarrow> rpc_context \<Rightarrow> bytes \<Rightarrow> ('h, 't) db_inner \<Rightarrow>
     (('h, 't) db_inner \<times> storage_response) option" where
  "storage_dispatch E C A X req_bytes st =
     (case cd_dec (sc_request C) req_bytes of
        Inl e \<Rightarrow> Some (st, response_err (''deserialise request: '' @ e))
      | Inr req \<Rightarrow>
          (let tenant_id = Option.bind (sq_tenant_id req) (sc_uuid_parse C); payload = sq_payload req in
           case sq_op req of
             Health \<Rightarrow> Some (st, encode_ok (sc_health C) (api_health A st))
           | CreateTenant \<Rightarrow> with_payload (sc_create C) payload st (\<lambda>input. Some (dispatch_create E C A X input st))
           | GetTenant \<Rightarrow> with_tenant tenant_id st (\<lambda>tid. Some (st, case tenant_get E (rx_read_fail X) tid st of
                 Inr (Some info) \<Rightarrow> encode_ok (sc_info C) info
               | Inr None \<Rightarrow> response_err ''tenant not found''
               | Inl e \<Rightarrow> response_err e))
           | ListTenants \<Rightarrow> Some (st, case tenant_list E (rx_read_fail X) st of Inr l \<Rightarrow> encode_ok (sc_infos C) l | Inl e \<Rightarrow> response_err e)
           | DeleteTenant \<Rightarrow> with_tenant tenant_id st (\<lambda>tid. map_option (\<lambda>(st, r).
                 (st, case r of Inr _ \<Rightarrow> response_ok [] | Inl e \<Rightarrow> response_err e)) (tenant_delete E (rx_fail X) tid st))
           | UploadVectors \<Rightarrow> with_tenant tenant_id st (\<lambda>tid. with_payload (sc_upload C) payload st (\<lambda>vectors.
                 dispatch_upload E C A X tid vectors st))
           | SearchVectors \<Rightarrow> with_tenant tenant_id st (\<lambda>tid. with_payload (sc_search C) payload st (\<lambda>(query, top_k).
                 map_option (\<lambda>r. (st, case r of Inr results \<Rightarrow> encode_ok (sc_results C) results | Inl e \<Rightarrow> response_err e))
                   (vs_search E tid query top_k st)))
           | DeleteVectors \<Rightarrow> with_tenant tenant_id st (\<lambda>tid. with_payload (sc_ids C) payload st (\<lambda>ids.
                 map_option (\<lambda>(st, r). (st, case r of Inr n \<Rightarrow> encode_ok (sc_nat C) n | Inl e \<Rightarrow> response_err e))
                   (vs_delete E (rx_fail X) tid ids st)))))"

definition storage_rpc_handler ::
  "('h, 't) storage_env \<Rightarrow> storage_codecs \<Rightarrow> app_state \<Rightarrow> rpc_context \<Rightarrow> bytes \<Rightarrow> ('h, 't) db_inner \<Rightarrow>
     (('h, 't) db_inner \<times> bytes) option" where
  "storage_rpc_handler E C A X req_bytes st =
     map_option (\<lambda>(st, resp). (st, case cd_enc (sc_response C) resp of Inr bs \<Rightarrow> bs | Inl _ \<Rightarrow> []))
       (storage_dispatch E C A X req_bytes st)"

section \<open>The client\<close>

text \<open>The daemon's unary call is a parameter that takes the world to a new one.\<close>

type_synonym 'w unary_call = "bytes \<Rightarrow> 'w \<Rightarrow> 'w \<times> (string + bytes)"

definition call_storage :: "storage_codecs \<Rightarrow> 'w unary_call \<Rightarrow> storage_request \<Rightarrow> 'w \<Rightarrow> 'w \<times> (string + storage_response)" where
  "call_storage C rpc req w =
     (case cd_enc (sc_request C) req of
        Inl e \<Rightarrow> (w, Inl ''serialise StorageRequest'')
      | Inr req_bytes \<Rightarrow>
          (case rpc req_bytes w of
             (w, Inl e) \<Rightarrow> (w, Inl ''call_unary_handler storage'')
           | (w, Inr resp_bytes) \<Rightarrow>
               (w, case cd_dec (sc_response C) resp_bytes of
                     Inl e \<Rightarrow> Inl ''deserialise StorageResponse''
                   | Inr resp \<Rightarrow> if sp_ok resp then Inr resp else Inl (unwrap_or (sp_error resp) ''unknown error''))))"

definition rpc_result :: "'a codec \<Rightarrow> string \<Rightarrow> 'w \<times> (string + storage_response) \<Rightarrow> 'w \<times> (string + 'a)" where
  "rpc_result c msg r = (fst r, case snd r of Inl e \<Rightarrow> Inl e | Inr resp \<Rightarrow> map_sum (\<lambda>_. msg) (\<lambda>x. x) (cd_dec c (sp_payload resp)))"

definition rpc_health :: "storage_codecs \<Rightarrow> 'w unary_call \<Rightarrow> 'w \<Rightarrow> 'w \<times> (string + health_response)" where
  "rpc_health C rpc w = rpc_result (sc_health C) ''decode HealthPayload''
     (call_storage C rpc \<lparr>sq_op = Health, sq_tenant_id = None, sq_payload = []\<rparr> w)"

definition rpc_create_tenant :: "storage_codecs \<Rightarrow> 'w unary_call \<Rightarrow> create_payload \<Rightarrow> 'w \<Rightarrow> 'w \<times> (string + tenant_info)" where
  "rpc_create_tenant C rpc input w =
     (case cd_enc (sc_create C) input of
        Inl e \<Rightarrow> (w, Inl e)
      | Inr payload \<Rightarrow> rpc_result (sc_info C) ''decode TenantInfo''
          (call_storage C rpc \<lparr>sq_op = CreateTenant, sq_tenant_id = None, sq_payload = payload\<rparr> w))"

definition rpc_upload_vectors :: "storage_codecs \<Rightarrow> 'w unary_call \<Rightarrow> uuid \<Rightarrow> (i64 \<times> vec32) list \<Rightarrow> 'w \<Rightarrow> 'w \<times> (string + nat)" where
  "rpc_upload_vectors C rpc tid vectors w =
     (case cd_enc (sc_upload C) vectors of
        Inl e \<Rightarrow> (w, Inl e)
      | Inr payload \<Rightarrow> rpc_result (sc_nat C) ''decode upload count''
          (call_storage C rpc \<lparr>sq_op = UploadVectors, sq_tenant_id = Some (sc_uuid_show C tid), sq_payload = payload\<rparr> w))"

definition rpc_search_vectors ::
  "storage_codecs \<Rightarrow> 'w unary_call \<Rightarrow> uuid \<Rightarrow> vec32 \<Rightarrow> nat \<Rightarrow> 'w \<Rightarrow> 'w \<times> (string + (i64 \<times> f64) list)" where
  "rpc_search_vectors C rpc tid query top_k w =
     (case cd_enc (sc_search C) (query, top_k) of
        Inl e \<Rightarrow> (w, Inl e)
      | Inr payload \<Rightarrow> rpc_result (sc_results C) ''decode SearchResults''
          (call_storage C rpc \<lparr>sq_op = SearchVectors, sq_tenant_id = Some (sc_uuid_show C tid), sq_payload = payload\<rparr> w))"

definition rpc_delete_vectors :: "storage_codecs \<Rightarrow> 'w unary_call \<Rightarrow> uuid \<Rightarrow> i64 list \<Rightarrow> 'w \<Rightarrow> 'w \<times> (string + nat)" where
  "rpc_delete_vectors C rpc tid ids w =
     (case cd_enc (sc_ids C) ids of
        Inl e \<Rightarrow> (w, Inl e)
      | Inr payload \<Rightarrow> rpc_result (sc_nat C) ''decode delete count''
          (call_storage C rpc \<lparr>sq_op = DeleteVectors, sq_tenant_id = Some (sc_uuid_show C tid), sq_payload = payload\<rparr> w))"

definition rpc_delete_tenant :: "storage_codecs \<Rightarrow> 'w unary_call \<Rightarrow> uuid \<Rightarrow> 'w \<Rightarrow> 'w \<times> (string + unit)" where
  "rpc_delete_tenant C rpc tid w =
     map_prod (\<lambda>w. w) (map_sum (\<lambda>e. e) (\<lambda>_. ()))
       (call_storage C rpc \<lparr>sq_op = DeleteTenant, sq_tenant_id = Some (sc_uuid_show C tid), sq_payload = []\<rparr> w)"

definition rpc_list_tenants :: "storage_codecs \<Rightarrow> 'w unary_call \<Rightarrow> 'w \<Rightarrow> 'w \<times> (string + tenant_info list)" where
  "rpc_list_tenants C rpc w = rpc_result (sc_infos C) ''decode TenantInfo list''
     (call_storage C rpc \<lparr>sq_op = ListTenants, sq_tenant_id = None, sq_payload = []\<rparr> w)"

section \<open>Round trips\<close>

definition codec_ok :: "'a codec \<Rightarrow> bool" where
  "codec_ok c \<longleftrightarrow> (\<forall>x. \<exists>bs. cd_enc c x = Inr bs \<and> cd_dec c bs = Inr x)"

definition codecs_ok :: "storage_codecs \<Rightarrow> bool" where
  "codecs_ok C \<longleftrightarrow> codec_ok (sc_request C) \<and> codec_ok (sc_response C) \<and> codec_ok (sc_create C) \<and> codec_ok (sc_upload C) \<and>
     codec_ok (sc_search C) \<and> codec_ok (sc_ids C) \<and> codec_ok (sc_info C) \<and> codec_ok (sc_infos C) \<and> codec_ok (sc_results C) \<and>
     codec_ok (sc_nat C) \<and> codec_ok (sc_health C) \<and> (\<forall>tid. length tid = 16 \<longrightarrow> sc_uuid_parse C (sc_uuid_show C tid) = Some tid)"

lemma codec_okE:
  assumes "codec_ok c"
  obtains bs where "cd_enc c x = Inr bs" "cd_dec c bs = Inr x"
  using assms by (auto simp: codec_ok_def)

text \<open>A server in the same world: the handler on the store; a panic, after which no answer comes, is an error of the call.\<close>

definition served :: "('h, 't) storage_env \<Rightarrow> storage_codecs \<Rightarrow> app_state \<Rightarrow> rpc_context \<Rightarrow> ('h, 't) db_inner unary_call" where
  "served E C A X req st =
     (case storage_rpc_handler E C A X req st of None \<Rightarrow> (st, Inl ''panic'') | Some (st, bs) \<Rightarrow> (st, Inr bs))"

definition outcome :: "storage_response \<Rightarrow> string + storage_response" where
  "outcome resp = (if sp_ok resp then Inr resp else Inl (unwrap_or (sp_error resp) ''unknown error''))"

lemma call_served:
  assumes "codecs_ok C"
  obtains rb where "cd_dec (sc_request C) rb = Inr req"
    "call_storage C (served E C A X) req st =
       (case storage_dispatch E C A X rb st of None \<Rightarrow> (st, Inl ''call_unary_handler storage'') | Some (st, resp) \<Rightarrow> (st, outcome resp))"
proof -
  obtain rb where rb: "cd_enc (sc_request C) req = Inr rb" "cd_dec (sc_request C) rb = Inr req"
    by (rule codec_okE [of "sc_request C"]) (use assms in \<open>simp add: codecs_ok_def\<close>)
  have "(case cd_dec (sc_response C) (case cd_enc (sc_response C) resp of Inr bs \<Rightarrow> bs | Inl _ \<Rightarrow> []) of
      Inl e \<Rightarrow> Inl ''deserialise StorageResponse''
    | Inr resp \<Rightarrow> if sp_ok resp then Inr resp else Inl (unwrap_or (sp_error resp) ''unknown error'')) = outcome resp" for resp
  proof -
    obtain bs where "cd_enc (sc_response C) resp = Inr bs" "cd_dec (sc_response C) bs = Inr resp"
      by (rule codec_okE [of "sc_response C"]) (use assms in \<open>simp add: codecs_ok_def\<close>)
    then show ?thesis by (simp add: outcome_def)
  qed
  then have "call_storage C (served E C A X) req st =
       (case storage_dispatch E C A X rb st of None \<Rightarrow> (st, Inl ''call_unary_handler storage'') | Some (st, resp) \<Rightarrow> (st, outcome resp))"
    by (simp add: call_storage_def served_def storage_rpc_handler_def rb(1) split: option.split)
  with rb(2) show thesis by (rule that)
qed

lemma rpc_result_encode_ok:
  assumes "codec_ok c"
  shows "rpc_result c msg (w, outcome (encode_ok c x)) = (w, Inr x)" "rpc_result c msg (w, outcome (response_err e)) = (w, Inl e)"
proof -
  obtain bs where "cd_enc c x = Inr bs" "cd_dec c bs = Inr x" by (rule codec_okE [OF assms])
  then show "rpc_result c msg (w, outcome (encode_ok c x)) = (w, Inr x)"
    by (simp add: rpc_result_def outcome_def encode_ok_def response_ok_def)
  show "rpc_result c msg (w, outcome (response_err e)) = (w, Inl e)"
    by (simp add: rpc_result_def outcome_def response_err_def)
qed

section \<open>Word arithmetic\<close>

lemma sint_of_nat_i64:
  assumes "n < 2 ^ 63"
  shows "sint (word_of_nat n :: i64) = int n"
proof -
  have "int n < 2 ^ 63" using assms by simp
  then have "signed_take_bit 63 (int n) = int n" by (intro signed_take_bit_int_eq_self) simp_all
  then show ?thesis unfolding signed_of_nat by simp
qed

lemma sint_scaled:
  fixes a :: i64
  assumes "0 \<le> sint a" "sint a < 2 ^ 40"
  shows "sint (a * 1024 * 1024) = sint a * 1048576"
proof -
  have eq: "a * 1024 * 1024 = word_of_int (sint a * 1048576)" by simp
  have "- (2 ^ 63) \<le> sint a * 1048576" "sint a * 1048576 < 2 ^ 63" using assms by simp_all
  then have "signed_take_bit 63 (sint a * 1048576) = sint a * 1048576" by (intro signed_take_bit_int_eq_self) simp_all
  then show ?thesis unfolding eq signed_of_int by simp
qed

lemma stats_bytes:
  assumes "db_ok E st" "storage_abs st tid = Some (n, m)"
  shows "st_storage_bytes (tenant_stats_of tid st) = word_of_nat (card (dom m) * (4 * n + 24))"
proof -
  obtain idx where idx: "hm_get (db_indices st) tid = Some idx" "ti_dimension idx = n" "index_abs idx = m"
    using assms(2) by (auto simp: storage_abs_def)
  then have "live_count idx = card (dom m)" using live_count_abs [OF db_ok_index(1) [OF assms(1) idx(1)]] by simp
  then show ?thesis using idx by (simp add: tenant_stats_of_def Let_def)
qed

lemma card_put_all: "finite (dom m) \<Longrightarrow> finite (dom (put_all vs m)) \<and> card (dom (put_all vs m)) \<le> card (dom m) + length vs"
proof (induction vs arbitrary: m)
  case (Cons x vs)
  obtain d v where x: "x = (d, v)" by (cases x)
  have "card (dom (m(d \<mapsto> v))) \<le> Suc (card (dom m))" using Cons.prems by (simp add: card_insert_if)
  moreover have "finite (dom (put_all vs (m(d \<mapsto> v)))) \<and> card (dom (put_all vs (m(d \<mapsto> v)))) \<le> card (dom (m(d \<mapsto> v))) + length vs"
    by (rule Cons.IH) (use Cons.prems in simp)
  ultimately show ?case unfolding x put_all.simps list.size by linarith
qed simp

section \<open>Calls through the protocol\<close>

text \<open>The result of an operation as the dispatch answers it, and an operation that may panic as its caller sees it.\<close>

fun reply :: "'a codec \<Rightarrow> 's \<times> (string + 'a) \<Rightarrow> 's \<times> storage_response" where
  "reply c (st, r) = (st, case r of Inr x \<Rightarrow> encode_ok c x | Inl e \<Rightarrow> response_err e)"

definition or_panic :: "'s \<Rightarrow> ('s \<times> (string + 'a)) option \<Rightarrow> 's \<times> (string + 'a)" where
  "or_panic st r = (case r of None \<Rightarrow> (st, Inl ''call_unary_handler storage'') | Some r \<Rightarrow> r)"

text \<open>The reason for which the server refuses an upload.\<close>

definition upload_refusal ::
  "('h, 't) storage_env \<Rightarrow> app_state \<Rightarrow> rpc_context \<Rightarrow> uuid \<Rightarrow> (i64 \<times> vec32) list \<Rightarrow> ('h, 't) db_inner \<Rightarrow> string option" where
  "upload_refusal E A X tid vectors st =
     (case tenant_get E (rx_read_fail X) tid st of
        Inl e \<Rightarrow> Some (''tenant lookup: '' @ e)
      | Inr None \<Rightarrow> Some ''tenant not found''
      | Inr (Some info) \<Rightarrow>
          (case quota_error tid info (incoming_bytes vectors) st of
             Some msg \<Rightarrow> Some msg
           | None \<Rightarrow> eve_error A (incoming_bytes vectors) st))"

lemma reply_map: "map_option (\<lambda>(st, r). (st, case r of Inr x \<Rightarrow> encode_ok c x | Inl e \<Rightarrow> response_err e)) d = map_option (reply c) d"
  by (cases d) auto

lemma rpc_served:
  assumes "codecs_ok C" "codec_ok c"
    and "\<And>rb. cd_dec (sc_request C) rb = Inr req \<Longrightarrow> storage_dispatch E C A X rb st = map_option (reply c) d"
  shows "rpc_result c msg (call_storage C (served E C A X) req st) = or_panic st d"
proof -
  obtain rb where "cd_dec (sc_request C) rb = Inr req"
    and call: "call_storage C (served E C A X) req st =
       (case storage_dispatch E C A X rb st of None \<Rightarrow> (st, Inl ''call_unary_handler storage'') | Some (st, resp) \<Rightarrow> (st, outcome resp))"
    by (rule call_served [OF assms(1)])
  then have d: "storage_dispatch E C A X rb st = map_option (reply c) d" using assms(3) by blast
  show ?thesis
  proof (cases d)
    case None
    then show ?thesis by (simp add: call d rpc_result_def or_panic_def)
  next
    case (Some x)
    obtain st' r where "x = (st', r)" by (cases x)
    then show ?thesis using Some by (cases r) (simp_all add: call d or_panic_def rpc_result_encode_ok [OF assms(2)])
  qed
qed

text \<open>What the dispatch does with a request that the client made.\<close>

lemma dispatch_request:
  assumes "codecs_ok C" "length tid = 16" "cd_dec (sc_request C) rb = Inr \<lparr>sq_op = op, sq_tenant_id = Some (sc_uuid_show C tid), sq_payload = p\<rparr>"
  shows "op = DeleteTenant \<Longrightarrow> storage_dispatch E C A X rb st =
      map_option (\<lambda>(st, r). (st, case r of Inr _ \<Rightarrow> response_ok [] | Inl e \<Rightarrow> response_err e)) (tenant_delete E (rx_fail X) tid st)"
    "op = UploadVectors \<Longrightarrow> cd_dec (sc_upload C) p = Inr vectors \<Longrightarrow> storage_dispatch E C A X rb st = dispatch_upload E C A X tid vectors st"
    "op = SearchVectors \<Longrightarrow> cd_dec (sc_search C) p = Inr (query, top_k) \<Longrightarrow>
      storage_dispatch E C A X rb st = map_option (reply (sc_results C)) (map_option (Pair st) (vs_search E tid query top_k st))"
    "op = DeleteVectors \<Longrightarrow> cd_dec (sc_ids C) p = Inr ids \<Longrightarrow>
      storage_dispatch E C A X rb st = map_option (reply (sc_nat C)) (vs_delete E (rx_fail X) tid ids st)"
proof -
  have "sc_uuid_parse C (sc_uuid_show C tid) = Some tid" using assms(1,2) by (simp add: codecs_ok_def)
  note rules = storage_dispatch_def assms(3) with_tenant_def with_payload_def this
  show "op = DeleteTenant \<Longrightarrow> storage_dispatch E C A X rb st =
      map_option (\<lambda>(st, r). (st, case r of Inr _ \<Rightarrow> response_ok [] | Inl e \<Rightarrow> response_err e)) (tenant_delete E (rx_fail X) tid st)"
    by (simp add: rules)
  show "op = UploadVectors \<Longrightarrow> cd_dec (sc_upload C) p = Inr vectors \<Longrightarrow> storage_dispatch E C A X rb st = dispatch_upload E C A X tid vectors st"
    by (simp add: rules)
  show "op = SearchVectors \<Longrightarrow> cd_dec (sc_search C) p = Inr (query, top_k) \<Longrightarrow>
      storage_dispatch E C A X rb st = map_option (reply (sc_results C)) (map_option (Pair st) (vs_search E tid query top_k st))"
    by (simp add: rules option.map_comp comp_def)
  show "op = DeleteVectors \<Longrightarrow> cd_dec (sc_ids C) p = Inr ids \<Longrightarrow>
      storage_dispatch E C A X rb st = map_option (reply (sc_nat C)) (vs_delete E (rx_fail X) tid ids st)"
    by (simp add: rules reply_map)
qed

lemma dispatch_upload_reply:
  "dispatch_upload E C A X tid vectors st = map_option (reply (sc_nat C))
     (case upload_refusal E A X tid vectors st of Some msg \<Rightarrow> Some (st, Inl msg) | None \<Rightarrow> vs_upload E (rx_fail X) tid vectors st)"
  by (auto simp: dispatch_upload_def upload_refusal_def Let_def reply_map split: sum.split option.split)

lemma rpc_health_served:
  assumes "codecs_ok C"
  shows "rpc_health C (served E C A X) st = (st, Inr (api_health A st))"
  unfolding rpc_health_def
  by (subst rpc_served [OF assms, where d = "Some (st, Inr (api_health A st))"])
    (use assms in \<open>simp_all add: codecs_ok_def storage_dispatch_def or_panic_def\<close>)

lemma rpc_list_tenants_served:
  assumes "codecs_ok C"
  shows "rpc_list_tenants C (served E C A X) st = (st, tenant_list E (rx_read_fail X) st)"
  unfolding rpc_list_tenants_def
  by (subst rpc_served [OF assms, where d = "Some (st, tenant_list E (rx_read_fail X) st)"])
    (use assms in \<open>simp_all add: codecs_ok_def storage_dispatch_def or_panic_def\<close>)

lemma rpc_create_tenant_served:
  assumes "codecs_ok C"
  shows "rpc_create_tenant C (served E C A X) input st =
    (case create_error A input st of
       Some msg \<Rightarrow> (st, Inl msg)
     | None \<Rightarrow> tenant_create E (rx_fail X) (rx_new_id X) (rx_now X) (cp_peer_id input) (cp_capacity_limit_mb input)
         (cp_display_name input) (cp_vector_dimension input) st)" (is "_ = ?direct")
proof -
  obtain p where p: "cd_enc (sc_create C) input = Inr p" "cd_dec (sc_create C) p = Inr input"
    by (rule codec_okE [of "sc_create C"]) (use assms in \<open>simp add: codecs_ok_def\<close>)
  have "dispatch_create E C A X input st = reply (sc_info C) ?direct"
    by (cases "create_error A input st") (auto simp: dispatch_create_def split: prod.split)
  then show ?thesis
    unfolding rpc_create_tenant_def p sum.case
    by (subst rpc_served [OF assms, where d = "Some ?direct"])
      (use assms p(2) in \<open>simp_all add: codecs_ok_def storage_dispatch_def with_payload_def or_panic_def\<close>)
qed

lemma rpc_upload_vectors_served:
  assumes "codecs_ok C" "length tid = 16"
  shows "rpc_upload_vectors C (served E C A X) tid vectors st =
    (case upload_refusal E A X tid vectors st of Some msg \<Rightarrow> (st, Inl msg) | None \<Rightarrow> or_panic st (vs_upload E (rx_fail X) tid vectors st))"
proof -
  obtain p where p: "cd_enc (sc_upload C) vectors = Inr p" "cd_dec (sc_upload C) p = Inr vectors"
    by (rule codec_okE [of "sc_upload C"]) (use assms in \<open>simp add: codecs_ok_def\<close>)
  show ?thesis
    unfolding rpc_upload_vectors_def p sum.case
    by (subst rpc_served [OF assms(1), where d = "case upload_refusal E A X tid vectors st of
          Some msg \<Rightarrow> Some (st, Inl msg) | None \<Rightarrow> vs_upload E (rx_fail X) tid vectors st"])
      (use assms(1) in \<open>simp_all add: codecs_ok_def dispatch_request(2) [OF assms _ refl p(2)] dispatch_upload_reply or_panic_def split: option.split\<close>)
qed

lemma rpc_search_vectors_served:
  assumes "codecs_ok C" "length tid = 16"
  shows "rpc_search_vectors C (served E C A X) tid query top_k st = or_panic st (map_option (Pair st) (vs_search E tid query top_k st))"
proof -
  obtain p where p: "cd_enc (sc_search C) (query, top_k) = Inr p" "cd_dec (sc_search C) p = Inr (query, top_k)"
    by (rule codec_okE [of "sc_search C"]) (use assms in \<open>simp add: codecs_ok_def\<close>)
  show ?thesis
    unfolding rpc_search_vectors_def p sum.case
    by (rule rpc_served [OF assms(1)]) (use assms(1) in \<open>simp_all add: codecs_ok_def dispatch_request(3) [OF assms _ refl p(2)]\<close>)
qed

lemma rpc_delete_vectors_served:
  assumes "codecs_ok C" "length tid = 16"
  shows "rpc_delete_vectors C (served E C A X) tid ids st = or_panic st (vs_delete E (rx_fail X) tid ids st)"
proof -
  obtain p where p: "cd_enc (sc_ids C) ids = Inr p" "cd_dec (sc_ids C) p = Inr ids"
    by (rule codec_okE [of "sc_ids C"]) (use assms in \<open>simp add: codecs_ok_def\<close>)
  show ?thesis
    unfolding rpc_delete_vectors_def p sum.case
    by (rule rpc_served [OF assms(1)]) (use assms(1) in \<open>simp_all add: codecs_ok_def dispatch_request(4) [OF assms _ refl p(2)]\<close>)
qed

lemma rpc_delete_tenant_served:
  assumes "codecs_ok C" "length tid = 16"
  shows "rpc_delete_tenant C (served E C A X) tid st = or_panic st (tenant_delete E (rx_fail X) tid st)"
proof -
  let ?req = "\<lparr>sq_op = DeleteTenant, sq_tenant_id = Some (sc_uuid_show C tid), sq_payload = []\<rparr>"
  obtain rb where rb: "cd_dec (sc_request C) rb = Inr ?req"
    and call: "call_storage C (served E C A X) ?req st =
      (case storage_dispatch E C A X rb st of None \<Rightarrow> (st, Inl ''call_unary_handler storage'') | Some (st, resp) \<Rightarrow> (st, outcome resp))"
    by (rule call_served [OF assms(1)])
  note run = rpc_delete_tenant_def call dispatch_request(1) [OF assms rb refl] or_panic_def
  show ?thesis
  proof (cases "tenant_delete E (rx_fail X) tid st")
    case (Some r)
    obtain st' x where "r = (st', x)" by (cases r)
    then show ?thesis using Some by (cases x) (simp_all add: run outcome_def response_ok_def response_err_def)
  qed (simp add: run)
qed

section \<open>Properties\<close>

text \<open>
  C25: The protocol is transparent up to the server's capacity checks. Every call of the client, through
  the codec and the server's dispatch, has the result, error text included, and the effect on the store
  of the direct operation: the health report, the list of tenants, the deletion of a tenant, the search
  and the removal of vectors. The creation of a tenant and the upload of vectors first pass the
  capacity checks (for an upload, also the lookup of the tenant); when one refuses, the client gets its
  message and the store is unchanged, and otherwise they too are the direct operation.
\<close>

theorem storage_rpc_transparent:
  assumes "codecs_ok C" "length tid = 16"
  shows "rpc_health C (served E C A X) st = (st, Inr (api_health A st)) \<and>
    rpc_list_tenants C (served E C A X) st = (st, tenant_list E (rx_read_fail X) st) \<and>
    rpc_delete_tenant C (served E C A X) tid st = or_panic st (tenant_delete E (rx_fail X) tid st) \<and>
    rpc_search_vectors C (served E C A X) tid query top_k st = or_panic st (map_option (Pair st) (vs_search E tid query top_k st)) \<and>
    rpc_delete_vectors C (served E C A X) tid ids st = or_panic st (vs_delete E (rx_fail X) tid ids st) \<and>
    rpc_create_tenant C (served E C A X) input st =
      (case create_error A input st of
         Some msg \<Rightarrow> (st, Inl msg)
       | None \<Rightarrow> tenant_create E (rx_fail X) (rx_new_id X) (rx_now X) (cp_peer_id input) (cp_capacity_limit_mb input)
           (cp_display_name input) (cp_vector_dimension input) st) \<and>
    rpc_upload_vectors C (served E C A X) tid vectors st =
      (case upload_refusal E A X tid vectors st of
         Some msg \<Rightarrow> (st, Inl msg)
       | None \<Rightarrow> or_panic st (vs_upload E (rx_fail X) tid vectors st))"
  by (intro conjI rpc_health_served rpc_list_tenants_served rpc_delete_tenant_served rpc_search_vectors_served
      rpc_delete_vectors_served rpc_create_tenant_served rpc_upload_vectors_served assms)

lemma upload_accepted:
  assumes "dispatch_upload E C A X tid vs st = Some (st', resp)" "sp_ok resp" "tenant_get E (rx_read_fail X) tid st = Inr (Some info)"
  shows "quota_error tid info (incoming_bytes vs) st = None" "\<exists>n. vs_upload E (rx_fail X) tid vs st = Some (st', Inr n)"
proof -
  show q: "quota_error tid info (incoming_bytes vs) st = None"
    using assms by (cases "quota_error tid info (incoming_bytes vs) st") (auto simp: dispatch_upload_def Let_def response_err_def)
  have e: "eve_error A (incoming_bytes vs) st = None"
    using assms q by (cases "eve_error A (incoming_bytes vs) st") (auto simp: dispatch_upload_def Let_def response_err_def)
  obtain r where r: "vs_upload E (rx_fail X) tid vs st = Some (st', r)"
    "resp = (case r of Inr n \<Rightarrow> encode_ok (sc_nat C) n | Inl e \<Rightarrow> response_err e)"
    using assms(1,3) q e by (auto simp: dispatch_upload_def Let_def)
  then show "\<exists>n. vs_upload E (rx_fail X) tid vs st = Some (st', Inr n)"
    using assms(2) by (cases r) (auto simp: response_err_def)
qed

lemma upload_effect:
  assumes "env_ok E" "db_ok E st" "vs_upload E fail tid vs st = Some (st', Inr k)" "vs \<noteq> []" "storage_abs st tid = Some (n, m)"
  shows "db_ok E st'" "storage_abs st' tid = Some (n, put_all vs m)"
proof -
  obtain idx where idx: "hm_get (db_indices st) tid = Some idx" using assms(5) by (auto simp: storage_abs_def)
  have "fail = None" using assms(3,4) idx by (cases fail) (auto simp: vs_upload_def)
  then obtain st2 r where "vs_upload E fail tid vs st = Some (st2, r)" "db_ok E st2" "storage_abs st2 = on_tenant tid (put_all vs) (storage_abs st)"
    using upload_ok [OF assms(1,2), of tid vs] by metis
  then show "db_ok E st'" "storage_abs st' tid = Some (n, put_all vs m)" using assms(3,5) by (simp_all add: on_tenant_def)
qed

lemma finite_abs: "db_ok E st \<Longrightarrow> storage_abs st tid = Some (n, m) \<Longrightarrow> finite (dom m)"
  by (auto simp: storage_abs_def index_abs_def hm_dom)

text \<open>
  C26: The quota holds for uniform uploads. When the vectors of an accepted upload have the tenant's
  dimension, the storage that is accounted to the tenant afterwards is within its quota.
\<close>

theorem upload_within_quota:
  assumes "env_ok E" "db_ok E st" "storage_abs st tid = Some (n, m)" "tenant_get E (rx_read_fail X) tid st = Inr (Some info)"
    and up: "dispatch_upload E C A X tid vs st = Some (st', resp)" "sp_ok resp" "vs \<noteq> []" "\<And>v. v \<in> set vs \<Longrightarrow> length (snd v) = n"
    and quota: "0 < sint (tn_capacity_limit_mb info)" "sint (tn_capacity_limit_mb info) < 2 ^ 40"
    and small: "(card (dom m) + length vs) * (4 * n + 24) < 2 ^ 63"
  shows "sint (st_storage_bytes (tenant_stats_of tid st')) \<le> sint (tn_capacity_limit_mb info) * 1048576"
proof -
  define a b where "a = card (dom m) * (4 * n + 24)" and "b = length vs * (4 * n + 24)"
  have ab: "a + b < 2 ^ 63" using small by (simp add: a_def b_def algebra_simps)
  have inc: "incoming_bytes vs = word_of_nat b"
    using up(3,4) by (cases vs) (simp_all add: incoming_bytes_def b_def algebra_simps)
  have used: "st_storage_bytes (tenant_stats_of tid st) = word_of_nat a" unfolding a_def by (rule stats_bytes [OF assms(2,3)])
  have "sint (word_of_nat a + word_of_nat b :: i64) = int (a + b)" using sint_of_nat_i64 [OF ab] by simp
  moreover have "\<not> i64_gt (word_of_nat a + word_of_nat b) (tn_capacity_limit_mb info * 1024 * 1024)"
    using upload_accepted(1) [OF up(1,2) assms(4)] quota(1) by (auto simp: quota_error_def inc used i64_gt_def Let_def split: if_splits)
  ultimately have le: "int (a + b) \<le> sint (tn_capacity_limit_mb info) * 1048576"
    using sint_scaled [of "tn_capacity_limit_mb info"] quota by (simp add: i64_gt_def)
  obtain k where "vs_upload E (rx_fail X) tid vs st = Some (st', Inr k)" using upload_accepted(2) [OF up(1,2) assms(4)] by blast
  note eff = upload_effect [OF assms(1,2) this up(3) assms(3)]
  have "card (dom (put_all vs m)) * (4 * n + 24) \<le> (card (dom m) + length vs) * (4 * n + 24)"
    using card_put_all [OF finite_abs [OF assms(2,3)], of vs] by (intro mult_right_mono) auto
  then have c: "card (dom (put_all vs m)) * (4 * n + 24) \<le> a + b" by (simp add: a_def b_def algebra_simps)
  then have "sint (st_storage_bytes (tenant_stats_of tid st')) = int (card (dom (put_all vs m)) * (4 * n + 24))"
    unfolding stats_bytes [OF eff] using ab by (intro sint_of_nat_i64) linarith
  then show ?thesis using c le by linarith
qed

text \<open>
  C33: The quota can be passed by. The size of an upload is computed from the length of its first
  vector, which is never compared with the tenant's dimension: a tenant of dimension 262144 with a
  quota of 1 MB may upload an empty vector and is then accounted more than its quota.
\<close>

theorem quota_bypassed:
  assumes "env_ok E" "db_ok E st" "storage_abs st tid = Some (262144, Map.empty)" "tenant_get E (rx_read_fail X) tid st = Inr (Some info)"
    and "tn_capacity_limit_mb info = 1" "eve_error A 24 st = None" "rx_fail X = None" "codecs_ok C"
  shows "\<exists>st' resp. dispatch_upload E C A X tid [(d, [])] st = Some (st', resp) \<and> sp_ok resp \<and>
    1048576 < sint (st_storage_bytes (tenant_stats_of tid st'))"
proof -
  have inc: "incoming_bytes [(d, [])] = 24" by (simp add: incoming_bytes_def)
  have used: "st_storage_bytes (tenant_stats_of tid st) = 0" using stats_bytes [OF assms(2,3)] by simp
  have q: "quota_error tid info 24 st = None" using assms(5) by (simp add: quota_error_def used i64_gt_def)
  obtain st' r where up: "vs_upload E None tid [(d, [])] st = Some (st', r)" "db_ok E st'"
    "storage_abs st' = on_tenant tid (put_all [(d, [])]) (storage_abs st)" by (rule upload_ok [OF assms(1,2)])
  obtain idx where idx: "hm_get (db_indices st) tid = Some idx" using assms(3) by (auto simp: storage_abs_def)
  have r: "r = Inr 1" using up(1) idx by (auto simp: vs_upload_def)
  have "storage_abs st' tid = Some (262144, put_all [(d, [])] Map.empty)" using up(3) assms(3) by (simp add: on_tenant_def)
  from stats_bytes [OF up(2) this] have "st_storage_bytes (tenant_stats_of tid st') = 1048600" by simp
  moreover have "dispatch_upload E C A X tid [(d, [])] st = Some (st', encode_ok (sc_nat C) 1)"
    using assms(4,6,7) q up(1) r by (simp add: dispatch_upload_def inc Let_def)
  moreover have "sp_ok (encode_ok (sc_nat C) 1)"
  proof -
    obtain bs where "cd_enc (sc_nat C) 1 = Inr bs" by (rule codec_okE [of "sc_nat C" 1]) (use assms(8) in \<open>simp add: codecs_ok_def\<close>)
    then show ?thesis by (simp add: encode_ok_def response_ok_def)
  qed
  ultimately show ?thesis by auto
qed

section \<open>An instance of the codecs\<close>

text \<open>Every message type is countable; a message is written as its number.\<close>

instance storage_rpc_op :: countable
  by countable_datatype

definition number_codec :: "('a \<Rightarrow> nat) \<Rightarrow> 'a codec" where
  "number_codec f = \<lparr>cd_enc = (\<lambda>x. Inr (enc_nats [f x])), cd_dec = (\<lambda>bs. Inr (inv f (hd (dec_nats 0 bs))))\<rparr>"

lemma number_codec_ok: "inj f \<Longrightarrow> codec_ok (number_codec f)"
  using dec_enc_nats by (auto simp: codec_ok_def number_codec_def inv_f_f simp del: enc_nats.simps)

definition info_number :: "tenant_info \<Rightarrow> nat" where
  "info_number i = to_nat (tn_tenant_id i, tn_peer_id i, tn_display_name i, tn_capacity_limit_mb i, tn_status i, tn_created_at i,
     tn_vector_dimension i)"

definition demo_codecs :: storage_codecs where
  "demo_codecs =
     \<lparr>sc_request = number_codec (\<lambda>r. to_nat (sq_op r, sq_tenant_id r, sq_payload r)),
      sc_response = number_codec (\<lambda>r. to_nat (sp_ok r, sp_payload r, sp_error r)),
      sc_create = number_codec (\<lambda>r. to_nat (cp_peer_id r, cp_capacity_limit_mb r, cp_display_name r, cp_vector_dimension r)),
      sc_upload = number_codec to_nat, sc_search = number_codec to_nat, sc_ids = number_codec to_nat,
      sc_info = number_codec info_number, sc_infos = number_codec (\<lambda>l. to_nat (map info_number l)),
      sc_results = number_codec to_nat, sc_nat = number_codec to_nat,
      sc_health = number_codec (\<lambda>h. to_nat (hr_status h, hr_tenant_count h, hr_total_vectors h, hr_capacity_gb_total h,
        hr_capacity_gb_available h, hr_version h, hr_peer_id h)),
      sc_uuid_show = map (\<lambda>b. char_of (unat b)), sc_uuid_parse = (\<lambda>s. Some (map (\<lambda>c. word_of_nat (of_char c)) s))\<rparr>"

lemma info_number_inj: "inj info_number"
  by (rule injI) (simp add: info_number_def)

lemma demo_codecs_ok: "codecs_ok demo_codecs"
proof -
  have byte: "word_of_nat (unat b mod 256) = b" for b :: u8
    using unsigned_less [of b, where ?'a = nat] by simp
  show ?thesis
    unfolding codecs_ok_def demo_codecs_def storage_codecs.simps
    by (intro conjI number_codec_ok; (rule injI | intro allI impI))
      (simp_all add: info_number_inj [THEN injD] byte comp_def inj_map_eq_map [OF info_number_inj])
qed

definition demo_context :: rpc_context where
  "demo_context = \<lparr>rx_read_fail = None, rx_fail = None, rx_new_id = [], rx_now = []\<rparr>"

definition demo_app :: app_state where
  "demo_app = \<lparr>ap_capacity_gb = Fin 0, ap_peer_id = [], ap_version = []\<rparr>"

definition demo_created :: "nat \<Rightarrow> (nat list, (bytes \<times> bytes) list) db_inner" where
  "demo_created n = fst (tenant_create demo_storage None demo_tid ''now'' ''peer'' 1 None n (empty_db demo_storage))"

lemma demo_created_facts:
  "db_ok demo_storage (demo_created n)" "storage_abs (demo_created n) demo_tid = Some (n, Map.empty)"
  using create_ok [OF demo_storage_ok empty_db_ok(1) [OF demo_storage_ok] _ empty_db_ok(3) [OF demo_storage_ok] demo_created_def]
  by (simp_all add: demo_tid_def)

lemma demo_created_get:
  "\<exists>info. tenant_get demo_storage None demo_tid (demo_created n) = Inr (Some info) \<and> tn_capacity_limit_mb info = 1"
proof -
  have R: "redb_ok (se_redb demo_storage)" and J: "\<And>r. se_from_json demo_storage (se_to_json demo_storage r) = Inr r"
    using demo_storage_ok by (simp_all add: env_ok_def json_ok_def)
  show ?thesis by (simp add: tenant_get_def demo_created_def tenant_create_def redb_simps [OF R] J record_to_info_def)
qed

lemma demo_no_eve_limit: "eve_error demo_app b st = None"
  by (simp add: eve_error_def demo_app_def eve_capacity_bytes_def f64_as_i64_def trunc_rat_def i64_gt_def)

theorem storage_rpc_transparent_witness:
  "rpc_search_vectors demo_codecs (served demo_storage demo_codecs demo_app demo_context) demo_tid [1] 3 (empty_db demo_storage) =
     (empty_db demo_storage, Inl ''tenant not found'') \<and>
   rpc_upload_vectors demo_codecs (served demo_storage demo_codecs demo_app demo_context) demo_tid [(5, [7])] (empty_db demo_storage) =
     (empty_db demo_storage, Inl ''tenant not found'')"
proof -
  have "length demo_tid = 16" by (simp add: demo_tid_def)
  moreover have "upload_refusal demo_storage demo_app demo_context demo_tid [(5, [7])] (empty_db demo_storage) = Some ''tenant not found''"
    using empty_db_ok(3) [OF demo_storage_ok, of demo_tid] by (simp add: upload_refusal_def tenant_get_def demo_context_def)
  ultimately show ?thesis
    using storage_rpc_transparent [OF demo_codecs_ok, where tid = demo_tid and E = demo_storage and A = demo_app and X = demo_context
        and query = "[1]" and top_k = 3 and vectors = "[(5, [7])]" and st = "empty_db demo_storage"]
    by (simp add: vs_search_def empty_db_def or_panic_def)
qed

theorem quota_bypassed_witness:
  "\<exists>st' resp. dispatch_upload demo_storage demo_codecs demo_app demo_context demo_tid [(5, [])] (demo_created 262144) = Some (st', resp) \<and>
     sp_ok resp \<and> 1048576 < sint (st_storage_bytes (tenant_stats_of demo_tid st'))"
proof -
  obtain info where "tenant_get demo_storage None demo_tid (demo_created 262144) = Inr (Some info)" "tn_capacity_limit_mb info = 1"
    using demo_created_get by blast
  then show ?thesis
    by (intro quota_bypassed [OF demo_storage_ok demo_created_facts _ _ demo_no_eve_limit _ demo_codecs_ok])
      (simp_all add: demo_context_def)
qed

lemma demo_upload_accepted:
  "\<exists>st' resp. dispatch_upload demo_storage demo_codecs demo_app demo_context demo_tid [(5, [7])] (demo_created 1) = Some (st', resp) \<and> sp_ok resp"
proof -
  obtain info where info: "tenant_get demo_storage None demo_tid (demo_created 1) = Inr (Some info)" "tn_capacity_limit_mb info = 1"
    using demo_created_get by blast
  obtain st' r where up: "vs_upload demo_storage None demo_tid [(5, [7])] (demo_created 1) = Some (st', r)"
    by (rule upload_ok [OF demo_storage_ok demo_created_facts(1)])
  obtain idx where idx: "hm_get (db_indices (demo_created 1)) demo_tid = Some idx"
    using demo_created_facts(2) [of 1] by (auto simp: storage_abs_def)
  have r: "r = Inr 1" using up idx by (auto simp: vs_upload_def)
  have "st_storage_bytes (tenant_stats_of demo_tid (demo_created 1)) = 0" using stats_bytes [OF demo_created_facts, of 1] by simp
  then have "quota_error demo_tid info (incoming_bytes [(5, [7])]) (demo_created 1) = None"
    by (simp add: quota_error_def info(2) i64_gt_def incoming_bytes_def)
  then have "dispatch_upload demo_storage demo_codecs demo_app demo_context demo_tid [(5, [7])] (demo_created 1) =
      Some (st', encode_ok (sc_nat demo_codecs) 1)"
    using info(1) up r by (simp add: dispatch_upload_def demo_no_eve_limit demo_context_def Let_def)
  moreover have "sp_ok (encode_ok (sc_nat demo_codecs) 1)"
    by (simp add: encode_ok_def demo_codecs_def number_codec_def response_ok_def)
  ultimately show ?thesis by auto
qed

theorem upload_within_quota_witness:
  "\<exists>st' resp. dispatch_upload demo_storage demo_codecs demo_app demo_context demo_tid [(5, [7])] (demo_created 1) = Some (st', resp) \<and>
     sint (st_storage_bytes (tenant_stats_of demo_tid st')) \<le> 1048576"
proof -
  obtain info where info: "tenant_get demo_storage None demo_tid (demo_created 1) = Inr (Some info)" "tn_capacity_limit_mb info = 1"
    using demo_created_get by blast
  obtain st' resp where up: "dispatch_upload demo_storage demo_codecs demo_app demo_context demo_tid [(5, [7])] (demo_created 1) = Some (st', resp)"
    "sp_ok resp" using demo_upload_accepted by blast
  have "sint (st_storage_bytes (tenant_stats_of demo_tid st')) \<le> sint (tn_capacity_limit_mb info) * 1048576"
    by (rule upload_within_quota [OF demo_storage_ok demo_created_facts _ up]) (use info in \<open>simp_all add: demo_context_def\<close>)
  then show ?thesis using info(2) up(1) by auto
qed

end
