(* ===== verification/P2p_Framing.thy ===== *)
theory P2p_Framing
  imports Dht_Codec Rust_Order
begin

text \<open>
  Messages on the sockets of the peer-to-peer daemon (\<open>kwaai-p2p-daemon/src\<close>: \<open>error.rs\<close>, the framing
  functions of \<open>stream.rs\<close>, \<open>client.rs\<close> and \<open>persistent.rs\<close>, and the request cycle of \<open>P2PClient\<close>):
  a variable-length length followed by the payload. The crate \<open>unsigned-varint\<close> is a record of
  functions; \<open>varint_ok\<close> states its documented format. The four readers of the code interpret
  the contract \<open>frame_codec\<close> of the DHT codec, so that a stream of frames reads back in order.
\<close>

section \<open>Errors\<close>

datatype p2p_error =
    PIo io_error
  | PProcess string
  | PProtobuf string
  | PProtocol string
  | PConnection string
  | PTimeout
  | PNotRunning
  | PInvalidResponse string
  | PStream string
  | PDht string

text \<open>The display text of an error (\<open>thiserror\<close>), given the text of an I/O error.\<close>

fun io_error_text :: "io_error \<Rightarrow> string" where
  "io_error_text UnexpectedEof = ''early eof''"
| "io_error_text (InvalidData s) = s"
| "io_error_text (OtherError s) = s"

fun p2p_error_text :: "p2p_error \<Rightarrow> string" where
  "p2p_error_text (PIo e) = ''IO error: '' @ io_error_text e"
| "p2p_error_text (PProcess s) = ''Daemon process error: '' @ s"
| "p2p_error_text (PProtobuf s) = ''Protobuf error: '' @ s"
| "p2p_error_text (PProtocol s) = ''Protocol error: '' @ s"
| "p2p_error_text (PConnection s) = ''Connection error: '' @ s"
| "p2p_error_text PTimeout = ''Operation timed out''"
| "p2p_error_text PNotRunning = ''Daemon is not running''"
| "p2p_error_text (PInvalidResponse s) = ''Invalid response: '' @ s"
| "p2p_error_text (PStream s) = ''Stream error: '' @ s"
| "p2p_error_text (PDht s) = ''DHT error: '' @ s"

text \<open>
  \<open>String::from_utf8_lossy\<close>: a string is the list of its UTF-8 bytes, and every maximal invalid part is
  replaced by the three bytes of the replacement character. \<open>utf8_head\<close> gives the number of bytes of the
  first part and whether it is valid.
\<close>

definition in_range :: "nat \<Rightarrow> nat \<Rightarrow> bytes \<Rightarrow> nat \<Rightarrow> bool" where
  "in_range lo hi bs i \<longleftrightarrow> i < length bs \<and> lo \<le> unat (bs ! i) \<and> unat (bs ! i) \<le> hi"

definition utf8_head :: "bytes \<Rightarrow> nat \<times> bool" where
  "utf8_head bs =
     (let c = in_range 0x80 0xBF bs in
      if in_range 0 0x7F bs 0 then (1, True)
      else if in_range 0xC2 0xDF bs 0 then (if c 1 then (2, True) else (1, False))
      else if in_range 0xE0 0xEF bs 0 then
        (if in_range 0xE0 0xE0 bs 0 \<and> in_range 0xA0 0xBF bs 1 \<or> in_range 0xE1 0xEC bs 0 \<and> c 1 \<or>
            in_range 0xED 0xED bs 0 \<and> in_range 0x80 0x9F bs 1 \<or> in_range 0xEE 0xEF bs 0 \<and> c 1
         then (if c 2 then (3, True) else (2, False)) else (1, False))
      else if in_range 0xF0 0xF4 bs 0 then
        (if in_range 0xF0 0xF0 bs 0 \<and> in_range 0x90 0xBF bs 1 \<or> in_range 0xF1 0xF3 bs 0 \<and> c 1 \<or>
            in_range 0xF4 0xF4 bs 0 \<and> in_range 0x80 0x8F bs 1
         then (if c 2 then (if c 3 then (4, True) else (3, False)) else (2, False)) else (1, False))
      else (1, False))"

lemma utf8_head_pos: "0 < fst (utf8_head bs)"
  by (simp add: utf8_head_def Let_def)

definition str_bytes :: "string \<Rightarrow> bytes" where
  "str_bytes s = map (\<lambda>c. word_of_nat (of_char c)) s"

definition bytes_str :: "bytes \<Rightarrow> string" where
  "bytes_str bs = map (\<lambda>b. char_of (unat b)) bs"

function from_utf8_lossy :: "bytes \<Rightarrow> string" where
  "from_utf8_lossy bs =
     (if bs = [] then []
      else let (n, valid) = utf8_head bs in
        (if valid then bytes_str (take n bs) else bytes_str [0xEF, 0xBF, 0xBD]) @ from_utf8_lossy (drop n bs))"
  by pat_completeness auto
termination
proof (relation "measure length")
  fix bs :: bytes and x n valid
  assume "bs \<noteq> []" "x = utf8_head bs" "(n, valid) = x"
  then show "(drop n bs, bs) \<in> measure length" using utf8_head_pos [of bs] by (metis diff_less fst_conv in_measure length_drop length_greater_0_conv)
qed simp

declare from_utf8_lossy.simps [simp del]

lemma str_bytes_inverse [simp]: "bytes_str (str_bytes s) = s"
  by (induction s) (simp_all add: bytes_str_def str_bytes_def)

lemma from_utf8_lossy_ascii: "list_all (\<lambda>c. of_char c < (128 :: nat)) s \<Longrightarrow> from_utf8_lossy (str_bytes s) = s"
proof (induction s)
  case (Cons c s)
  have "utf8_head (str_bytes (c # s)) = (1, True)"
    using Cons.prems by (simp add: utf8_head_def in_range_def str_bytes_def)
  moreover have "str_bytes (c # s) = word_of_nat (of_char c) # str_bytes s" by (simp add: str_bytes_def)
  ultimately show ?case
    using Cons by (subst from_utf8_lossy.simps) (simp add: bytes_str_def)
qed (simp add: from_utf8_lossy.simps str_bytes_def)

section \<open>Variable-length integers\<close>

text \<open>The crate \<open>unsigned-varint\<close>: \<open>encode::u64\<close> (and \<open>usize\<close>), \<open>decode::u64\<close> (and \<open>usize\<close>), \<open>io::read_u64\<close>.\<close>

record varint_lib =
  vi_encode :: "nat \<Rightarrow> bytes"
  vi_decode :: "bytes \<Rightarrow> string + (nat \<times> bytes)"
  vi_read_u64 :: "bytes \<Rightarrow> string + nat"

text \<open>
  Its documented format: at most ten bytes, the high bit set on all of them but the last, and both
  decoders read back what was encoded.
\<close>

definition high_bit :: "u8 \<Rightarrow> bool" where
  "high_bit b \<longleftrightarrow> and b 0x80 \<noteq> 0"

definition varint_shape :: "bytes \<Rightarrow> bool" where
  "varint_shape bs \<longleftrightarrow> bs \<noteq> [] \<and> length bs \<le> 10 \<and> list_all high_bit (butlast bs) \<and> \<not> high_bit (last bs)"

definition varint_ok :: "varint_lib \<Rightarrow> bool" where
  "varint_ok V \<longleftrightarrow> (\<forall>n < 2 ^ 64. varint_shape (vi_encode V n) \<and>
     vi_decode V (vi_encode V n) = Inr (n, []) \<and> vi_read_u64 V (vi_encode V n) = Inr n)"

text \<open>The loop that reads the prefix byte by byte, at most ten bytes.\<close>

fun varint_bytes :: "nat \<Rightarrow> bytes \<Rightarrow> io_error + (bytes \<times> bytes)" where
  "varint_bytes 0 io = Inr ([], io)"
| "varint_bytes (Suc n) [] = Inl UnexpectedEof"
| "varint_bytes (Suc n) (b # io) =
     (if \<not> high_bit b then Inr ([b], io)
      else case varint_bytes n io of Inl e \<Rightarrow> Inl e | Inr (bs, r) \<Rightarrow> Inr (b # bs, r))"

section \<open>Writers and readers\<close>

definition write_varint_framed :: "varint_lib \<Rightarrow> bytes \<Rightarrow> bytes" where
  "write_varint_framed V payload = vi_encode V (length payload) @ payload"

definition read_limited :: "varint_lib \<Rightarrow> nat \<Rightarrow> string \<Rightarrow> bytes \<Rightarrow> p2p_error + (bytes \<times> bytes)" where
  "read_limited V limit what io =
     (case varint_bytes 10 io of
        Inl e \<Rightarrow> Inl (PIo e)
      | Inr (len_bytes, io1) \<Rightarrow>
          (case vi_read_u64 V len_bytes of
             Inl e \<Rightarrow> Inl (PProtocol (''Failed to decode varint: '' @ e))
           | Inr len \<Rightarrow>
               if len > limit then Inl (PProtocol (what @ '' too large: '' @ show_nat len @ '' bytes''))
               else case read_exact len io1 of
                 Inl e \<Rightarrow> Inl (PIo e)
               | Inr r \<Rightarrow> Inr r))"

definition read_varint_framed :: "varint_lib \<Rightarrow> bytes \<Rightarrow> p2p_error + (bytes \<times> bytes)" where
  "read_varint_framed V = read_limited V (100 * 1024 * 1024) ''Message''"

definition read_framed :: "varint_lib \<Rightarrow> bytes \<Rightarrow> p2p_error + (bytes \<times> bytes)" where
  "read_framed V = read_limited V (10 * 1024 * 1024) ''Message''"

text \<open>
  The information that the daemon sends before a forwarded stream; \<open>StreamInfo::decode\<close> is a
  parameter.
\<close>

record stream_info =
  si_peer :: bytes
  si_addr :: bytes
  si_proto :: string

definition parse_stream_info ::
    "varint_lib \<Rightarrow> (bytes \<Rightarrow> string + stream_info) \<Rightarrow> bytes \<Rightarrow> p2p_error + (stream_info \<times> bytes)" where
  "parse_stream_info V dec io =
     (case read_limited V (10 * 1024 * 1024) ''StreamInfo'' io of
        Inl e \<Rightarrow> Inl e
      | Inr (payload, rest) \<Rightarrow>
          (case dec payload of
             Inl e \<Rightarrow> Inl (PProtocol (''Failed to decode StreamInfo: '' @ e))
           | Inr info \<Rightarrow> Inr (info, rest)))"

text \<open>
  The reader of the persistent connection has no limit of its own: \<open>vec![0u8; length]\<close> panics when the
  length exceeds \<open>isize::MAX\<close>, which is \<open>None\<close> here. The same holds for the reader of the upgrade
  response.
\<close>

definition isize_max :: nat where
  "isize_max = 2 ^ 63 - 1"

definition read_varint_message :: "varint_lib \<Rightarrow> bytes \<Rightarrow> (p2p_error + (bytes \<times> bytes)) option" where
  "read_varint_message V io =
     (case varint_bytes 10 io of
        Inl e \<Rightarrow> Some (Inl (PIo e))
      | Inr (length_buf, io1) \<Rightarrow>
          (case (if high_bit (last length_buf) then Inr 0
                 else case vi_decode V length_buf of
                   Inl e \<Rightarrow> Inl (PProtocol (''Invalid varint: '' @ e)) | Inr (len, _) \<Rightarrow> Inr len) of
             Inl e \<Rightarrow> Some (Inl e)
           | Inr len \<Rightarrow>
               if len = 0 then Some (Inl (PProtocol ''Invalid varint length''))
               else if len > isize_max then None
               else case read_exact len io1 of
                 Inl e \<Rightarrow> Some (Inl (PIo e))
               | Inr r \<Rightarrow> Some (Inr r)))"

definition read_varint_framed_static :: "varint_lib \<Rightarrow> bytes \<Rightarrow> (p2p_error + (bytes \<times> bytes)) option" where
  "read_varint_framed_static V io =
     (case varint_bytes 10 io of
        Inl e \<Rightarrow> Some (Inl (PIo e))
      | Inr (len_bytes, io1) \<Rightarrow>
          (case vi_decode V len_bytes of
             Inl e \<Rightarrow> Some (Inl (PProtocol (''Failed to decode varint length: '' @ e)))
           | Inr (len, _) \<Rightarrow>
               if len > isize_max then None
               else case read_exact len io1 of
                 Inl e \<Rightarrow> Some (Inl (PIo e))
               | Inr r \<Rightarrow> Some (Inr r)))"

section \<open>Frames read back\<close>

lemma varint_bytes_shape:
  "bs \<noteq> [] \<Longrightarrow> length bs \<le> n \<Longrightarrow> list_all high_bit (butlast bs) \<Longrightarrow> \<not> high_bit (last bs) \<Longrightarrow>
     varint_bytes n (bs @ rest) = Inr (bs, rest)"
proof (induction n arbitrary: bs)
  case (Suc n)
  then obtain b bs' where "bs = b # bs'" by (cases bs) auto
  with Suc show ?case by (cases "bs' = []") auto
qed simp

lemma varint_prefix:
  assumes "varint_ok V" "n < 2 ^ 64"
  shows "varint_bytes 10 (vi_encode V n @ rest) = Inr (vi_encode V n, rest)"
    "\<not> high_bit (last (vi_encode V n))" "vi_decode V (vi_encode V n) = Inr (n, [])" "vi_read_u64 V (vi_encode V n) = Inr n"
  using assms varint_bytes_shape [of "vi_encode V n" 10 rest] by (auto simp: varint_ok_def varint_shape_def)

lemma read_limited_frame:
  assumes "varint_ok V" "length m \<le> limit" "limit < 2 ^ 64"
  shows "read_limited V limit what (write_varint_framed V m @ rest) = Inr (m, rest)"
proof -
  have l: "length m < 2 ^ 64" using assms(2,3) by (rule le_less_trans)
  show ?thesis
    using assms(2) varint_prefix [OF assms(1) l]
    by (simp add: read_limited_def write_varint_framed_def read_exact_append)
qed

lemma read_message_frame:
  assumes "varint_ok V" "m \<noteq> []" "length m \<le> isize_max"
  shows "read_varint_message V (write_varint_framed V m @ rest) = Some (Inr (m, rest))"
proof -
  have l: "length m < 2 ^ 64" using assms(3) by (simp add: isize_max_def)
  show ?thesis
    using assms(2,3) varint_prefix [OF assms(1) l]
    by (simp add: read_varint_message_def write_varint_framed_def read_exact_append)
qed

lemma read_static_frame:
  assumes "varint_ok V" "length m \<le> isize_max"
  shows "read_varint_framed_static V (write_varint_framed V m @ rest) = Some (Inr (m, rest))"
proof -
  have l: "length m < 2 ^ 64" using assms(2) by (simp add: isize_max_def)
  show ?thesis
    using assms(2) varint_prefix [OF assms(1) l]
    by (simp add: read_varint_framed_static_def write_varint_framed_def read_exact_append)
qed

interpretation data_frames: frame_codec
  "\<lambda>m. varint_ok V \<and> length m \<le> 100 * 1024 * 1024" "write_varint_framed V" "read_varint_framed V" for V
  by unfold_locales (simp add: read_varint_framed_def read_limited_frame)

interpretation daemon_frames: frame_codec
  "\<lambda>m. varint_ok V \<and> length m \<le> 10 * 1024 * 1024" "write_varint_framed V" "read_framed V" for V
  by unfold_locales (simp add: read_framed_def read_limited_frame)

interpretation persistent_frames: frame_codec
  "\<lambda>m. varint_ok V \<and> m \<noteq> [] \<and> length m \<le> isize_max" "write_varint_framed V" "\<lambda>io. the (read_varint_message V io)" for V
  by unfold_locales (simp add: read_message_frame)

section \<open>A concrete encoding\<close>

text \<open>The little-endian base-128 format, as an instance of \<open>varint_ok\<close>.\<close>

definition cont_byte :: "nat \<Rightarrow> u8" where
  "cont_byte n = word_of_nat (n mod 128 + 128)"

fun leb :: "nat \<Rightarrow> bytes" where
  "leb n = (if n < 128 then [word_of_nat n] else cont_byte n # leb (n div 128))"

fun unleb :: "bytes \<Rightarrow> string + (nat \<times> bytes)" where
  "unleb [] = Inl ''Insufficient''"
| "unleb (b # bs) =
     (if high_bit b
      then case unleb bs of Inl e \<Rightarrow> Inl e | Inr (v, r) \<Rightarrow> Inr (unat b - 128 + 128 * v, r)
      else Inr (unat b, bs))"

declare leb.simps [simp del]

definition demo_varint :: varint_lib where
  "demo_varint = \<lparr>vi_encode = leb, vi_decode = unleb,
     vi_read_u64 = (\<lambda>bs. case unleb bs of Inl e \<Rightarrow> Inl e | Inr (v, _) \<Rightarrow> Inr v)\<rparr>"

lemma high_bit_iff: "high_bit b \<longleftrightarrow> 128 \<le> unat b"
proof -
  have "high_bit b \<longleftrightarrow> bit b 7"
    using and_exp_eq_0_iff_not_bit [of b 7] by (simp add: high_bit_def)
  also have "\<dots> \<longleftrightarrow> bit (unat b) 7" by (simp add: bit_unsigned_iff)
  also have "\<dots> \<longleftrightarrow> odd (unat b div 128)" by (simp add: bit_iff_odd)
  also have "\<dots> \<longleftrightarrow> 128 \<le> unat b"
  proof -
    have "unat b < 256" using unsigned_less [of b] by simp
    then have "unat b div 128 < 2" by (simp add: div_less_iff_less_mult)
    then have "unat b div 128 = 0 \<or> unat b div 128 = 1" by auto
    then show ?thesis by (auto simp: div_eq_0_iff)
  qed
  finally show ?thesis .
qed

lemma high_bit_leb:
  "n < 128 \<Longrightarrow> \<not> high_bit (word_of_nat n)" "high_bit (cont_byte n)" "unat (cont_byte n) = n mod 128 + 128"
proof -
  show "unat (cont_byte n) = n mod 128 + 128"
    unfolding cont_byte_def by (subst unat_byte_of_nat) (simp add: mod_less)
  then show "high_bit (cont_byte n)" by (simp add: high_bit_iff)
  show "\<not> high_bit (word_of_nat n)" if "n < 128" using that by (simp add: high_bit_iff)
qed

lemma unleb_leb: "unleb (leb n @ rest) = Inr (n, rest)"
proof (induction n rule: leb.induct)
  case (1 n)
  then show ?case by (subst leb.simps) (auto simp: high_bit_leb)
qed

lemma leb_shape: "n < 128 ^ Suc k \<Longrightarrow> leb n \<noteq> [] \<and> length (leb n) \<le> Suc k \<and> list_all high_bit (butlast (leb n)) \<and> \<not> high_bit (last (leb n))"
proof (induction k arbitrary: n)
  case 0
  then show ?case by (simp add: leb.simps [of n] high_bit_leb)
next
  case (Suc k)
  show ?case
  proof (cases "n < 128")
    case False
    have "n div 128 < 128 ^ Suc k" using Suc.prems by (simp add: div_less_iff_less_mult mult.commute)
    from Suc.IH [OF this] False show ?thesis by (subst (1 2 3 4) leb.simps) (simp add: high_bit_leb)
  qed (simp add: leb.simps [of n] high_bit_leb)
qed

lemma demo_varint_ok: "varint_ok demo_varint"
proof -
  have "varint_shape (leb n)" if "n < 2 ^ 64" for n
  proof -
    have "n < 128 ^ Suc 9" using that by simp
    from leb_shape [OF this] show ?thesis by (simp add: varint_shape_def)
  qed
  moreover have "unleb (leb n) = Inr (n, [])" for n using unleb_leb [of n "[]"] by simp
  ultimately show ?thesis by (simp add: varint_ok_def demo_varint_def)
qed

end
