(* ===== verification/P2p_Persistent.thy ===== *)
theory P2p_Persistent
  imports P2p_Framing Block_Rpc "HOL-Library.Multiset"
begin

text \<open>
  The persistent connection to the daemon (\<open>kwaai-p2p-daemon/src/persistent.rs\<close>): one socket that all
  remote calls and all incoming requests share. The state has the bytes still to be read, what was
  written, the table of pending calls, one oneshot channel per call, the registered handlers and
  the handler tasks that run. The tasks of the program interleave: an event is what one task does
  between two points where it waits, and a run is any sequence of events.

  A call of \<open>call_unary\<close>, \<open>add_unary_handler\<close> or \<open>remove_unary_handler\<close> is the events \<open>Begin\<close> (its entry in the
  pending table), \<open>SendRequest\<close> (its message; when the write fails the call returns the error at once
  and its entry stays behind) and the reading of its channel. The iterations of
  the reader task are \<open>Read\<close> when a message is complete, and \<open>ReadFails\<close> when the socket reports an error or
  its end. Handlers are opaque; \<open>HandlerDone\<close> is the end of one with its result, and \<open>HandlerPanics\<close> the
  end of one whose task panicked, which sends no answer.
\<close>

section \<open>Messages\<close>

datatype unary_result = UnaryOk bytes | UnaryError bytes

record call_unary_request =
  cu_peer :: bytes
  cu_proto :: string
  cu_data :: bytes

datatype pc_request_message =
    AddUnaryHandler string bool
  | RemoveUnaryHandler string
  | CallUnary call_unary_request
  | UnaryResponse "unary_result option"
  | CancelRequest

record pc_request =
  pcq_call_id :: bytes
  pcq_message :: "pc_request_message option"

datatype pc_response_message =
    CallUnaryResponse "unary_result option"
  | RequestHandling call_unary_request
  | DaemonError "string option"
  | CancelResponse

record pc_response =
  pcr_call_id :: bytes
  pcr_message :: "pc_response_message option"

text \<open>The protobuf library and the variable-length integers.\<close>

record pc_lib =
  pl_varint :: varint_lib
  pl_enc_req :: "pc_request \<Rightarrow> bytes"
  pl_dec_req :: "bytes \<Rightarrow> string + pc_request"
  pl_enc_res :: "pc_response \<Rightarrow> bytes"
  pl_dec_res :: "bytes \<Rightarrow> string + pc_response"

text \<open>The documented round trip of the protobuf library, for one message; an encoding is never empty
  because the call id is a required field.\<close>

definition pc_request_ok :: "pc_lib \<Rightarrow> pc_request \<Rightarrow> bool" where
  "pc_request_ok L m \<longleftrightarrow> pl_dec_req L (pl_enc_req L m) = Inr m \<and> pl_enc_req L m \<noteq> []"

definition pc_response_ok :: "pc_lib \<Rightarrow> pc_response \<Rightarrow> bool" where
  "pc_response_ok L m \<longleftrightarrow> pl_dec_res L (pl_enc_res L m) = Inr m \<and> pl_enc_res L m \<noteq> [] \<and>
     length (pl_enc_res L m) \<le> isize_max"

section \<open>State\<close>

text \<open>A oneshot channel, from the side of its receiver.\<close>

datatype slot = Waiting | Sent "p2p_error + pc_response" | Dropped

text \<open>What reached the socket: a whole message, or the first bytes of one when a write failed.\<close>

datatype written = Whole pc_request | Partial pc_request nat

type_synonym fault = "(nat \<times> io_error) option"

text \<open>How far a call is: registered, its request written, or ended by the error of that write.\<close>

datatype caller = CallRegistered | CallSent | CallFailed p2p_error

record 'h connection =
  pc_input :: bytes
  pc_output :: "written list"
  pc_alive :: bool
  pc_pending :: "(uuid, nat) hashmap"
  pc_channels :: "slot list"
  pc_callers :: "(uuid \<times> caller) list"
  pc_handlers :: "(string, 'h) hashmap"
  pc_tasks :: "(bytes \<times> 'h \<times> bytes) list"

definition connection_new :: "'h connection" where
  "connection_new = \<lparr>pc_input = [], pc_output = [], pc_alive = True, pc_pending = [], pc_channels = [],
     pc_callers = [], pc_handlers = [], pc_tasks = []\<rparr>"

fun written_bytes :: "pc_lib \<Rightarrow> written \<Rightarrow> bytes" where
  "written_bytes L (Whole m) = write_varint_framed (pl_varint L) (pl_enc_req L m)"
| "written_bytes L (Partial m k) = take k (write_varint_framed (pl_varint L) (pl_enc_req L m))"

definition write_varint_message :: "fault \<Rightarrow> pc_request \<Rightarrow> 'h connection \<Rightarrow> 'h connection \<times> (p2p_error + unit)" where
  "write_varint_message fault msg st =
     (case fault of
        None \<Rightarrow> (st\<lparr>pc_output := pc_output st @ [Whole msg]\<rparr>, Inr ())
      | Some (k, e) \<Rightarrow> (st\<lparr>pc_output := pc_output st @ [Partial msg k]\<rparr>, Inl (PIo e)))"

definition is_alive :: "'h connection \<Rightarrow> bool" where
  "is_alive st = pc_alive st"

text \<open>Dropping the connection aborts the reader task.\<close>

definition drop_connection :: "'h connection \<Rightarrow> 'h connection" where
  "drop_connection st = st\<lparr>pc_alive := False\<rparr>"

section \<open>Calls\<close>

definition send_slot :: "nat \<Rightarrow> p2p_error + pc_response \<Rightarrow> 'h connection \<Rightarrow> 'h connection" where
  "send_slot n r st = st\<lparr>pc_channels := (pc_channels st)[n := Sent r]\<rparr>"

text \<open>
  \<open>calls.insert(call_id, tx)\<close>: the call and its channel get the next number. A sender that was stored
  under the same id is dropped.
\<close>

definition register_call :: "uuid \<Rightarrow> 'h connection \<Rightarrow> 'h connection" where
  "register_call call_id st =
     (let n = length (pc_channels st);
          channels = (case hm_get (pc_pending st) call_id of None \<Rightarrow> pc_channels st | Some m \<Rightarrow> (pc_channels st)[m := Dropped])
      in st\<lparr>pc_channels := channels @ [Waiting], pc_callers := pc_callers st @ [(call_id, CallRegistered)],
          pc_pending := hm_insert call_id n (pc_pending st)\<rparr>)"

datatype call_request = CallReq bytes string bytes | AddReq string bool | RemoveReq string

fun request_message :: "uuid \<Rightarrow> call_request \<Rightarrow> pc_request" where
  "request_message call_id (CallReq peer_id proto data) =
     \<lparr>pcq_call_id = call_id, pcq_message = Some (CallUnary \<lparr>cu_peer = peer_id, cu_proto = proto, cu_data = data\<rparr>)\<rparr>"
| "request_message call_id (AddReq proto balanced) =
     \<lparr>pcq_call_id = call_id, pcq_message = Some (AddUnaryHandler proto balanced)\<rparr>"
| "request_message call_id (RemoveReq proto) =
     \<lparr>pcq_call_id = call_id, pcq_message = Some (RemoveUnaryHandler proto)\<rparr>"

text \<open>
  The write of the request of call \<open>n\<close>. The \<open>?\<close> on it ends a call whose write fails; the entry of the call
  stays in the pending table.
\<close>

definition call_send :: "fault \<Rightarrow> nat \<Rightarrow> call_request \<Rightarrow> 'h connection \<Rightarrow> 'h connection option" where
  "call_send fault n req st =
     (case vec_get (pc_callers st) n of
        Some (call_id, CallRegistered) \<Rightarrow>
          (case write_varint_message fault (request_message call_id req) st of
             (st', Inl e) \<Rightarrow> Some (st'\<lparr>pc_callers := (pc_callers st)[n := (call_id, CallFailed e)]\<rparr>)
           | (st', Inr _) \<Rightarrow> Some (st'\<lparr>pc_callers := (pc_callers st)[n := (call_id, CallSent)]\<rparr>))
      | _ \<Rightarrow> None)"

text \<open>\<open>rx.await\<close>: nothing while the call waits.\<close>

fun receive :: "slot \<Rightarrow> (p2p_error + pc_response) option" where
  "receive Waiting = None"
| "receive Dropped = Some (Inl (PProtocol ''Response channel closed''))"
| "receive (Sent r) = Some r"

definition unary_outcome :: "p2p_error + pc_response \<Rightarrow> p2p_error + bytes" where
  "unary_outcome x =
     (case x of
        Inl e \<Rightarrow> Inl e
      | Inr response \<Rightarrow>
          (case pcr_message response of
             Some (CallUnaryResponse (Some (UnaryOk data))) \<Rightarrow> Inr data
           | Some (CallUnaryResponse (Some (UnaryError err))) \<Rightarrow>
               Inl (PProtocol (''Remote handler error: '' @ from_utf8_lossy err))
           | Some (CallUnaryResponse None) \<Rightarrow> Inl (PProtocol ''Empty unary response'')
           | Some (DaemonError m) \<Rightarrow> Inl (PProtocol (''Daemon error: '' @ unwrap_or m ''Unknown error''))
           | _ \<Rightarrow> Inl (PProtocol ''Unexpected response type'')))"

definition call_unary_finish :: "slot \<Rightarrow> (p2p_error + bytes) option" where
  "call_unary_finish slot = map_option unary_outcome (receive slot)"

text \<open>What \<open>call_unary\<close> has returned to the caller of call \<open>n\<close>, if it has returned.\<close>

definition call_result :: "nat \<Rightarrow> 'h connection \<Rightarrow> (p2p_error + bytes) option" where
  "call_result n st =
     (case vec_get (pc_callers st) n of
        Some (_, CallSent) \<Rightarrow> Option.bind (vec_get (pc_channels st) n) call_unary_finish
      | Some (_, CallFailed e) \<Rightarrow> Some (Inl e)
      | _ \<Rightarrow> None)"

text \<open>The channel of call \<open>n\<close>, for a call that awaits it.\<close>

definition awaited_slot :: "nat \<Rightarrow> 'h connection \<Rightarrow> slot option" where
  "awaited_slot n st =
     (case vec_get (pc_callers st) n of Some (_, CallSent) \<Rightarrow> vec_get (pc_channels st) n | _ \<Rightarrow> None)"

definition handler_reply :: "string \<Rightarrow> p2p_error + pc_response \<Rightarrow> p2p_error + unit" where
  "handler_reply what x =
     (case x of
        Inl e \<Rightarrow> Inl e
      | Inr response \<Rightarrow>
          (case pcr_message response of
             Some (DaemonError m) \<Rightarrow> Inl (PProtocol (what @ unwrap_or m ''Unknown error''))
           | _ \<Rightarrow> Inr ()))"

definition add_unary_handler_finish ::
    "string \<Rightarrow> 'h \<Rightarrow> slot \<Rightarrow> 'h connection \<Rightarrow> ('h connection \<times> (p2p_error + unit)) option" where
  "add_unary_handler_finish proto handler slot st =
     map_option (\<lambda>x. case handler_reply ''Failed to add handler: '' x of
         Inl e \<Rightarrow> (st, Inl e)
       | Inr _ \<Rightarrow> (st\<lparr>pc_handlers := hm_insert proto handler (pc_handlers st)\<rparr>, Inr ())) (receive slot)"

definition remove_unary_handler_finish ::
    "string \<Rightarrow> slot \<Rightarrow> 'h connection \<Rightarrow> ('h connection \<times> (p2p_error + unit)) option" where
  "remove_unary_handler_finish proto slot st =
     map_option (\<lambda>x. case handler_reply ''Failed to remove handler: '' x of
         Inl e \<Rightarrow> (st, Inl e)
       | Inr _ \<Rightarrow> (st\<lparr>pc_handlers := hm_remove proto (pc_handlers st)\<rparr>, Inr ())) (receive slot)"

section \<open>The reader task\<close>

definition reader_closed :: "p2p_error \<Rightarrow> 'h connection \<Rightarrow> 'h connection" where
  "reader_closed e st =
     (foldl (\<lambda>s (_, n). send_slot n (Inl (PProtocol (''connection closed: '' @ p2p_error_text e))) s) st (pc_pending st))
       \<lparr>pc_pending := [], pc_alive := False\<rparr>"

definition complete_call :: "uuid \<Rightarrow> pc_response \<Rightarrow> 'h connection \<Rightarrow> 'h connection" where
  "complete_call call_id response st =
     (case hm_get (pc_pending st) call_id of
        Some n \<Rightarrow> send_slot n (Inr response) (st\<lparr>pc_pending := hm_remove call_id (pc_pending st)\<rparr>)
      | None \<Rightarrow> st)"

definition unary_response :: "bytes \<Rightarrow> unary_result \<Rightarrow> pc_request" where
  "unary_response call_id r = \<lparr>pcq_call_id = call_id, pcq_message = Some (UnaryResponse (Some r))\<rparr>"

definition handle_incoming :: "fault \<Rightarrow> bytes \<Rightarrow> call_unary_request \<Rightarrow> 'h connection \<Rightarrow> 'h connection" where
  "handle_incoming fault call_id req st =
     (case hm_get (pc_handlers st) (cu_proto req) of
        Some handler \<Rightarrow> st\<lparr>pc_tasks := pc_tasks st @ [(call_id, handler, cu_data req)]\<rparr>
      | None \<Rightarrow> fst (write_varint_message fault
          (unary_response call_id (UnaryError (str_bytes (''handler for protocol '' @ cu_proto req @ '' not found'')))) st))"

definition dispatch_response :: "fault \<Rightarrow> pc_response \<Rightarrow> 'h connection \<Rightarrow> 'h connection" where
  "dispatch_response fault response st =
     (case uuid_from_slice (pcr_call_id response) of
        None \<Rightarrow> st
      | Some call_id \<Rightarrow>
          (case pcr_message response of
             Some (RequestHandling req) \<Rightarrow> handle_incoming fault (pcr_call_id response) req st
           | _ \<Rightarrow> complete_call call_id response st))"

definition handle_frame :: "pc_lib \<Rightarrow> fault \<Rightarrow> bytes \<Rightarrow> 'h connection \<Rightarrow> 'h connection" where
  "handle_frame L fault msg_bytes st =
     (case pl_dec_res L msg_bytes of Inl _ \<Rightarrow> st | Inr response \<Rightarrow> dispatch_response fault response st)"

text \<open>
  One iteration of the reader. It waits (\<open>None\<close>) while the message is incomplete; an oversized length
  makes the task panic, which leaves the pending table as it is.
\<close>

definition reader_step :: "pc_lib \<Rightarrow> fault \<Rightarrow> 'h connection \<Rightarrow> 'h connection option" where
  "reader_step L fault st =
     (case read_varint_message (pl_varint L) (pc_input st) of
        None \<Rightarrow> Some (st\<lparr>pc_alive := False\<rparr>)
      | Some (Inl (PIo _)) \<Rightarrow> None
      | Some (Inl e) \<Rightarrow> Some (reader_closed e st)
      | Some (Inr (msg_bytes, rest)) \<Rightarrow> Some (handle_frame L fault msg_bytes (st\<lparr>pc_input := rest\<rparr>)))"

text \<open>The end of a handler task: its answer carries the call id of its request.\<close>

definition handler_done :: "nat \<Rightarrow> p2p_error + bytes \<Rightarrow> fault \<Rightarrow> 'h connection \<Rightarrow> 'h connection option" where
  "handler_done i result fault st =
     (if i < length (pc_tasks st)
      then let call_id = fst (pc_tasks st ! i);
               r = (case result of Inr data \<Rightarrow> UnaryOk data | Inl e \<Rightarrow> UnaryError (str_bytes (p2p_error_text e)))
           in Some (fst (write_varint_message fault (unary_response call_id r)
                (st\<lparr>pc_tasks := take i (pc_tasks st) @ drop (Suc i) (pc_tasks st)\<rparr>)))
      else None)"

text \<open>A handler task that panics: nothing awaits the task, so no answer is sent.\<close>

definition handler_panics :: "nat \<Rightarrow> 'h connection \<Rightarrow> 'h connection option" where
  "handler_panics i st =
     (if i < length (pc_tasks st) then Some (st\<lparr>pc_tasks := take i (pc_tasks st) @ drop (Suc i) (pc_tasks st)\<rparr>) else None)"

section \<open>Runs\<close>

datatype 'h event =
    Arrive bytes
  | Read fault
  | ReadFails io_error
  | Begin uuid
  | SendRequest fault nat call_request
  | FinishAdd string 'h nat
  | FinishRemove string nat
  | HandlerDone nat "p2p_error + bytes" fault
  | HandlerPanics nat

fun conn_step :: "pc_lib \<Rightarrow> 'h event \<Rightarrow> 'h connection \<Rightarrow> 'h connection option" where
  "conn_step L (Arrive bs) st = Some (st\<lparr>pc_input := pc_input st @ bs\<rparr>)"
| "conn_step L (Read fault) st = (if pc_alive st then reader_step L fault st else None)"
| "conn_step L (ReadFails e) st = (if pc_alive st then Some (reader_closed (PIo e) st) else None)"
| "conn_step L (Begin call_id) st = Some (register_call call_id st)"
| "conn_step L (SendRequest fault n req) st = call_send fault n req st"
| "conn_step L (FinishAdd proto handler n) st =
     Option.bind (awaited_slot n st) (\<lambda>slot. map_option fst (add_unary_handler_finish proto handler slot st))"
| "conn_step L (FinishRemove proto n) st =
     Option.bind (awaited_slot n st) (\<lambda>slot. map_option fst (remove_unary_handler_finish proto slot st))"
| "conn_step L (HandlerDone i result fault) st = handler_done i result fault st"
| "conn_step L (HandlerPanics i) st = handler_panics i st"

fun conn_run :: "pc_lib \<Rightarrow> 'h event list \<Rightarrow> 'h connection \<Rightarrow> 'h connection option" where
  "conn_run L [] st = Some st"
| "conn_run L (ev # evs) st = Option.bind (conn_step L ev st) (conn_run L evs)"

lemma conn_run_append: "conn_run L (evs @ evs') st = Option.bind (conn_run L evs st) (conn_run L evs')"
proof (induction evs arbitrary: st)
  case (Cons ev evs)
  then show ?case by (cases "conn_step L ev st") simp_all
qed simp

text \<open>The ids of the calls that a run begins, in the order of their channels.\<close>

fun begun :: "'h event list \<Rightarrow> uuid list" where
  "begun [] = []"
| "begun (Begin call_id # evs) = call_id # begun evs"
| "begun (_ # evs) = begun evs"

section \<open>The table of pending calls\<close>

text \<open>
  The invariant, for the ids of the calls begun so far: the pending table has exactly the calls that
  wait, each under its own id, every call has a channel, and a response that was sent to a call carries the id of the call.
\<close>

definition is_request :: "pc_response \<Rightarrow> bool" where
  "is_request r \<longleftrightarrow> (\<exists>req. pcr_message r = Some (RequestHandling req))"

definition conn_inv :: "uuid list \<Rightarrow> 'h connection \<Rightarrow> bool" where
  "conn_inv ids st \<longleftrightarrow> length (pc_channels st) = length ids \<and> map fst (pc_callers st) = ids \<and> hm_wf (pc_pending st) \<and>
     (\<forall>call_id n. hm_get (pc_pending st) call_id = Some n \<longrightarrow> n < length ids \<and> ids ! n = call_id \<and> pc_channels st ! n = Waiting) \<and>
     (\<forall>n < length ids. pc_channels st ! n = Waiting \<longrightarrow> hm_get (pc_pending st) (ids ! n) = Some n) \<and>
     (\<forall>n < length ids. \<forall>r. pc_channels st ! n = Sent (Inr r) \<longrightarrow> uuid_from_slice (pcr_call_id r) = Some (ids ! n) \<and> \<not> is_request r)"

lemma conn_inv_new: "conn_inv [] connection_new"
  by (simp add: conn_inv_def connection_new_def)

lemma conn_invD:
  assumes "conn_inv ids st"
  shows "length (pc_channels st) = length ids" "hm_wf (pc_pending st)"
    "hm_get (pc_pending st) call_id = Some n \<Longrightarrow> n < length ids \<and> ids ! n = call_id \<and> pc_channels st ! n = Waiting"
    "n < length ids \<Longrightarrow> pc_channels st ! n = Waiting \<Longrightarrow> hm_get (pc_pending st) (ids ! n) = Some n"
    "n < length ids \<Longrightarrow> pc_channels st ! n = Sent (Inr r) \<Longrightarrow> uuid_from_slice (pcr_call_id r) = Some (ids ! n) \<and> \<not> is_request r"
    "map fst (pc_callers st) = ids"
  using assms by (simp_all add: conn_inv_def)

lemma conn_inv_frame:
  "pc_channels st' = pc_channels st \<Longrightarrow> pc_pending st' = pc_pending st \<Longrightarrow> map fst (pc_callers st') = map fst (pc_callers st) \<Longrightarrow>
     conn_inv ids st' = conn_inv ids st"
  by (simp add: conn_inv_def)

lemma write_keeps [simp]:
  "pc_channels (fst (write_varint_message fault m st)) = pc_channels st"
  "pc_pending (fst (write_varint_message fault m st)) = pc_pending st"
  "pc_alive (fst (write_varint_message fault m st)) = pc_alive st"
  "pc_tasks (fst (write_varint_message fault m st)) = pc_tasks st"
  "pc_callers (fst (write_varint_message fault m st)) = pc_callers st"
  by (auto simp: write_varint_message_def split: option.split)

lemma incoming_keeps [simp]:
  "pc_channels (handle_incoming fault c req st) = pc_channels st"
  "pc_pending (handle_incoming fault c req st) = pc_pending st"
  "pc_callers (handle_incoming fault c req st) = pc_callers st"
  by (auto simp: handle_incoming_def split: option.split)

lemma handler_done_keeps:
  "handler_done i result fault st = Some st' \<Longrightarrow>
     pc_channels st' = pc_channels st \<and> pc_pending st' = pc_pending st \<and> pc_alive st' = pc_alive st \<and> pc_callers st' = pc_callers st"
  "handler_panics i st = Some st' \<Longrightarrow>
     pc_channels st' = pc_channels st \<and> pc_pending st' = pc_pending st \<and> pc_alive st' = pc_alive st \<and> pc_callers st' = pc_callers st"
  by (auto simp: handler_done_def handler_panics_def Let_def split: if_splits)

lemma call_send_keeps:
  assumes "call_send fault n req st = Some st'"
  shows "pc_channels st' = pc_channels st \<and> pc_pending st' = pc_pending st \<and> pc_alive st' = pc_alive st \<and>
     map fst (pc_callers st') = map fst (pc_callers st) \<and> pc_tasks st' = pc_tasks st"
  using assms
  by (auto simp: call_send_def write_varint_message_def vec_get_def map_update list_update_same_conv
      split: option.splits if_splits caller.splits)

lemma finish_keeps:
  "add_unary_handler_finish p h slot st = Some (st', b) \<Longrightarrow>
     pc_channels st' = pc_channels st \<and> pc_pending st' = pc_pending st \<and> pc_alive st' = pc_alive st \<and> pc_tasks st' = pc_tasks st \<and> pc_output st' = pc_output st \<and>
     pc_callers st' = pc_callers st"
  "remove_unary_handler_finish p slot st = Some (st', b) \<Longrightarrow>
     pc_channels st' = pc_channels st \<and> pc_pending st' = pc_pending st \<and> pc_alive st' = pc_alive st \<and> pc_tasks st' = pc_tasks st \<and> pc_output st' = pc_output st \<and>
     pc_callers st' = pc_callers st"
  by (cases "receive slot"; auto simp: add_unary_handler_finish_def remove_unary_handler_finish_def split: sum.splits)+

lemma nth_update: "n < length xs \<Longrightarrow> xs[m := x] ! n = (if m = n then x else xs ! n)"
  by (cases "m < length xs") (auto simp: nth_list_update)

lemma drain_channels:
  fixes st :: "'h connection" and x :: "p2p_error + pc_response"
  defines "drained ps \<equiv> foldl (\<lambda>s (c :: uuid, n). send_slot n x s) st ps"
  shows "length (pc_channels (drained ps)) = length (pc_channels st) \<and> pc_output (drained ps) = pc_output st \<and>
     pc_tasks (drained ps) = pc_tasks st \<and> pc_callers (drained ps) = pc_callers st \<and>
     (\<forall>n < length (pc_channels st). pc_channels (drained ps) ! n = (if n \<in> snd ` set ps then Sent x else pc_channels st ! n))"
  unfolding drained_def
  by (induction ps rule: rev_induct) (simp_all add: send_slot_def nth_update case_prod_beta)

lemma closed_channel:
  assumes "conn_inv ids st" "n < length ids"
  shows "pc_channels (reader_closed e st) ! n =
    (if pc_channels st ! n = Waiting then Sent (Inl (PProtocol (''connection closed: '' @ p2p_error_text e))) else pc_channels st ! n)"
proof -
  have "n \<in> snd ` set (pc_pending st) \<longleftrightarrow> pc_channels st ! n = Waiting"
    using conn_invD(3,4) [OF assms(1)] assms(2) hm_get_in_set [OF conn_invD(2) [OF assms(1)]] by (force simp: image_iff)
  then show ?thesis
    using drain_channels [where st = st and ps = "pc_pending st"] conn_invD(1) [OF assms(1)] assms(2)
    by (simp add: reader_closed_def)
qed

lemma inv_closed:
  assumes "conn_inv ids st"
  shows "conn_inv ids (reader_closed e st)"
proof -
  have "length (pc_channels (reader_closed e st)) = length ids" "pc_pending (reader_closed e st) = []"
    "map fst (pc_callers (reader_closed e st)) = ids"
    using drain_channels [where st = st and ps = "pc_pending st"] conn_invD(1,6) [OF assms] by (simp_all add: reader_closed_def)
  then show ?thesis
    using closed_channel [OF assms, of _ e] conn_invD(5) [OF assms] by (auto simp: conn_inv_def)
qed

lemma pending_inj:
  "conn_inv ids st \<Longrightarrow> hm_get (pc_pending st) c = Some n \<Longrightarrow> hm_get (pc_pending st) c' = Some n \<Longrightarrow> c = c'"
  using conn_invD(3) by metis

lemma inv_complete:
  assumes inv: "conn_inv ids st" and id: "uuid_from_slice (pcr_call_id r) = Some call_id" "\<not> is_request r"
  shows "conn_inv ids (complete_call call_id r st)"
proof (cases "hm_get (pc_pending st) call_id")
  case (Some m)
  let ?st = "complete_call call_id r st"
  have m: "m < length ids" "ids ! m = call_id" using conn_invD(3) [OF inv Some] by simp_all
  have P: "hm_get (pc_pending ?st) c = (if c = call_id then None else hm_get (pc_pending st) c)" for c
    using Some by (simp add: complete_call_def send_slot_def)
  have C: "length (pc_channels ?st) = length ids"
    "n < length ids \<Longrightarrow> pc_channels ?st ! n = (if m = n then Sent (Inr r) else pc_channels st ! n)" for n
    using Some conn_invD(1) [OF inv] by (simp_all add: complete_call_def send_slot_def nth_update)
  have "hm_wf (pc_pending ?st)" "map fst (pc_callers ?st) = ids"
    using Some conn_invD(2,6) [OF inv] by (simp_all add: complete_call_def send_slot_def)
  moreover have "n < length ids \<and> ids ! n = c \<and> pc_channels ?st ! n = Waiting" if "hm_get (pc_pending ?st) c = Some n" for c n
    using that C(2) conn_invD(3) [OF inv, of c n] m by (auto simp: P split: if_splits)
  moreover have "hm_get (pc_pending ?st) (ids ! n) = Some n" if "n < length ids" "pc_channels ?st ! n = Waiting" for n
    using that C(2) conn_invD(4) [OF inv, of n] Some by (auto simp: P split: if_splits)
  moreover have "uuid_from_slice (pcr_call_id r') = Some (ids ! n) \<and> \<not> is_request r'"
    if "n < length ids" "pc_channels ?st ! n = Sent (Inr r')" for n r'
    using that C(2) conn_invD(5) [OF inv, of n r'] m id by (auto split: if_splits)
  ultimately show ?thesis using C(1) by (simp add: conn_inv_def)
qed (simp add: complete_call_def inv)

lemma inv_register:
  assumes inv: "conn_inv ids st"
  shows "conn_inv (ids @ [call_id]) (register_call call_id st)"
proof -
  let ?st = "register_call call_id st"
  have P: "hm_get (pc_pending ?st) c = (if c = call_id then Some (length ids) else hm_get (pc_pending st) c)" for c
    using conn_invD(1) [OF inv] by (simp add: register_call_def Let_def)
  have C: "length (pc_channels ?st) = Suc (length ids)" "pc_channels ?st ! length ids = Waiting"
    "n < length ids \<Longrightarrow> pc_channels ?st ! n = (if hm_get (pc_pending st) call_id = Some n then Dropped else pc_channels st ! n)" for n
    using conn_invD(1) [OF inv] by (auto simp: register_call_def Let_def nth_append nth_update split: option.split)
  have "hm_wf (pc_pending ?st)" "map fst (pc_callers ?st) = ids @ [call_id]"
    using conn_invD(2,6) [OF inv] by (simp_all add: register_call_def Let_def)
  moreover have "n < Suc (length ids) \<and> (ids @ [call_id]) ! n = c \<and> pc_channels ?st ! n = Waiting"
    if "hm_get (pc_pending ?st) c = Some n" for c n
    using that C conn_invD(3) [OF inv, of c n] pending_inj [OF inv, of c n call_id] by (auto simp: P nth_append split: if_splits)
  moreover have "hm_get (pc_pending ?st) ((ids @ [call_id]) ! n) = Some n" if "n < Suc (length ids)" "pc_channels ?st ! n = Waiting" for n
    using that C(3) [of n] conn_invD(4) [OF inv, of n] by (auto simp: P nth_append less_Suc_eq split: if_splits)
  moreover have "uuid_from_slice (pcr_call_id r) = Some ((ids @ [call_id]) ! n) \<and> \<not> is_request r"
    if "n < Suc (length ids)" "pc_channels ?st ! n = Sent (Inr r)" for n r
    using that C(2) C(3) [of n] conn_invD(5) [OF inv, of n r] by (auto simp: nth_append less_Suc_eq split: if_splits)
  ultimately show ?thesis using C(1) by (simp add: conn_inv_def)
qed

lemma inv_frame_handled:
  assumes "conn_inv ids st"
  shows "conn_inv ids (handle_frame L fault msg st)"
proof (cases "pl_dec_res L msg")
  case (Inr r)
  show ?thesis
  proof (cases "uuid_from_slice (pcr_call_id r)")
    case (Some c)
    consider (req) req where "pcr_message r = Some (RequestHandling req)" | (other) "\<not> is_request r"
      by (auto simp: is_request_def)
    then show ?thesis
    proof cases
      case req
      have "conn_inv ids (handle_incoming fault (pcr_call_id r) req st)"
        using assms by (subst conn_inv_frame [where st = st]) simp_all
      then show ?thesis using Some Inr req by (simp add: handle_frame_def dispatch_response_def)
    next
      case other
      then have "dispatch_response fault r st = complete_call c r st"
        using Some by (auto simp: dispatch_response_def is_request_def split: option.split pc_response_message.split)
      then show ?thesis using Inr inv_complete [OF assms Some other] by (simp add: handle_frame_def)
    qed
  qed (simp add: handle_frame_def dispatch_response_def Inr assms)
qed (simp add: handle_frame_def assms)

lemma conn_step_inv:
  assumes "conn_inv ids st" "conn_step L ev st = Some st'"
  shows "conn_inv (ids @ begun [ev]) st'"
proof (cases ev)
  case (Read fault)
  have "conn_inv ids (st\<lparr>pc_input := x\<rparr>)" "conn_inv ids (st\<lparr>pc_alive := False\<rparr>)" for x
    using assms(1) by (simp_all add: conn_inv_def)
  with assms Read show ?thesis
    by (auto simp: reader_step_def inv_closed inv_frame_handled split: if_splits option.splits sum.splits p2p_error.splits)
next
  case (FinishAdd p h n)
  then have "pc_channels st' = pc_channels st \<and> pc_pending st' = pc_pending st \<and> pc_callers st' = pc_callers st"
    using assms(2) by (auto simp: bind_eq_Some_conv dest: finish_keeps(1))
  with FinishAdd assms(1) conn_inv_frame [of st' st ids] show ?thesis by simp
next
  case (FinishRemove p n)
  then have "pc_channels st' = pc_channels st \<and> pc_pending st' = pc_pending st \<and> pc_callers st' = pc_callers st"
    using assms(2) by (auto simp: bind_eq_Some_conv dest: finish_keeps(2))
  with FinishRemove assms(1) conn_inv_frame [of st' st ids] show ?thesis by simp
next
  case (HandlerDone i r f)
  with assms handler_done_keeps(1) [of i r f st st'] conn_inv_frame [of st' st ids] show ?thesis by simp
next
  case (HandlerPanics i)
  with assms handler_done_keeps(2) [of i st st'] conn_inv_frame [of st' st ids] show ?thesis by simp
next
  case (SendRequest fault n req)
  with assms call_send_keeps [of fault n req st st'] conn_inv_frame [of st' st ids] show ?thesis by simp
qed (use assms conn_inv_frame [of st' st ids] in \<open>auto simp: inv_closed inv_register split: if_splits\<close>)

lemma begun_append: "begun (ev # evs) = begun [ev] @ begun evs"
  by (cases ev) simp_all

lemma conn_run_inv:
  "conn_run L evs st = Some st' \<Longrightarrow> conn_inv ids st \<Longrightarrow> conn_inv (ids @ begun evs) st'"
proof (induction evs arbitrary: st ids)
  case (Cons ev evs)
  then obtain st1 where "conn_step L ev st = Some st1" "conn_run L evs st1 = Some st'"
    by (auto simp: bind_eq_Some_conv)
  then have "conn_inv ((ids @ begun [ev]) @ begun evs) st'"
    using Cons.IH conn_step_inv [OF Cons.prems(2)] by blast
  then show ?case by (subst begun_append) simp
qed simp


section \<open>Calls get their own answers\<close>

text \<open>
  C20: Concurrent calls on the shared connection never get each other's answers: in every
  interleaving of calls, incoming messages, handlers and failures, a response that reaches the
  channel of a call carries the call id of exactly that call, and is not an incoming request.
\<close>

theorem response_reaches_own_call:
  assumes "conn_run L evs connection_new = Some st" "n < length (begun evs)" "pc_channels st ! n = Sent (Inr r)"
  shows "uuid_from_slice (pcr_call_id r) = Some (begun evs ! n) \<and> (\<forall>req. pcr_message r \<noteq> Some (RequestHandling req))"
  using conn_invD(5) [OF conn_run_inv [OF assms(1) conn_inv_new], of n r] assms(2,3) by (simp add: is_request_def)

text \<open>
  C22: No call hangs on a connection that breaks: when the reader of a connection stops on an error
  of the socket, every call begun so far has an outcome. A call that was waiting fails with an
  error that the client of the block servers treats as transient, so it retries the call.
\<close>

theorem closing_answers_all_calls:
  assumes "conn_run L evs connection_new = Some st0" "conn_step L (ReadFails e) st0 = Some st" "n < length (begun evs)"
  shows "call_unary_finish (pc_channels st ! n) \<noteq> None \<and>
    (pc_channels st0 ! n = Waiting \<longrightarrow>
       (\<exists>err. call_unary_finish (pc_channels st ! n) = Some (Inl err) \<and> call_transient (p2p_error_text err)))"
proof -
  have "st = reader_closed (PIo e) st0" using assms(2) by (simp split: if_splits)
  note ch = closed_channel [OF conn_run_inv [OF assms(1) conn_inv_new, simplified] assms(3), of "PIo e", folded this]
  have "call_transient (p2p_error_text (PProtocol (''connection closed: '' @ x)))" for x
    unfolding call_transient_def str_contains_iff [of "''connection closed''"]
    by (intro disjI1 disjI2 exI [of _ "''Protocol error: ''"] exI [of _ "'': '' @ x"]) simp
  then show ?thesis
    using ch by (cases "pc_channels st0 ! n") (auto simp: call_unary_finish_def unary_outcome_def)
qed


section \<open>After the connection is closed\<close>

lemma dead_step_keeps:
  assumes "\<not> pc_alive st" "conn_step L ev st = Some st'" "call_id \<notin> set (begun [ev])" "conn_inv ids st"
    and "hm_get (pc_pending st) call_id = Some n"
  shows "\<not> pc_alive st' \<and> hm_get (pc_pending st') call_id = Some n"
proof (cases ev)
  case (FinishAdd p h m)
  then show ?thesis
    using assms(1,2,5) by (auto simp: bind_eq_Some_conv dest: finish_keeps(1))
next
  case (FinishRemove p m)
  then show ?thesis
    using assms(1,2,5) by (auto simp: bind_eq_Some_conv dest: finish_keeps(2))
next
  case (HandlerDone i r f)
  then show ?thesis using assms(1,2,5) handler_done_keeps(1) [of i r f st st'] by simp
next
  case (HandlerPanics i)
  then show ?thesis using assms(1,2,5) handler_done_keeps(2) [of i st st'] by simp
next
  case (SendRequest fault m req)
  then show ?thesis using assms(1,2,5) call_send_keeps [of fault m req st st'] by simp
qed (use assms in \<open>auto simp: register_call_def Let_def\<close>)

lemma dead_run_keeps:
  "conn_run L evs st = Some st' \<Longrightarrow> \<not> pc_alive st \<Longrightarrow> call_id \<notin> set (begun evs) \<Longrightarrow> conn_inv ids st \<Longrightarrow>
     hm_get (pc_pending st) call_id = Some n \<Longrightarrow> hm_get (pc_pending st') call_id = Some n"
proof (induction evs arbitrary: st ids)
  case (Cons ev evs)
  then obtain st1 where st1: "conn_step L ev st = Some st1" "conn_run L evs st1 = Some st'"
    by (auto simp: bind_eq_Some_conv)
  have "call_id \<notin> set (begun [ev])" "call_id \<notin> set (begun evs)"
    using Cons.prems(3) by (simp_all add: begun_append [of ev evs])
  with Cons.IH [OF st1(2)] dead_step_keeps [OF Cons.prems(2) st1(1) _ Cons.prems(4,5)] conn_step_inv [OF Cons.prems(4) st1(1)]
  show ?case by blast
qed simp

text \<open>
  C38: A call registered after the reader stopped waits forever unless its own request cannot be
  written: whatever happens later (bytes that arrive, writes, handlers, other calls with other ids),
  it returns the error of its own write when that write fails, and returns nothing otherwise, so a
  call whose request is written in full never returns. The client tests \<open>is_alive\<close> before it registers
  the call, and the reader may stop in between; it stops with a socket that still takes writes when
  the daemon sends a message of length zero. A caller that abandons its call is not modelled.
\<close>

theorem call_after_close_hangs:
  assumes "conn_run L evs connection_new = Some st" "\<not> is_alive st"
    and "conn_run L (Begin call_id # evs') st = Some st'" "call_id \<notin> set (begun evs')"
  shows "call_result (length (begun evs)) st' =
    (case vec_get (pc_callers st') (length (begun evs)) of Some (_, CallFailed e) \<Rightarrow> Some (Inl e) | _ \<Rightarrow> None)"
proof -
  let ?st = "register_call call_id st" and ?ids = "begun evs @ [call_id]"
  have inv: "conn_inv ?ids ?st"
    using inv_register [OF conn_run_inv [OF assms(1) conn_inv_new, simplified]] .
  have len: "length (pc_channels st) = length (begun evs)"
    using conn_invD(1) [OF conn_run_inv [OF assms(1) conn_inv_new]] by simp
  have run: "conn_run L evs' ?st = Some st'" using assms(3) by simp
  have "hm_get (pc_pending st') call_id = Some (length (begun evs))"
    using dead_run_keeps [OF run _ assms(4) inv, of "length (begun evs)"] assms(2) len
    by (simp add: is_alive_def register_call_def Let_def)
  then have "pc_channels st' ! length (begun evs) = Waiting"
    using conn_invD(3) [OF conn_run_inv [OF run inv]] by simp
  then have "Option.bind (vec_get (pc_channels st') (length (begun evs))) call_unary_finish = None"
    by (simp add: vec_get_def call_unary_finish_def)
  then show ?thesis by (simp add: call_result_def split: option.split caller.split)
qed

section \<open>Incoming requests are answered once\<close>

text \<open>The call ids of the incoming requests that a run reads, valid or not, and of the handlers that panicked in it.\<close>

definition requests_read :: "pc_lib \<Rightarrow> 'h event \<Rightarrow> 'h connection \<Rightarrow> bytes list" where
  "requests_read L ev st =
     (case ev of
        Read _ \<Rightarrow>
          (case read_varint_message (pl_varint L) (pc_input st) of
             Some (Inr (msg_bytes, _)) \<Rightarrow>
               (case pl_dec_res L msg_bytes of
                  Inr r \<Rightarrow> if is_request r then [pcr_call_id r] else []
                | _ \<Rightarrow> [])
           | _ \<Rightarrow> [])
      | _ \<Rightarrow> [])"

definition handlers_panicked :: "'h event \<Rightarrow> 'h connection \<Rightarrow> bytes list" where
  "handlers_panicked ev st =
     (case ev of HandlerPanics i \<Rightarrow> (case vec_get (pc_tasks st) i of Some t \<Rightarrow> [fst t] | None \<Rightarrow> []) | _ \<Rightarrow> [])"

text \<open>What a run yields, when every step yields a list.\<close>

fun collect_run :: "pc_lib \<Rightarrow> ('h event \<Rightarrow> 'h connection \<Rightarrow> 'a list) \<Rightarrow> 'h event list \<Rightarrow> 'h connection \<Rightarrow> 'a list" where
  "collect_run L f [] st = []"
| "collect_run L f (ev # evs) st = f ev st @ (case conn_step L ev st of None \<Rightarrow> [] | Some st' \<Rightarrow> collect_run L f evs st')"

definition requests_run :: "pc_lib \<Rightarrow> 'h event list \<Rightarrow> 'h connection \<Rightarrow> bytes list" where
  "requests_run L = collect_run L (requests_read L)"

definition panicked_run :: "pc_lib \<Rightarrow> 'h event list \<Rightarrow> 'h connection \<Rightarrow> bytes list" where
  "panicked_run L = collect_run L handlers_panicked"

text \<open>The answers that were written in full, and those whose write failed.\<close>

fun is_answer :: "pc_request \<Rightarrow> bool" where
  "is_answer m = (case pcq_message m of Some (UnaryResponse _) \<Rightarrow> True | _ \<Rightarrow> False)"

fun whole_answer :: "written \<Rightarrow> bytes list" where
  "whole_answer (Whole m) = (if is_answer m then [pcq_call_id m] else [])"
| "whole_answer (Partial m _) = []"

fun failed_answer :: "written \<Rightarrow> bytes list" where
  "failed_answer (Whole m) = []"
| "failed_answer (Partial m _) = (if is_answer m then [pcq_call_id m] else [])"

definition answers :: "'h connection \<Rightarrow> bytes list" where
  "answers st = concat (map whole_answer (pc_output st))"

definition failed_answers :: "'h connection \<Rightarrow> bytes list" where
  "failed_answers st = concat (map failed_answer (pc_output st))"

definition valid_id :: "bytes \<Rightarrow> bool" where
  "valid_id c \<longleftrightarrow> uuid_from_slice c \<noteq> None"

definition in_service :: "'h connection \<Rightarrow> bytes multiset" where
  "in_service st = mset (answers st) + mset (failed_answers st) + mset (map fst (pc_tasks st))"

lemmas in_service_defs = in_service_def answers_def failed_answers_def

lemma in_service_write:
  "in_service (fst (write_varint_message fault m st)) = in_service st + (if is_answer m then {#pcq_call_id m#} else {#})"
  by (auto simp: in_service_defs write_varint_message_def split: option.split)

lemma in_service_frame: "pc_output st' = pc_output st \<Longrightarrow> pc_tasks st' = pc_tasks st \<Longrightarrow> in_service st' = in_service st"
  by (simp add: in_service_defs)

lemma in_service_task_removed:
  assumes "i < length (pc_tasks st)"
  shows "in_service st = in_service (st\<lparr>pc_tasks := take i (pc_tasks st) @ drop (Suc i) (pc_tasks st)\<rparr>) + {#fst (pc_tasks st ! i)#}"
proof -
  have "mset (map fst (pc_tasks st)) = mset (map fst (take i (pc_tasks st) @ pc_tasks st ! i # drop (Suc i) (pc_tasks st)))"
    using assms by (metis id_take_nth_drop)
  then show ?thesis by (simp add: in_service_defs)
qed

lemma in_service_send:
  assumes "call_send fault n req st = Some st'"
  shows "in_service st' = in_service st"
  using assms
  by (cases req) (auto simp: call_send_def write_varint_message_def in_service_defs split: option.splits caller.splits)

lemma in_service_frame_handled:
  "in_service (handle_frame L fault msg st) = in_service st +
     (case pl_dec_res L msg of Inr r \<Rightarrow> if is_request r \<and> valid_id (pcr_call_id r) then {#pcr_call_id r#} else {#} | _ \<Rightarrow> {#})"
proof (cases "pl_dec_res L msg")
  case (Inr r)
  have "in_service (complete_call c r st) = in_service st" for c
    by (auto simp: complete_call_def send_slot_def in_service_defs split: option.split)
  moreover have "in_service (handle_incoming fault c req st) = in_service st + {#c#}" for c req
    by (auto simp: handle_incoming_def in_service_write unary_response_def split: option.split)
      (simp add: in_service_defs)
  ultimately show ?thesis
    using Inr by (auto simp: handle_frame_def dispatch_response_def is_request_def valid_id_def split: option.split pc_response_message.split)
qed (simp add: handle_frame_def)

lemma in_service_step:
  assumes "conn_step L ev st = Some st'"
  shows "in_service st' + mset (handlers_panicked ev st) = in_service st + mset (filter valid_id (requests_read L ev st))"
proof (cases ev)
  case (Read fault)
  have closed: "in_service (reader_closed e st) = in_service st" for e
    using drain_channels [where st = st and ps = "pc_pending st"] by (simp add: reader_closed_def in_service_defs)
  have "in_service (st\<lparr>pc_input := x\<rparr>) = in_service st" "in_service (st\<lparr>pc_alive := False\<rparr>) = in_service st" for x
    by (simp_all add: in_service_defs)
  with assms Read closed show ?thesis
    by (auto simp: reader_step_def requests_read_def handlers_panicked_def in_service_frame_handled
        split: if_splits option.splits sum.splits p2p_error.splits)
next
  case (ReadFails e)
  then show ?thesis
    using assms drain_channels [where st = st and ps = "pc_pending st"]
    by (auto simp: requests_read_def handlers_panicked_def reader_closed_def in_service_defs split: if_splits)
next
  case (SendRequest fault n req)
  then show ?thesis using assms in_service_send [of fault n req st st'] by (simp add: requests_read_def handlers_panicked_def)
next
  case (FinishAdd p h m)
  then show ?thesis
    using assms in_service_frame [of st' st]
    by (auto simp: bind_eq_Some_conv requests_read_def handlers_panicked_def dest: finish_keeps(1))
next
  case (FinishRemove p m)
  then show ?thesis
    using assms in_service_frame [of st' st]
    by (auto simp: bind_eq_Some_conv requests_read_def handlers_panicked_def dest: finish_keeps(2))
next
  case (HandlerDone i r fault)
  then show ?thesis
    using assms in_service_task_removed [of i st]
    by (auto simp: handler_done_def in_service_write unary_response_def requests_read_def handlers_panicked_def Let_def split: if_splits)
next
  case (HandlerPanics i)
  then show ?thesis
    using assms in_service_task_removed [of i st]
    by (auto simp: handler_panics_def requests_read_def handlers_panicked_def vec_get_def split: if_splits)
qed (use assms in \<open>auto simp: requests_read_def handlers_panicked_def in_service_defs register_call_def Let_def\<close>)

lemma in_service_run:
  "conn_run L evs s = Some st \<Longrightarrow>
     in_service st + mset (panicked_run L evs s) = in_service s + mset (filter valid_id (requests_run L evs s))"
proof (induction evs arbitrary: s)
  case (Cons ev evs)
  then obtain s1 where "conn_step L ev s = Some s1" "conn_run L evs s1 = Some st"
    by (auto simp: bind_eq_Some_conv)
  note s1 = this
  have "in_service st + (mset (handlers_panicked ev s) + mset (panicked_run L evs s1)) =
      (in_service s1 + mset (filter valid_id (requests_run L evs s1))) + mset (handlers_panicked ev s)"
    using Cons.IH [OF s1(2)] by (simp add: ac_simps)
  also have "\<dots> = (in_service s + mset (filter valid_id (requests_read L ev s))) + mset (filter valid_id (requests_run L evs s1))"
    using in_service_step [OF s1(1)] by (simp add: ac_simps)
  finally show ?case using s1(1) by (simp add: panicked_run_def requests_run_def ac_simps)
qed (simp add: panicked_run_def requests_run_def)

text \<open>
  C21: The fate of every incoming request, in every interleaving. The reader drops a request whose
  call id is not a UUID. Each of the others is in exactly one of four groups, counted with
  multiplicity: its answer was written in full, the write of its answer failed, its handler panicked,
  or its handler still runs. So no request is answered twice and no answer goes to an id that
  nobody asked from; a request can stay unanswered only by a bad id, a failed write or a
  panicking handler.
\<close>

theorem requests_answered_once:
  assumes "conn_run L evs connection_new = Some st"
  shows "mset (filter valid_id (requests_run L evs connection_new)) =
    mset (answers st) + mset (failed_answers st) + mset (panicked_run L evs connection_new) + mset (map fst (pc_tasks st))"
  using in_service_run [OF assms] by (simp add: in_service_defs connection_new_def ac_simps)

section \<open>A call and its answer\<close>

text \<open>
  A call on an idle connection whose daemon answers returns the data of the answer and leaves no
  entry behind; what the daemon reads from the socket is the request of the call.
\<close>

theorem call_unary_roundtrip:
  assumes V: "varint_ok (pl_varint L)" and st: "pc_alive st" "pc_input st = []" and id: "length call_id = 16"
    and callers: "length (pc_callers st) = length (pc_channels st)"
    and r: "response = \<lparr>pcr_call_id = call_id, pcr_message = Some (CallUnaryResponse (Some (UnaryOk data)))\<rparr>"
    and ok: "pc_response_ok L response"
  shows "\<exists>st'. conn_run L [Begin call_id, SendRequest None (length (pc_channels st)) (CallReq peer proto args),
      Arrive (write_varint_framed (pl_varint L) (pl_enc_res L response)), Read None] st = Some st' \<and>
    pc_channels st' ! length (pc_channels st) = Sent (Inr response) \<and>
    call_result (length (pc_channels st)) st' = Some (Inr data) \<and>
    hm_get (pc_pending st') call_id = None \<and> pc_output st' = pc_output st @ [Whole (request_message call_id (CallReq peer proto args))]"
proof -
  have rd: "read_varint_message (pl_varint L) (write_varint_framed (pl_varint L) (pl_enc_res L response)) =
      Some (Inr (pl_enc_res L response, []))"
    using ok read_message_frame [OF V, of "pl_enc_res L response" "[]"] by (simp add: pc_response_ok_def)
  have dec: "pl_dec_res L (pl_enc_res L response) = Inr response" using ok by (simp add: pc_response_ok_def)
  have u: "uuid_from_slice (pcr_call_id response) = Some call_id" "pcr_message response = Some (CallUnaryResponse (Some (UnaryOk data)))"
    using id by (simp_all add: uuid_from_slice_def r)
  define channels where
    "channels = (case hm_get (pc_pending st) call_id of None \<Rightarrow> pc_channels st | Some m \<Rightarrow> (pc_channels st)[m := Dropped])"
  have c: "length channels = length (pc_channels st)" by (simp add: channels_def split: option.split)
  show ?thesis
    using st rd dec u c callers
    by (simp add: register_call_def call_send_def call_result_def vec_get_def nth_append write_varint_message_def reader_step_def handle_frame_def dispatch_response_def
        complete_call_def send_slot_def call_unary_finish_def unary_outcome_def Let_def flip: channels_def)
qed

section \<open>Instances\<close>

definition demo_id :: uuid where
  "demo_id = replicate 16 7"

definition demo_answer :: pc_response where
  "demo_answer = \<lparr>pcr_call_id = demo_id, pcr_message = Some (CallUnaryResponse (Some (UnaryOk [5])))\<rparr>"

definition demo_incoming :: pc_response where
  "demo_incoming = \<lparr>pcr_call_id = demo_id, pcr_message = Some (RequestHandling \<lparr>cu_peer = [], cu_proto = ''p'', cu_data = []\<rparr>)\<rparr>"


definition demo_nameless :: pc_response where
  "demo_nameless = \<lparr>pcr_call_id = [], pcr_message = Some (RequestHandling \<lparr>cu_peer = [], cu_proto = ''p'', cu_data = []\<rparr>)\<rparr>"

text \<open>A library that knows these three responses.\<close>

definition demo_pc :: pc_lib where
  "demo_pc = \<lparr>pl_varint = demo_varint, pl_enc_req = pcq_call_id, pl_dec_req = (\<lambda>bs. Inl ''unknown''),
     pl_enc_res = (\<lambda>m. if m = demo_answer then [1] else if m = demo_nameless then [3] else [2]),
     pl_dec_res = (\<lambda>bs. if bs = [1] then Inr demo_answer else if bs = [2] then Inr demo_incoming else if bs = [3] then Inr demo_nameless else Inl ''unknown'')\<rparr>"

lemma demo_read:
  "read_varint_message (pl_varint demo_pc) (write_varint_framed demo_varint [b] @ rest) = Some (Inr ([b], rest))"
  using read_message_frame [OF demo_varint_ok, of "[b]" rest] by (simp add: demo_pc_def isize_max_def)

definition demo_call :: "unit event list" where
  "demo_call = [Begin demo_id, SendRequest None 0 (CallReq [] ''p'' []), Arrive (write_varint_framed demo_varint [1]), Read None]"

lemma demo_call_run:
  "\<exists>st. conn_run demo_pc demo_call connection_new = Some st \<and> pc_channels st ! 0 = Sent (Inr demo_answer)"
  using demo_read [of 1 "[]"]
  by (simp add: demo_call_def reader_step_def handle_frame_def dispatch_response_def uuid_from_slice_def complete_call_def
      send_slot_def write_varint_message_def register_call_def connection_new_def demo_pc_def demo_answer_def demo_id_def call_send_def Let_def)

theorem response_reaches_own_call_witness:
  "\<exists>st. conn_run demo_pc demo_call connection_new = Some st \<and> pc_channels st ! 0 = Sent (Inr demo_answer) \<and>
     uuid_from_slice (pcr_call_id demo_answer) = Some demo_id"
proof -
  obtain st where st: "conn_run demo_pc demo_call connection_new = Some st" "pc_channels st ! 0 = Sent (Inr demo_answer)"
    using demo_call_run by blast
  have b: "begun demo_call = [demo_id]" by (simp add: demo_call_def)
  show ?thesis using response_reaches_own_call [OF st(1) _ st(2)] st b by simp
qed

theorem closing_answers_all_calls_witness:
  "\<exists>err. call_unary_finish (pc_channels (reader_closed (PIo UnexpectedEof) (register_call demo_id (connection_new :: unit connection))) ! 0)
      = Some (Inl err) \<and> call_transient (p2p_error_text err)"
proof -
  let ?st0 = "register_call demo_id (connection_new :: unit connection)"
  have run: "conn_run demo_pc [Begin demo_id] connection_new = Some ?st0"
    and close: "conn_step demo_pc (ReadFails UnexpectedEof) ?st0 = Some (reader_closed (PIo UnexpectedEof) ?st0)"
    and wait: "pc_channels ?st0 ! 0 = Waiting"
    by (simp_all add: register_call_def connection_new_def Let_def)
  show ?thesis using closing_answers_all_calls [OF run close, of 0] wait by simp
qed

text \<open>The daemon sends a message of length zero; the reader stops, and the next call is written and hangs.\<close>

theorem call_after_close_hangs_witness:
  "\<exists>st'. conn_run demo_pc [Arrive [0], Read None, Begin demo_id, SendRequest None 0 (CallReq [] ''p'' []),
       Arrive (write_varint_framed demo_varint [1])] (connection_new :: unit connection) = Some st' \<and>
     pc_output st' = [Whole (request_message demo_id (CallReq [] ''p'' []))] \<and> call_result 0 st' = None"
proof -
  let ?dead = "reader_closed (PProtocol ''Invalid varint length'') ((connection_new :: unit connection)\<lparr>pc_input := [0]\<rparr>)"
  let ?evs = "[SendRequest None 0 (CallReq [] ''p'' []), Arrive (write_varint_framed demo_varint [1])] :: unit event list"
  have "read_varint_message demo_varint [0] = Some (Inl (PProtocol ''Invalid varint length''))"
    by (simp add: read_varint_message_def demo_varint_def eval_nat_numeral high_bit_def)
  then have run: "conn_run demo_pc [Arrive [0], Read None] connection_new = Some ?dead"
    by (simp add: connection_new_def reader_step_def demo_pc_def)
  have dead: "\<not> is_alive ?dead" by (simp add: is_alive_def reader_closed_def)
  obtain st' where st': "conn_run demo_pc (Begin demo_id # ?evs) ?dead = Some st'"
    "pc_output st' = [Whole (request_message demo_id (CallReq [] ''p'' []))]" "pc_callers st' = [(demo_id, CallSent)]"
    by (simp add: reader_closed_def connection_new_def register_call_def call_send_def write_varint_message_def Let_def)
  have "call_result 0 st' = None"
    using call_after_close_hangs [OF run dead st'(1)] st'(3) by simp
  moreover have "conn_run demo_pc ([Arrive [0], Read None] @ Begin demo_id # ?evs) connection_new = Some st'"
    by (simp only: conn_run_append run Option.bind.simps st'(1))
  ultimately show ?thesis using st'(2) unfolding append_Cons append_Nil by blast
qed

text \<open>Two requests are read: one has no handler and is answered at once, one has a call id that is not a UUID.\<close>

lemma demo_read_requests:
  assumes "pc_alive st" "pc_handlers st = []"
  shows "pc_input st = write_varint_framed demo_varint [2] @ rest \<Longrightarrow>
      \<exists>m. conn_step demo_pc (Read None) st = Some (st\<lparr>pc_input := rest, pc_output := pc_output st @ [Whole m]\<rparr>) \<and>
        requests_read demo_pc (Read None) st = [demo_id]"
    "pc_input st = write_varint_framed demo_varint [3] @ rest \<Longrightarrow>
      conn_step demo_pc (Read None) st = Some (st\<lparr>pc_input := rest\<rparr>) \<and> requests_read demo_pc (Read None) st = [[]]"
proof -
  have frames: "read_varint_message (pl_varint demo_pc) (write_varint_framed demo_varint [2] @ rest) = Some (Inr ([2], rest))"
    "read_varint_message (pl_varint demo_pc) (write_varint_framed demo_varint [3] @ rest) = Some (Inr ([3], rest))"
    by (rule demo_read)+
  have dec: "pl_dec_res demo_pc [2] = Inr demo_incoming" "pl_dec_res demo_pc [3] = Inr demo_nameless"
    by (simp_all add: demo_pc_def)
  have ids: "pcr_call_id demo_incoming = demo_id" "is_request demo_incoming" "uuid_from_slice demo_id = Some demo_id"
    "pcr_call_id demo_nameless = []" "is_request demo_nameless" "uuid_from_slice [] = None"
    by (simp_all add: demo_incoming_def demo_nameless_def is_request_def uuid_from_slice_def demo_id_def)
  have m: "\<exists>req. pcr_message demo_incoming = Some (RequestHandling req) \<and> hm_get (pc_handlers st) (cu_proto req) = None"
    using assms(2) by (simp add: demo_incoming_def)
  show "pc_input st = write_varint_framed demo_varint [2] @ rest \<Longrightarrow>
      \<exists>m. conn_step demo_pc (Read None) st = Some (st\<lparr>pc_input := rest, pc_output := pc_output st @ [Whole m]\<rparr>) \<and>
        requests_read demo_pc (Read None) st = [demo_id]"
    using m assms(1) frames(1) dec(1) ids
    by (auto simp: requests_read_def reader_step_def handle_frame_def dispatch_response_def handle_incoming_def write_varint_message_def)
  show "pc_input st = write_varint_framed demo_varint [3] @ rest \<Longrightarrow>
      conn_step demo_pc (Read None) st = Some (st\<lparr>pc_input := rest\<rparr>) \<and> requests_read demo_pc (Read None) st = [[]]"
    using assms(1) frames(2) dec(2) ids
    by (simp add: requests_read_def reader_step_def handle_frame_def dispatch_response_def)
qed

definition demo_requests :: "unit event list" where
  "demo_requests = [Arrive (write_varint_framed demo_varint [2] @ write_varint_framed demo_varint [3]), Read None, Read None]"

lemma demo_requests_run:
  "\<exists>st. conn_run demo_pc demo_requests connection_new = Some st \<and> pc_tasks st = [] \<and> failed_answers st = [] \<and>
     requests_run demo_pc demo_requests connection_new = [demo_id, []] \<and> panicked_run demo_pc demo_requests connection_new = []"
proof -
  let ?b = "write_varint_framed demo_varint [3]"
  define s where "s = (connection_new :: unit connection)\<lparr>pc_input := write_varint_framed demo_varint [2] @ ?b\<rparr>"
  have s: "pc_alive s" "pc_handlers s = []" "pc_input s = write_varint_framed demo_varint [2] @ ?b" "pc_output s = []" "pc_tasks s = []"
    by (simp_all add: s_def connection_new_def)
  have arrive: "conn_step demo_pc (Arrive (write_varint_framed demo_varint [2] @ ?b)) connection_new = Some s"
    "requests_read demo_pc (Arrive x) c = []" "handlers_panicked (Arrive x) c = []" "handlers_panicked (Read None) c = []"
    for x and c :: "unit connection"
    by (simp_all add: s_def connection_new_def requests_read_def handlers_panicked_def)
  obtain m where first: "conn_step demo_pc (Read None) s = Some (s\<lparr>pc_input := ?b, pc_output := [Whole m]\<rparr>)"
      "requests_read demo_pc (Read None) s = [demo_id]"
    using demo_read_requests(1) [OF s(1,2,3)] s(4) by auto
  define t where "t = s\<lparr>pc_input := ?b, pc_output := [Whole m]\<rparr>"
  have second: "conn_step demo_pc (Read None) t = Some (t\<lparr>pc_input := []\<rparr>)" "requests_read demo_pc (Read None) t = [[]]"
    using s(1,2) demo_read_requests(2) [of t "[]"] by (simp_all add: t_def del: conn_step.simps)
  have "conn_run demo_pc demo_requests connection_new = Some (t\<lparr>pc_input := []\<rparr>)"
    "requests_run demo_pc demo_requests connection_new = [demo_id, []]" "panicked_run demo_pc demo_requests connection_new = []"
    unfolding demo_requests_def requests_run_def panicked_run_def
    by (simp_all add: arrive first second flip: t_def del: conn_step.simps)
  moreover have "pc_tasks (t\<lparr>pc_input := []\<rparr>) = []" "failed_answers (t\<lparr>pc_input := []\<rparr>) = []"
    using s(5) by (simp_all add: t_def failed_answers_def)
  ultimately show ?thesis by blast
qed

theorem requests_answered_once_witness:
  "\<exists>st. conn_run demo_pc demo_requests connection_new = Some st \<and>
     requests_run demo_pc demo_requests connection_new = [demo_id, []] \<and> answers st = [demo_id]"
proof -
  obtain st where st: "conn_run demo_pc demo_requests connection_new = Some st" "pc_tasks st = []" "failed_answers st = []"
      "requests_run demo_pc demo_requests connection_new = [demo_id, []]" "panicked_run demo_pc demo_requests connection_new = []"
    using demo_requests_run by blast
  have "mset (answers st) = {#demo_id#}"
    using requests_answered_once [OF st(1)] st(2-5) by (simp add: valid_id_def uuid_from_slice_def demo_id_def)
  with st show ?thesis by simp
qed

end
