(* ===== verification/P2p_Client.thy ===== *)
theory P2p_Client
  imports P2p_Persistent
begin

text \<open>
  The client of the peer-to-peer daemon (\<open>kwaai-p2p-daemon/src/client.rs\<close>, \<open>dht.rs\<close> and the request
  wrappers of \<open>stream.rs\<close>): connecting, the request cycle on the control socket, the requests built on
  it, and the persistent connection that is made on demand. The input of a socket is the sequence
  of bytes the daemon will send on it. Protobuf, multiaddresses and the operating system's
  \<open>connect\<close> are parameters.
\<close>

section \<open>Messages of the control socket\<close>

record connect_request =
  cnq_peer :: bytes
  cnq_addrs :: "bytes list"
  cnq_timeout :: "int option"

record stream_open_request =
  soq_peer :: bytes
  soq_proto :: "string list"
  soq_timeout :: "int option"

record stream_handler_request =
  shq_addr :: bytes
  shq_proto :: "string list"
  shq_balanced :: bool

record remove_stream_handler_request =
  rhq_addr :: bytes
  rhq_proto :: "string list"

record daemon_dht_request =
  ddq_type :: int
  ddq_peer :: "bytes option"
  ddq_cid :: "bytes option"
  ddq_key :: "bytes option"
  ddq_value :: "bytes option"
  ddq_count :: "int option"
  ddq_timeout :: "int option"

text \<open>The fields \<open>conn_manager\<close> and \<open>pubsub\<close> are \<open>None\<close> in every request of the client.\<close>

record daemon_request =
  dq_type :: int
  dq_connect :: "connect_request option"
  dq_stream_open :: "stream_open_request option"
  dq_stream_handler :: "stream_handler_request option"
  dq_remove_stream_handler :: "remove_stream_handler_request option"
  dq_dht :: "daemon_dht_request option"
  dq_disconnect :: "bytes option"

record peer_info =
  pi_id :: bytes
  pi_addrs :: "bytes list"

record daemon_dht_response =
  ddr_type :: int
  ddr_peer :: "peer_info option"
  ddr_value :: "bytes option"

record daemon_response =
  dr_type :: int
  dr_error :: "string option"
  dr_stream_info :: "stream_info option"
  dr_identify :: "peer_info option"
  dr_dht :: "daemon_dht_response option"
  dr_peers :: "peer_info list"

definition plain_request :: "int \<Rightarrow> daemon_request" where
  "plain_request t = \<lparr>dq_type = t, dq_connect = None, dq_stream_open = None, dq_stream_handler = None,
     dq_remove_stream_handler = None, dq_dht = None, dq_disconnect = None\<rparr>"

text \<open>The components of a multiaddress the client looks at.\<close>

datatype ma_component = MaP2p bytes | MaIp4 string | MaIp6 string | MaTcp nat | MaOther

record 'm client_lib =
  cl_pc :: pc_lib
  cl_enc_request :: "daemon_request \<Rightarrow> bytes"
  cl_dec_response :: "bytes \<Rightarrow> string + daemon_response"
  cl_hex :: "bytes \<Rightarrow> string"
  cl_ma_parse :: "string \<Rightarrow> string + 'm"
  cl_ma_from_bytes :: "bytes \<Rightarrow> string + 'm"
  cl_ma_components :: "'m \<Rightarrow> ma_component list"
  cl_ma_to_vec :: "'m \<Rightarrow> bytes"

abbreviation cl_varint :: "'m client_lib \<Rightarrow> varint_lib" where
  "cl_varint C \<equiv> pl_varint (cl_pc C)"

section \<open>Connecting\<close>

text \<open>\<open>dial n target\<close> is the outcome of the n-th attempt of the operating system, with the bytes that
  the daemon will send on the new socket. There are at most eleven attempts.\<close>

fun dial_loop :: "(nat \<Rightarrow> string + bytes) \<Rightarrow> string \<Rightarrow> nat \<Rightarrow> nat \<Rightarrow> p2p_error + bytes" where
  "dial_loop dial what attempts left =
     (case dial attempts of
        Inr s \<Rightarrow> Inr s
      | Inl e \<Rightarrow> (case left of 0 \<Rightarrow> Inl (PConnection (what @ '': '' @ e)) | Suc k \<Rightarrow> dial_loop dial what (Suc attempts) k))"

definition connect_stream :: "(string \<Rightarrow> nat \<Rightarrow> string + bytes) \<Rightarrow> string \<Rightarrow> p2p_error + bytes" where
  "connect_stream dial addr =
     (if starts_with ''/ip4/'' addr \<or> starts_with ''/ip6/'' addr
      then let parts = split_char CHR ''/'' addr in
        if length parts < 5 \<or> parts ! 3 \<noteq> ''tcp'' then Inl (PConnection (''Invalid multiaddr: '' @ addr))
        else let tcp_addr = parts ! 2 @ '':'' @ parts ! 4
             in dial_loop (dial tcp_addr) (''Failed to connect to TCP '' @ tcp_addr) 0 10
      else case strip_prefix ''/unix/'' addr of
        Some socket_path \<Rightarrow> dial_loop (dial socket_path) (''Failed to connect to Unix socket '' @ socket_path) 0 10
      | None \<Rightarrow> Inl (PConnection (''Unsupported multiaddr format: '' @ addr)))"

record 'h p2p_client =
  cl_in :: bytes
  cl_out :: bytes
  cl_persistent :: "'h connection option"
  cl_daemon_addr :: string

definition client_connect :: "(string \<Rightarrow> nat \<Rightarrow> string + bytes) \<Rightarrow> string \<Rightarrow> p2p_error + 'h p2p_client" where
  "client_connect dial addr =
     (case connect_stream dial addr of
        Inl e \<Rightarrow> Inl e
      | Inr input \<Rightarrow> Inr \<lparr>cl_in = input, cl_out = [], cl_persistent = None, cl_daemon_addr = addr\<rparr>)"

section \<open>The request cycle\<close>

text \<open>What is left of the input when \<open>read_framed\<close> fails: a refused length leaves the payload behind it.\<close>

definition after_failed_read :: "varint_lib \<Rightarrow> bytes \<Rightarrow> bytes" where
  "after_failed_read V io =
     (case varint_bytes 10 io of
        Inl _ \<Rightarrow> []
      | Inr (len_bytes, io1) \<Rightarrow>
          (case vi_read_u64 V len_bytes of
             Inl _ \<Rightarrow> io1
           | Inr len \<Rightarrow> if len > 10 * 1024 * 1024 then io1 else []))"

definition send_request ::
    "'m client_lib \<Rightarrow> io_error option \<Rightarrow> daemon_request \<Rightarrow> 'h p2p_client \<Rightarrow> 'h p2p_client \<times> (p2p_error + daemon_response)" where
  "send_request C fault request cl =
     (case fault of
        Some e \<Rightarrow> (cl, Inl (PIo e))
      | None \<Rightarrow>
          (let cl1 = cl\<lparr>cl_out := cl_out cl @ write_varint_framed (cl_varint C) (cl_enc_request C request)\<rparr> in
           case read_framed (cl_varint C) (cl_in cl1) of
             Inl e \<Rightarrow> (cl1\<lparr>cl_in := after_failed_read (cl_varint C) (cl_in cl1)\<rparr>, Inl e)
           | Inr (response_bytes, rest) \<Rightarrow>
               (let cl2 = cl1\<lparr>cl_in := rest\<rparr> in
                case cl_dec_response C response_bytes of
                  Inl e \<Rightarrow> (cl2, Inl (PProtocol (''Failed to decode response: '' @ e)))
                | Inr response \<Rightarrow>
                    (case dr_error response of
                       Some msg \<Rightarrow> (cl2, Inl (PProtocol (''Daemon error: '' @ msg)))
                     | None \<Rightarrow> (cl2, Inr response)))))"

section \<open>Requests\<close>

definition then_response ::
    "'c \<times> (p2p_error + daemon_response) \<Rightarrow> (daemon_response \<Rightarrow> p2p_error + 'a) \<Rightarrow> 'c \<times> (p2p_error + 'a)" where
  "then_response x f = (case x of (cl, Inl e) \<Rightarrow> (cl, Inl e) | (cl, Inr r) \<Rightarrow> (cl, f r))"

definition identify_with_addrs ::
    "'m client_lib \<Rightarrow> io_error option \<Rightarrow> 'h p2p_client \<Rightarrow> 'h p2p_client \<times> (p2p_error + string \<times> bytes list)" where
  "identify_with_addrs C fault cl =
     then_response (send_request C fault (plain_request 0) cl)
       (\<lambda>r. case dr_identify r of
          Some i \<Rightarrow> Inr (cl_hex C (pi_id i), pi_addrs i)
        | None \<Rightarrow> Inl (PInvalidResponse ''Expected IDENTIFY response''))"

definition identify :: "'m client_lib \<Rightarrow> io_error option \<Rightarrow> 'h p2p_client \<Rightarrow> 'h p2p_client \<times> (p2p_error + string)" where
  "identify C fault cl =
     (case identify_with_addrs C fault cl of (cl, Inl e) \<Rightarrow> (cl, Inl e) | (cl, Inr (p, _)) \<Rightarrow> (cl, Inr p))"

definition identify_full ::
    "'m client_lib \<Rightarrow> io_error option \<Rightarrow> 'h p2p_client \<Rightarrow> 'h p2p_client \<times> (p2p_error + string \<times> bytes list)" where
  "identify_full C fault cl =
     then_response (send_request C fault (plain_request 0) cl)
       (\<lambda>r. case dr_identify r of
          Some i \<Rightarrow> Inr (cl_hex C (pi_id i), pi_addrs i)
        | None \<Rightarrow> Inl (PInvalidResponse ''Expected IDENTIFY response''))"

text \<open>The destination of a multiaddress is its last peer id.\<close>

fun last_peer :: "ma_component list \<Rightarrow> bytes option \<Rightarrow> bytes option" where
  "last_peer [] found = found"
| "last_peer (MaP2p p # cs) found = last_peer cs (Some p)"
| "last_peer (_ # cs) found = last_peer cs found"

definition connect_peer ::
    "'m client_lib \<Rightarrow> io_error option \<Rightarrow> string \<Rightarrow> 'h p2p_client \<Rightarrow> 'h p2p_client \<times> (p2p_error + unit)" where
  "connect_peer C fault peer_multiaddr cl =
     (case cl_ma_parse C peer_multiaddr of
        Inl e \<Rightarrow> (cl, Inl (PConnection (''Invalid multiaddr: '' @ e)))
      | Inr maddr \<Rightarrow>
          (case last_peer (cl_ma_components C maddr) None of
             None \<Rightarrow> (cl, Inl (PConnection ''No peer ID found in multiaddr''))
           | Some peer_id \<Rightarrow>
               then_response (send_request C fault ((plain_request 1)\<lparr>dq_connect :=
                   Some \<lparr>cnq_peer = peer_id, cnq_addrs = [cl_ma_to_vec C maddr], cnq_timeout = Some 60\<rparr>\<rparr>) cl)
                 (\<lambda>_. Inr ())))"

definition disconnect_peer ::
    "'m client_lib \<Rightarrow> io_error option \<Rightarrow> bytes \<Rightarrow> 'h p2p_client \<Rightarrow> 'h p2p_client \<times> (p2p_error + unit)" where
  "disconnect_peer C fault peer_id cl =
     then_response (send_request C fault ((plain_request 7)\<lparr>dq_disconnect := Some peer_id\<rparr>) cl) (\<lambda>_. Inr ())"

definition list_peers ::
    "'m client_lib \<Rightarrow> io_error option \<Rightarrow> 'h p2p_client \<Rightarrow> 'h p2p_client \<times> (p2p_error + peer_info list)" where
  "list_peers C fault cl = then_response (send_request C fault (plain_request 5) cl) (\<lambda>r. Inr (dr_peers r))"

definition no_daemon_error :: "daemon_response \<Rightarrow> p2p_error + unit" where
  "no_daemon_error r = (case dr_error r of Some msg \<Rightarrow> Inl (PProtocol msg) | None \<Rightarrow> Inr ())"

definition register_stream_handler ::
    "'m client_lib \<Rightarrow> io_error option \<Rightarrow> string \<Rightarrow> string list \<Rightarrow> 'h p2p_client \<Rightarrow> 'h p2p_client \<times> (p2p_error + unit)" where
  "register_stream_handler C fault listen_addr protocols cl =
     (case cl_ma_parse C listen_addr of
        Inl e \<Rightarrow> (cl, Inl (PConnection (''Invalid multiaddr: '' @ e)))
      | Inr maddr \<Rightarrow>
          then_response (send_request C fault ((plain_request 3)\<lparr>dq_stream_handler :=
              Some \<lparr>shq_addr = cl_ma_to_vec C maddr, shq_proto = protocols, shq_balanced = False\<rparr>\<rparr>) cl) no_daemon_error)"

definition remove_stream_handler ::
    "'m client_lib \<Rightarrow> io_error option \<Rightarrow> string \<Rightarrow> string list \<Rightarrow> 'h p2p_client \<Rightarrow> 'h p2p_client \<times> (p2p_error + unit)" where
  "remove_stream_handler C fault listen_addr protocols cl =
     (case cl_ma_parse C listen_addr of
        Inl e \<Rightarrow> (cl, Inl (PConnection (''Invalid multiaddr: '' @ e)))
      | Inr maddr \<Rightarrow>
          then_response (send_request C fault ((plain_request 10)\<lparr>dq_remove_stream_handler :=
              Some \<lparr>rhq_addr = cl_ma_to_vec C maddr, rhq_proto = protocols\<rparr>\<rparr>) cl) no_daemon_error)"

definition stream_open_message :: "bytes \<Rightarrow> string list \<Rightarrow> daemon_request" where
  "stream_open_message peer_id protocols = (plain_request 2)\<lparr>dq_stream_open :=
     Some \<lparr>soq_peer = peer_id, soq_proto = protocols, soq_timeout = Some 60\<rparr>\<rparr>"

definition stream_info_of :: "daemon_response \<Rightarrow> p2p_error + stream_info" where
  "stream_info_of r = (case dr_stream_info r of Some i \<Rightarrow> Inr i | None \<Rightarrow> Inl (PProtocol ''No StreamInfo in response''))"

fun socket_parts :: "ma_component list \<Rightarrow> string option \<Rightarrow> nat option \<Rightarrow> string option \<times> nat option" where
  "socket_parts [] ip port = (ip, port)"
| "socket_parts (MaIp4 a # cs) ip port = socket_parts cs (Some a) port"
| "socket_parts (MaIp6 a # cs) ip port = socket_parts cs (Some a) port"
| "socket_parts (MaTcp p # cs) ip port = socket_parts cs ip (Some p)"
| "socket_parts (_ # cs) ip port = socket_parts cs ip port"

definition stream_open ::
    "'m client_lib \<Rightarrow> io_error option \<Rightarrow> (string \<Rightarrow> nat \<Rightarrow> io_error + 's) \<Rightarrow> bytes \<Rightarrow> string list \<Rightarrow> 'h p2p_client
      \<Rightarrow> 'h p2p_client \<times> (p2p_error + 's)" where
  "stream_open C fault tcp_connect peer_id protocols cl =
     then_response (send_request C fault (stream_open_message peer_id protocols) cl)
       (\<lambda>r. case stream_info_of r of
          Inl e \<Rightarrow> Inl e
        | Inr info \<Rightarrow>
            (case cl_ma_from_bytes C (si_addr info) of
               Inl e \<Rightarrow> Inl (PProtocol (''Invalid multiaddr in StreamInfo: '' @ e))
             | Inr maddr \<Rightarrow>
                 (case socket_parts (cl_ma_components C maddr) None None of
                    (None, _) \<Rightarrow> Inl (PProtocol ''No IP address in multiaddr'')
                  | (Some ip, None) \<Rightarrow> Inl (PProtocol ''No TCP port in multiaddr'')
                  | (Some ip, Some port) \<Rightarrow>
                      (case tcp_connect ip port of Inl e \<Rightarrow> Inl (PIo e) | Inr s \<Rightarrow> Inr s))))"

text \<open>The raw variant gives the control socket away: what the daemon sends from now on is stream data.\<close>

definition stream_open_raw ::
    "'m client_lib \<Rightarrow> io_error option \<Rightarrow> bytes \<Rightarrow> string list \<Rightarrow> 'h p2p_client \<Rightarrow> p2p_error + bytes" where
  "stream_open_raw C fault peer_id protocols cl =
     (case send_request C fault (stream_open_message peer_id protocols) cl of
        (_, Inl e) \<Rightarrow> Inl e
      | (cl', Inr r) \<Rightarrow> (case stream_info_of r of Inl e \<Rightarrow> Inl e | Inr _ \<Rightarrow> Inr (cl_in cl')))"

section \<open>Requests to the daemon's own DHT\<close>

definition dht_message :: "daemon_dht_request \<Rightarrow> daemon_request" where
  "dht_message q = (plain_request 4)\<lparr>dq_dht := Some q\<rparr>"

definition plain_dht :: "int \<Rightarrow> int option \<Rightarrow> daemon_dht_request" where
  "plain_dht t timeout = \<lparr>ddq_type = t, ddq_peer = None, ddq_cid = None, ddq_key = None, ddq_value = None,
     ddq_count = None, ddq_timeout = timeout\<rparr>"

definition dht_put_value ::
    "'m client_lib \<Rightarrow> io_error option \<Rightarrow> bytes \<Rightarrow> bytes \<Rightarrow> int option \<Rightarrow> 'h p2p_client \<Rightarrow> 'h p2p_client \<times> (p2p_error + unit)" where
  "dht_put_value C fault key val timeout cl =
     then_response (send_request C fault (dht_message ((plain_dht 7 timeout)\<lparr>ddq_key := Some key, ddq_value := Some val\<rparr>)) cl)
       (\<lambda>r. if dr_dht r = None then Inl (PInvalidResponse ''Expected DHT response'') else Inr ())"

definition dht_get_value ::
    "'m client_lib \<Rightarrow> io_error option \<Rightarrow> bytes \<Rightarrow> int option \<Rightarrow> 'h p2p_client \<Rightarrow> 'h p2p_client \<times> (p2p_error + bytes \<times> int option)" where
  "dht_get_value C fault key timeout cl =
     then_response (send_request C fault (dht_message ((plain_dht 5 timeout)\<lparr>ddq_key := Some key\<rparr>)) cl)
       (\<lambda>r. case dr_dht r of
          Some d \<Rightarrow> (case ddr_value d of Some v \<Rightarrow> Inr (v, Some (ddr_type d)) | None \<Rightarrow> Inl (PDht ''Value not found in DHT''))
        | None \<Rightarrow> Inl (PDht ''Value not found in DHT''))"

definition dht_find_peer ::
    "'m client_lib \<Rightarrow> io_error option \<Rightarrow> bytes \<Rightarrow> int option \<Rightarrow> 'h p2p_client \<Rightarrow> 'h p2p_client \<times> (p2p_error + peer_info)" where
  "dht_find_peer C fault peer_id timeout cl =
     then_response (send_request C fault (dht_message ((plain_dht 0 timeout)\<lparr>ddq_peer := Some peer_id\<rparr>)) cl)
       (\<lambda>r. case Option.bind (dr_dht r) ddr_peer of Some p \<Rightarrow> Inr p | None \<Rightarrow> Inl (PDht ''Peer not found in DHT''))"

definition dht_find_providers ::
    "'m client_lib \<Rightarrow> io_error option \<Rightarrow> bytes \<Rightarrow> int \<Rightarrow> int option \<Rightarrow> 'h p2p_client
      \<Rightarrow> 'h p2p_client \<times> (p2p_error + peer_info option)" where
  "dht_find_providers C fault cid n timeout cl =
     then_response (send_request C fault (dht_message ((plain_dht 2 timeout)\<lparr>ddq_cid := Some cid, ddq_count := Some n\<rparr>)) cl)
       (\<lambda>r. Inr (Option.bind (dr_dht r) ddr_peer))"

definition dht_provide ::
    "'m client_lib \<Rightarrow> io_error option \<Rightarrow> bytes \<Rightarrow> int option \<Rightarrow> 'h p2p_client \<Rightarrow> 'h p2p_client \<times> (p2p_error + unit)" where
  "dht_provide C fault cid timeout cl =
     then_response (send_request C fault (dht_message ((plain_dht 8 timeout)\<lparr>ddq_cid := Some cid\<rparr>)) cl) (\<lambda>_. Inr ())"

section \<open>The persistent connection on demand\<close>

text \<open>A dead connection is evicted and replaced; a panic of the reader of the upgrade response is \<open>None\<close>.\<close>

definition upgrade_connection ::
    "'m client_lib \<Rightarrow> io_error option \<Rightarrow> bytes \<Rightarrow> (p2p_error + 'h connection) option" where
  "upgrade_connection C fault input =
     (case fault of
        Some e \<Rightarrow> Some (Inl (PIo e))
      | None \<Rightarrow>
          map_option (\<lambda>x. case x of
              Inl e \<Rightarrow> Inl e
            | Inr (response_bytes, rest) \<Rightarrow>
                (case cl_dec_response C response_bytes of
                   Inl e \<Rightarrow> Inl (PProtocol (''Failed to decode upgrade response: '' @ e))
                 | Inr response \<Rightarrow>
                     (case dr_error response of
                        Some msg \<Rightarrow> Inl (PProtocol (''Failed to upgrade connection: '' @ msg))
                      | None \<Rightarrow> Inr (connection_new\<lparr>pc_input := rest\<rparr>))))
            (read_varint_framed_static (cl_varint C) input))"


definition get_persistent_connection ::
    "'m client_lib \<Rightarrow> io_error option \<Rightarrow> (string \<Rightarrow> nat \<Rightarrow> string + bytes) \<Rightarrow> 'h p2p_client
      \<Rightarrow> ('h p2p_client \<times> (p2p_error + 'h connection)) option" where
  "get_persistent_connection C fault dial cl =
     (case (case cl_persistent cl of Some conn \<Rightarrow> if is_alive conn then Some conn else None | None \<Rightarrow> None) of
        Some conn \<Rightarrow> Some (cl, Inr conn)
      | None \<Rightarrow>
          (let cl1 = cl\<lparr>cl_persistent := None\<rparr> in
           case connect_stream dial (cl_daemon_addr cl1) of
             Inl e \<Rightarrow> Some (cl1, Inl e)
           | Inr input \<Rightarrow>
               map_option (\<lambda>x. case x of
                   Inl e \<Rightarrow> (cl1, Inl e)
                 | Inr conn \<Rightarrow> (cl1\<lparr>cl_persistent := Some conn\<rparr>, Inr conn)) (upgrade_connection C fault input)))"

text \<open>
  The three operations on the persistent connection get it and then register their call on it; the
  result is the number of the channel on which the operation waits.
\<close>

definition on_persistent ::
    "'m client_lib \<Rightarrow> io_error option \<Rightarrow> (string \<Rightarrow> nat \<Rightarrow> string + bytes) \<Rightarrow> uuid \<Rightarrow> call_request \<Rightarrow> fault \<Rightarrow> 'h p2p_client
      \<Rightarrow> ('h p2p_client \<times> (p2p_error + nat)) option" where
  "on_persistent C fault dial call_id req wfault cl =
     map_option (\<lambda>(cl', r). case r of
         Inl e \<Rightarrow> (cl', Inl e)
       | Inr conn \<Rightarrow>
           (let n = length (pc_channels conn) in
            case write_varint_message wfault (request_message call_id req) (register_call call_id conn) of
              (conn', Inl e) \<Rightarrow>
                (cl'\<lparr>cl_persistent := Some (conn'\<lparr>pc_callers := (pc_callers conn')[n := (call_id, CallFailed e)]\<rparr>)\<rparr>, Inl e)
            | (conn', Inr _) \<Rightarrow>
                (cl'\<lparr>cl_persistent := Some (conn'\<lparr>pc_callers := (pc_callers conn')[n := (call_id, CallSent)]\<rparr>)\<rparr>, Inr n)))
       (get_persistent_connection C fault dial cl)"

definition call_unary_handler where
  "call_unary_handler C fault dial call_id peer_id proto data = on_persistent C fault dial call_id (CallReq peer_id proto data)"

definition add_unary_handler where
  "add_unary_handler C fault dial call_id proto balanced = on_persistent C fault dial call_id (AddReq proto balanced)"

definition remove_unary_handler where
  "remove_unary_handler C fault dial call_id proto = on_persistent C fault dial call_id (RemoveReq proto)"

section \<open>Requests of remote peers on a stream\<close>

definition unwrap_stream_handler_request :: "pc_lib \<Rightarrow> bytes \<Rightarrow> p2p_error + (bytes \<times> bytes)" where
  "unwrap_stream_handler_request L bs =
     (case pl_dec_req L bs of
        Inl e \<Rightarrow> Inl (PProtocol (''decode PersistentConnectionRequest: '' @ e))
      | Inr outer \<Rightarrow>
          (case pcq_message outer of
             Some (CallUnary cu) \<Rightarrow> Inr (pcq_call_id outer, cu_data cu)
           | other \<Rightarrow> Inl (PProtocol (''expected CallUnary in PersistentConnectionRequest, got: '' @
               (case other of None \<Rightarrow> ''None'' | Some _ \<Rightarrow> ''Some('' @ [CHR 0x22] @ ''other variant'' @ [CHR 0x22] @ '')'')))))"

definition wrap_stream_handler_response :: "pc_lib \<Rightarrow> bytes \<Rightarrow> bytes \<Rightarrow> bytes" where
  "wrap_stream_handler_response L call_id response_data =
     write_varint_framed (pl_varint L)
       (pl_enc_res L \<lparr>pcr_call_id = call_id, pcr_message = Some (CallUnaryResponse (Some (UnaryOk response_data)))\<rparr>)"

section \<open>Answers in order\<close>

fun send_all ::
    "'m client_lib \<Rightarrow> daemon_request list \<Rightarrow> 'h p2p_client \<Rightarrow> 'h p2p_client \<times> (p2p_error + daemon_response) list" where
  "send_all C [] cl = (cl, [])"
| "send_all C (q # qs) cl =
     (let (cl1, r) = send_request C None q cl; (cl2, rs) = send_all C qs cl1 in (cl2, r # rs))"

definition daemon_result :: "daemon_response \<Rightarrow> p2p_error + daemon_response" where
  "daemon_result r = (case dr_error r of Some msg \<Rightarrow> Inl (PProtocol (''Daemon error: '' @ msg)) | None \<Rightarrow> Inr r)"

lemma send_request_answered:
  assumes "varint_ok (cl_varint C)" "cl_dec_response C bs = Inr r" "length bs \<le> 10 * 1024 * 1024"
    and "cl_in cl = write_varint_framed (cl_varint C) bs @ rest"
  shows "send_request C None q cl =
    (cl\<lparr>cl_out := cl_out cl @ write_varint_framed (cl_varint C) (cl_enc_request C q), cl_in := rest\<rparr>, daemon_result r)"
  using assms read_limited_frame [OF assms(1,3)]
  by (simp add: send_request_def read_framed_def daemon_result_def Let_def split: option.split)

text \<open>
  The control socket stays in step: if the daemon answers every request with one framed response
  of at most 10 MB, then any sequence of requests gets the responses in order, each request its own
  (an error response as an error), the socket has carried exactly the frames of the requests, and
  whatever the daemon sends afterwards is left unread.
\<close>

theorem requests_answered_in_order:
  assumes "varint_ok (cl_varint C)" "length qs = length rs"
    and "\<And>r. r \<in> set rs \<Longrightarrow> cl_dec_response C (enc r) = Inr r \<and> length (enc r) \<le> 10 * 1024 * 1024"
    and "cl_in cl = concat (map (\<lambda>r. write_varint_framed (cl_varint C) (enc r)) rs) @ rest"
  shows "send_all C qs cl =
    (cl\<lparr>cl_in := rest, cl_out := cl_out cl @ concat (map (\<lambda>q. write_varint_framed (cl_varint C) (cl_enc_request C q)) qs)\<rparr>,
     map daemon_result rs)"
  using assms(2-4)
proof (induction qs rs arbitrary: cl rule: list_induct2)
  case (Cons q qs r rs)
  have sent: "send_request C None q cl =
      (cl\<lparr>cl_out := cl_out cl @ write_varint_framed (cl_varint C) (cl_enc_request C q),
          cl_in := concat (map (\<lambda>r. write_varint_framed (cl_varint C) (enc r)) rs) @ rest\<rparr>, daemon_result r)"
    using Cons.prems by (intro send_request_answered [OF assms(1)]) simp_all
  show ?case using Cons.IH [OF Cons.prems(1)] by (simp add: sent)
qed simp

text \<open>
  After a response that is too large the client takes payload bytes for responses. A length of more
  than 10 MB makes the request fail, but its payload stays on the socket and the socket stays in use:
  the next request, whatever it is, is answered with the frame the payload begins with.
\<close>

theorem oversized_response_desyncs:
  assumes "varint_ok (cl_varint C)" "10 * 1024 * 1024 < n" "n < 2 ^ 64"
    and "cl_in cl = vi_encode (cl_varint C) n @ write_varint_framed (cl_varint C) bs @ rest"
    and "cl_dec_response C bs = Inr r" "length bs \<le> 10 * 1024 * 1024" "dr_error r = None"
  shows "\<exists>e. snd (send_request C None q cl) = Inl e \<and> snd (send_request C None q' (fst (send_request C None q cl))) = Inr r"
proof -
  let ?V = "cl_varint C"
  note v = varint_prefix [OF assms(1,3)]
  have first: "send_request C None q cl =
      (cl\<lparr>cl_out := cl_out cl @ write_varint_framed ?V (cl_enc_request C q), cl_in := write_varint_framed ?V bs @ rest\<rparr>,
       Inl (PProtocol (''Message too large: '' @ show_nat n @ '' bytes'')))"
    using assms(2,4) v by (simp add: send_request_def read_framed_def read_limited_def after_failed_read_def Let_def)
  show ?thesis
    using send_request_answered [OF assms(1,5,6), of "fst (send_request C None q cl)" rest q'] assms(7)
    by (simp add: first daemon_result_def)
qed

section \<open>Reconnecting\<close>

lemma upgraded_is_new:
  assumes "upgrade_connection C fault input = Some (Inr conn)"
  shows "\<exists>rest. conn = connection_new\<lparr>pc_input := rest\<rparr>"
proof -
  obtain x where x: "read_varint_framed_static (cl_varint C) input = Some x" "fault = None"
    using assms by (auto simp: upgrade_connection_def split: option.splits)
  with assms show ?thesis
    by (cases x) (auto simp: upgrade_connection_def split: sum.splits option.splits)
qed

text \<open>
  C39: A reconnect forgets the registered handlers. When the connection has died and the daemon accepts a
  new one, the next operation on the client gets a connection on which no protocol has a handler: every
  incoming request is answered with \<open>not found\<close>, whatever was registered before.
\<close>

theorem reconnect_forgets_handlers:
  fixes cl :: "'h p2p_client"
  assumes "cl_persistent cl = Some conn" "\<not> is_alive conn"
    and "get_persistent_connection C fault dial cl = Some (cl', Inr conn')"
    and "uuid_from_slice (pcr_call_id r) = Some call_id" "pcr_message r = Some (RequestHandling req)"
  shows "cl_persistent cl' = Some conn' \<and> is_alive conn' \<and>
    pc_output (dispatch_response None r conn') =
      [Whole (unary_response (pcr_call_id r) (UnaryError (str_bytes (''handler for protocol '' @ cu_proto req @ '' not found''))))]"
proof -
  obtain input where "connect_stream dial (cl_daemon_addr cl) = Inr input"
    using assms(1-3) by (auto simp: get_persistent_connection_def Let_def split: sum.splits)
  moreover from this obtain x :: "p2p_error + 'h connection" where "upgrade_connection C fault input = Some x"
    using assms(1-3) by (auto simp: get_persistent_connection_def Let_def)
  ultimately have up: "upgrade_connection C fault input = Some (Inr conn')" "cl_persistent cl' = Some conn'"
    using assms(1-3) by (cases x; auto simp: get_persistent_connection_def Let_def)+
  then obtain rest where "conn' = connection_new\<lparr>pc_input := rest\<rparr>"
    using upgraded_is_new by blast
  with up(2) assms(4,5) show ?thesis
    by (simp add: dispatch_response_def handle_incoming_def connection_new_def is_alive_def write_varint_message_def)
qed

section \<open>Requests of remote peers come back to their callers\<close>

text \<open>
  A request that a caller wrote on its connection, read from a stream by the handler of another
  node, gives the id and the data of the call; the wrapped answer completes that call with the data.
\<close>

definition call_answer :: "bytes \<Rightarrow> bytes \<Rightarrow> pc_response" where
  "call_answer call_id out = \<lparr>pcr_call_id = call_id, pcr_message = Some (CallUnaryResponse (Some (UnaryOk out)))\<rparr>"

theorem stream_handler_roundtrip:
  assumes V: "varint_ok (pl_varint L)" and id: "length call_id = 16"
    and st: "pc_alive st" "pc_input st = wrap_stream_handler_response L call_id out @ rest"
    and pend: "hm_get (pc_pending st) call_id = Some n" "n < length (pc_channels st)"
    and ok: "pc_response_ok L (call_answer call_id out)" "pc_request_ok L (request_message call_id (CallReq peer proto data))"
  shows "unwrap_stream_handler_request L (pl_enc_req L (request_message call_id (CallReq peer proto data))) = Inr (call_id, data) \<and>
    (\<exists>st'. conn_step L (Read None) st = Some st' \<and> pc_input st' = rest \<and> call_unary_finish (pc_channels st' ! n) = Some (Inr out))"
proof -
  have "read_varint_message (pl_varint L) (pc_input st) = Some (Inr (pl_enc_res L (call_answer call_id out), rest))"
    using read_message_frame [OF V, of "pl_enc_res L (call_answer call_id out)" rest] ok(1) st(2)
    by (simp add: wrap_stream_handler_response_def pc_response_ok_def call_answer_def)
  moreover have "pl_dec_res L (pl_enc_res L (call_answer call_id out)) = Inr (call_answer call_id out)"
    using ok(1) by (simp add: pc_response_ok_def)
  ultimately show ?thesis
    using id st(1) pend ok(2)
    by (simp add: unwrap_stream_handler_request_def reader_step_def handle_frame_def dispatch_response_def uuid_from_slice_def
        complete_call_def send_slot_def call_unary_finish_def unary_outcome_def pc_request_ok_def call_answer_def)
qed

section \<open>Instances\<close>

definition demo_response :: daemon_response where
  "demo_response = \<lparr>dr_type = 0, dr_error = None, dr_stream_info = None, dr_identify = None, dr_dht = None, dr_peers = []\<rparr>"

definition demo_client :: "unit client_lib" where
  "demo_client = \<lparr>cl_pc = demo_pc, cl_enc_request = (\<lambda>q. [word_of_int (dq_type q)]),
     cl_dec_response = (\<lambda>bs. if bs = [9] then Inr demo_response else if bs = [8] then Inr (demo_response\<lparr>dr_error := Some ''busy''\<rparr>) else Inl ''bad''),
     cl_hex = (\<lambda>_. []), cl_ma_parse = (\<lambda>_. Inr ()), cl_ma_from_bytes = (\<lambda>_. Inr ()), cl_ma_components = (\<lambda>_. []), cl_ma_to_vec = (\<lambda>_. [])\<rparr>"

definition demo_socket :: "bytes \<Rightarrow> unit p2p_client" where
  "demo_socket input = \<lparr>cl_in = input, cl_out = [], cl_persistent = None, cl_daemon_addr = ''/unix/tmp/p2pd.sock''\<rparr>"

lemma demo_client_varint: "cl_varint demo_client = demo_varint"
  by (simp add: demo_client_def demo_pc_def)

lemma demo_decode: "cl_dec_response demo_client [9] = Inr demo_response"
  "cl_dec_response demo_client [8] = Inr (demo_response\<lparr>dr_error := Some ''busy''\<rparr>)" "dr_error demo_response = None"
  by (simp_all add: demo_client_def demo_response_def)

theorem requests_answered_in_order_witness:
  "snd (send_all demo_client [plain_request 0, plain_request 5]
     (demo_socket (write_varint_framed demo_varint [9] @ write_varint_framed demo_varint [8]))) =
   [Inr demo_response, Inl (PProtocol ''Daemon error: busy'')]"
proof -
  let ?rs = "[demo_response, demo_response\<lparr>dr_error := Some ''busy''\<rparr>]"
    and ?enc = "\<lambda>r. if dr_error r = None then [9] else [8 :: u8]"
    and ?cl = "demo_socket (write_varint_framed demo_varint [9] @ write_varint_framed demo_varint [8])"
  have "send_all demo_client [plain_request 0, plain_request 5] ?cl =
      (?cl\<lparr>cl_in := [], cl_out := cl_out ?cl @ concat (map (\<lambda>q. write_varint_framed (cl_varint demo_client) (cl_enc_request demo_client q)) [plain_request 0, plain_request 5])\<rparr>,
       map daemon_result ?rs)"
    by (rule requests_answered_in_order [where enc = ?enc])
      (auto simp: demo_client_varint demo_varint_ok demo_socket_def demo_decode)
  then show ?thesis by (simp add: daemon_result_def demo_decode)
qed

theorem oversized_response_desyncs_witness:
  "\<exists>e. snd (send_request demo_client None (plain_request 0)
       (demo_socket (vi_encode demo_varint (2 ^ 30) @ write_varint_framed demo_varint [9]))) = Inl e \<and>
     snd (send_request demo_client None (plain_request 5)
       (fst (send_request demo_client None (plain_request 0)
         (demo_socket (vi_encode demo_varint (2 ^ 30) @ write_varint_framed demo_varint [9]))))) = Inr demo_response"
  by (rule oversized_response_desyncs [where n = "2 ^ 30" and bs = "[9]" and rest = "[]"])
    (simp_all add: demo_client_varint demo_varint_ok demo_socket_def demo_decode)

text \<open>A node with a handler for \<open>p\<close>: its connection dies, and the next call makes a new one.\<close>

definition demo_dead :: "unit connection" where
  "demo_dead = reader_closed (PIo UnexpectedEof) (connection_new\<lparr>pc_handlers := [(''p'', ())]\<rparr>)"

theorem reconnect_forgets_handlers_witness:
  "\<exists>cl' conn'. get_persistent_connection demo_client None (\<lambda>_ _. Inr (write_varint_framed demo_varint [9]))
       ((demo_socket [])\<lparr>cl_persistent := Some demo_dead\<rparr>) = Some (cl', Inr conn') \<and>
     hm_get (pc_handlers demo_dead) ''p'' = Some () \<and>
     pc_output (dispatch_response None demo_incoming conn') =
       [Whole (unary_response demo_id (UnaryError (str_bytes ''handler for protocol p not found'')))]"
proof -
  let ?cl = "(demo_socket [])\<lparr>cl_persistent := Some demo_dead\<rparr>"
  have dead: "cl_persistent ?cl = Some demo_dead" "\<not> is_alive demo_dead"
    by (simp_all add: demo_dead_def is_alive_def reader_closed_def)
  have "read_varint_framed_static demo_varint (write_varint_framed demo_varint [9]) = Some (Inr ([9], []))"
    using read_static_frame [OF demo_varint_ok, of "[9]" "[]"] by (simp add: isize_max_def)
  then have "upgrade_connection demo_client None (write_varint_framed demo_varint [9]) = Some (Inr (connection_new\<lparr>pc_input := []\<rparr> :: unit connection))"
    by (simp add: upgrade_connection_def demo_client_varint demo_decode)
  moreover have "connect_stream (\<lambda>_ _. Inr bs) (cl_daemon_addr ?cl) = Inr bs" for bs
    by (simp add: connect_stream_def demo_socket_def starts_with_def dial_loop.simps)
  ultimately obtain cl' conn' where get: "get_persistent_connection demo_client None (\<lambda>_ _. Inr (write_varint_framed demo_varint [9])) ?cl = Some (cl', Inr conn')"
    using dead by (simp add: get_persistent_connection_def)
  have h: "hm_get (pc_handlers demo_dead) ''p'' = Some ()" by (simp add: demo_dead_def reader_closed_def connection_new_def hm_get_def)
  have id: "uuid_from_slice (pcr_call_id demo_incoming) = Some demo_id"
    "pcr_message demo_incoming = Some (RequestHandling \<lparr>cu_peer = [], cu_proto = ''p'', cu_data = []\<rparr>)"
    "pcr_call_id demo_incoming = demo_id"
    by (simp_all add: demo_incoming_def demo_id_def uuid_from_slice_def)
  from reconnect_forgets_handlers [OF dead get id(1,2)] get h id(3) show ?thesis by auto
qed

end
