(* ===== verification/Node_Dht.thy ===== *)
theory Node_Dht
  imports Dht_Server Reputation P2p_Client
begin

text \<open>
  The DHT side of a node (\<open>kwaai-cli/src/node.rs\<close>): the records it announces, the STORE requests that
  carry them to its own table and to the bootstrap peers, and the handler for DHT streams that the
  daemon forwards. A call to a bootstrap peer is a function on an abstract world; it gives the latency
  and the outcome, \<open>None\<close> when the time limit of 30 seconds passed. The clock of the DHT is read as in
  \<open>Dht_Server\<close>.

  MessagePack values are those of the crate \<open>rmpv\<close>; reading, writing and the conversions of a value are
  parameters, with their documented round trip as \<open>rmpv_ok\<close>.
\<close>

section \<open>MessagePack values\<close>

datatype msg_value =
    VNil
  | VBool bool
  | VInt int
  | VF32 f64
  | VF64 f64
  | VString string
  | VBinary bytes
  | VArray "msg_value list"
  | VMap "(msg_value \<times> msg_value) list"
  | VExt int bytes

record rmpv =
  rv_read :: "bytes \<Rightarrow> msg_value option"
  rv_write :: "msg_value \<Rightarrow> string + bytes"
  rv_as_i64 :: "msg_value \<Rightarrow> int option"
  rv_as_f64 :: "msg_value \<Rightarrow> f64 option"
  rv_as_str :: "msg_value \<Rightarrow> string option"

definition rmpv_ok :: "rmpv \<Rightarrow> bool" where
  "rmpv_ok R \<longleftrightarrow> (\<forall>v bs. rv_write R v = Inr bs \<longrightarrow> rv_read R bs = Some v \<and> bs \<noteq> []) \<and>
     (\<forall>i. - (2 ^ 63) \<le> i \<longrightarrow> i < 2 ^ 63 \<longrightarrow> rv_as_i64 R (VInt i) = Some i) \<and>
     (\<forall>x. rv_as_f64 R (VF64 x) = Some x) \<and> (\<forall>s. rv_as_str R (VString s) = Some s)"

text \<open>The libraries a node uses: peer ids, protobuf, MessagePack values and strings, SHA-1, and the derived
  \<open>Display\<close> of a DHT error.\<close>

record 'p node_lib =
  nl_peer :: "'p peer_id_ops"
  nl_prost :: dht_prost
  nl_rmpv :: rmpv
  nl_pack_str :: "string \<Rightarrow> bytes"
  nl_sha1 :: "bytes \<Rightarrow> bytes"
  nl_error_text :: "dht_error \<Rightarrow> string"

section \<open>Announced records\<close>

record vpk_info =
  vk_mode :: string
  vk_capacity_gb :: f64
  vk_tenant_count :: u32
  vk_vpk_version :: string
  vk_public_name :: string

definition vpk_msgpack_value :: "vpk_info \<Rightarrow> msg_value" where
  "vpk_msgpack_value v = VMap
     [(VString ''mode'', VString (vk_mode v)),
      (VString ''capacity_gb'', VF64 (vk_capacity_gb v)),
      (VString ''tenant_count'', VInt (uint (vk_tenant_count v))),
      (VString ''vpk_version'', VString (vk_vpk_version v)),
      (VString ''public_name'', VString (vk_public_name v))]"

definition vpk_msgpack_bytes :: "rmpv \<Rightarrow> vpk_info \<Rightarrow> string + bytes" where
  "vpk_msgpack_bytes R v = rv_write R (vpk_msgpack_value v)"

record dht_server_info =
  si_state :: int
  si_throughput :: f64
  si_start_block :: int
  si_end_block :: int
  si_public_name :: string
  si_version :: string
  si_torch_dtype :: string
  si_using_relay :: bool
  si_cache_tokens_left :: int
  si_trust_attestations :: "string list"
  si_vpk_info :: "vpk_info option"
  si_peer_id_b58 :: string

text \<open>\<open>ready\<close> is the outcome of \<open>ShardManager::shard_is_ready\<close>, \<open>version\<close> the version of the build.\<close>

definition server_info_new ::
    "bool \<Rightarrow> string \<Rightarrow> int \<Rightarrow> int \<Rightarrow> string \<Rightarrow> bool \<Rightarrow> f64 \<Rightarrow> string list \<Rightarrow> vpk_info option \<Rightarrow> string \<Rightarrow> dht_server_info" where
  "server_info_new ready version start_at end_at name relay throughput attestations vpk peer_id_b58 =
     \<lparr>si_state = (if ready then 2 else 0), si_throughput = throughput, si_start_block = start_at, si_end_block = end_at,
      si_public_name = name, si_version = ''kwaai-'' @ version, si_torch_dtype = ''float16'', si_using_relay = relay,
      si_cache_tokens_left = 100000, si_trust_attestations = attestations, si_vpk_info = vpk, si_peer_id_b58 = peer_id_b58\<rparr>"

definition server_info_fields :: "dht_server_info \<Rightarrow> (msg_value \<times> msg_value) list" where
  "server_info_fields i =
     [(VString ''start_block'', VInt (si_start_block i)),
      (VString ''end_block'', VInt (si_end_block i)),
      (VString ''public_name'', VString (si_public_name i)),
      (VString ''version'', VString (si_version i)),
      (VString ''torch_dtype'', VString (si_torch_dtype i)),
      (VString ''using_relay'', VBool (si_using_relay i)),
      (VString ''cache_tokens_left'', VInt (si_cache_tokens_left i)),
      (VString ''adapters'', VArray []),
      (VString ''next_pings'', VMap []),
      (VString ''peer_id'', VString (si_peer_id_b58 i))] @
     (if si_trust_attestations i = [] then []
      else [(VString ''trust_attestations'', VArray (map VString (si_trust_attestations i)))]) @
     (case si_vpk_info i of None \<Rightarrow> [] | Some vpk \<Rightarrow> [(VString ''vpk'', vpk_msgpack_value vpk)])"

definition server_info_msgpack :: "rmpv \<Rightarrow> dht_server_info \<Rightarrow> string + bytes" where
  "server_info_msgpack R i =
     (case rv_write R (VArray [VInt (si_state i), VF64 (si_throughput i), VMap (server_info_fields i)]) of
        Inl e \<Rightarrow> Inl e
      | Inr inner_bytes \<Rightarrow> rv_write R (VExt 64 inner_bytes))"

record model_info =
  mi_num_blocks :: int
  mi_repository :: string

definition model_info_msgpack :: "rmpv \<Rightarrow> model_info \<Rightarrow> string + bytes" where
  "model_info_msgpack R m =
     rv_write R (VMap [(VString ''repository'', VString (mi_repository m)), (VString ''num_blocks'', VInt (mi_num_blocks m))])"

definition dht_id :: "'p node_lib \<Rightarrow> string \<Rightarrow> bytes" where
  "dht_id L raw_key = nl_sha1 L (nl_pack_str L raw_key)"

definition show_int :: "int \<Rightarrow> string" where
  "show_int i = (if i < 0 then CHR ''-'' # show_nat (nat (- i)) else show_nat (nat i))"

section \<open>STORE requests\<close>

text \<open>One entry per block, each with its own reading of the clock; the last reading is for the header.\<close>

definition block_store_request ::
    "'p node_lib \<Rightarrow> string \<Rightarrow> int \<Rightarrow> int \<Rightarrow> bytes \<Rightarrow> bytes \<Rightarrow> (nat \<Rightarrow> f64) \<Rightarrow> f64 \<Rightarrow> node_info \<Rightarrow> store_request" where
  "block_store_request L prefix start_block end_block subkey info_bytes expiry now node =
     (let blocks = [start_block..end_block - 1]; n = length blocks in
      \<lparr>sq_auth = Some (request_auth_new now),
       sq_keys = map (\<lambda>b. dht_id L (prefix @ ''.'' @ show_int b)) blocks,
       sq_subkeys = replicate n subkey, sq_values = replicate n info_bytes,
       sq_expiration_time = map expiry [0..<n], sq_in_cache = replicate n False, sq_peer = Some node\<rparr>)"

definition single_store_request :: "f64 \<Rightarrow> f64 \<Rightarrow> bytes \<Rightarrow> bytes \<Rightarrow> bytes \<Rightarrow> node_info \<Rightarrow> store_request" where
  "single_store_request now expiry key subkey val node =
     \<lparr>sq_auth = Some (request_auth_new now), sq_keys = [key], sq_subkeys = [subkey], sq_values = [val],
      sq_expiration_time = [expiry], sq_in_cache = [False], sq_peer = Some node\<rparr>"

section \<open>Bootstrap peers\<close>

text \<open>\<open>addr.split(pat).nth(1)\<close>: what follows the first separator, up to the next one.\<close>

fun split_once :: "string \<Rightarrow> string \<Rightarrow> (string \<times> string) option" where
  "split_once p [] = None"
| "split_once p (c # s) =
     (case strip_prefix p (c # s) of
        Some r \<Rightarrow> Some ([], r)
      | None \<Rightarrow> map_option (\<lambda>(a, b). (c # a, b)) (split_once p s))"

definition second_piece :: "string \<Rightarrow> string \<Rightarrow> string option" where
  "second_piece p s =
     map_option (\<lambda>(_, r). case split_once p r of None \<Rightarrow> r | Some (a, _) \<Rightarrow> a) (split_once p s)"

type_synonym ('p, 'w) peer_call = "'p \<Rightarrow> string \<Rightarrow> bytes \<Rightarrow> 'w \<Rightarrow> 'w \<times> f64 \<times> (string + bytes) option"

record peer_timing =
  pt_peer_id :: string
  pt_addr :: string
  pt_latency_ms :: f64
  pt_success :: bool

fun send_loop ::
    "'p node_lib \<Rightarrow> ('p, 'w) peer_call \<Rightarrow> bytes \<Rightarrow> string list \<Rightarrow> nat \<Rightarrow> peer_timing list \<Rightarrow> 'w \<Rightarrow> 'w \<times> nat \<times> peer_timing list" where
  "send_loop L call bs [] succeeded timings w = (w, succeeded, timings)"
| "send_loop L call bs (addr # addrs) succeeded timings w =
     (case second_piece ''/p2p/'' addr of
        None \<Rightarrow> send_loop L call bs addrs succeeded timings w
      | Some peer_id_str \<Rightarrow>
          (case pid_parse (nl_peer L) peer_id_str of
             None \<Rightarrow> send_loop L call bs addrs succeeded timings w
           | Some bp \<Rightarrow>
               (let (w', latency_ms, result) = call bp ''DHTProtocol.rpc_store'' bs w;
                    rpc_ok = (case result of Some (Inr _) \<Rightarrow> True | _ \<Rightarrow> False);
                    timing = \<lparr>pt_peer_id = peer_id_str, pt_addr = addr, pt_latency_ms = latency_ms, pt_success = rpc_ok\<rparr>;
                    stored = (case result of
                        Some (Inr resp_bytes) \<Rightarrow>
                          (case dec_store_res (nl_prost L) resp_bytes of
                             Inr resp \<Rightarrow> if length (filter id (sr_store_ok resp)) > 0 then 1 else 0
                           | Inl _ \<Rightarrow> 0)
                      | _ \<Rightarrow> 0)
                in send_loop L call bs addrs (succeeded + stored) (timings @ [timing]) w')))"

definition send_to_bootstrap ::
    "'p node_lib \<Rightarrow> ('p, 'w) peer_call \<Rightarrow> string list \<Rightarrow> store_request \<Rightarrow> 'w \<Rightarrow> 'w \<times> bool \<times> peer_timing list" where
  "send_to_bootstrap L call bootstrap_peers req w =
     (if bootstrap_peers = [] then (w, False, [])
      else let (w', succeeded, timings) = send_loop L call (enc_store_req (nl_prost L) req) bootstrap_peers 0 [] w
           in (w', succeeded > 0, timings))"

section \<open>Announcing\<close>

text \<open>The name under which a bootstrap peer is recorded: its DNS name, or the start of its id.\<close>

fun dns_name :: "string list \<Rightarrow> string option" where
  "dns_name (a # b # rest) = (if a = ''dns'' \<or> a = ''dns4'' \<or> a = ''dns6'' then Some b else dns_name (b # rest))"
| "dns_name _ = None"

definition timing_name :: "peer_timing \<Rightarrow> string" where
  "timing_name pt = unwrap_or (dns_name (split_char CHR ''/'' (pt_addr pt))) (take 12 (pt_peer_id pt))"

definition record_timing ::
    "bool \<Rightarrow> u64 \<Rightarrow> peer_timing \<Rightarrow> reputation_store \<times> reputation_store option \<Rightarrow> reputation_store \<times> reputation_store option" where
  "record_timing io_ok now pt =
     reputation_record io_ok (pt_peer_id pt) (timing_name pt)
       \<lparr>po_timestamp_secs = now, po_latency_ms = pt_latency_ms pt, po_success = pt_success pt,
        po_observed_tps = None, po_claimed_tps = None\<rparr>"

text \<open>
  The state of an announcement: the node's own table with the number of its next clock reading, and
  the world of the peers. \<open>now n\<close> are the readings of the clock by the announcing code itself.
\<close>

definition publish ::
    "'p node_lib \<Rightarrow> ('p, 'w) peer_call \<Rightarrow> clock \<Rightarrow> string list \<Rightarrow> store_request \<Rightarrow> 'p dht_storage \<times> nat \<times> 'w
      \<Rightarrow> ('p dht_storage \<times> nat \<times> 'w) \<times> bool \<times> peer_timing list" where
  "publish L call clk bootstrap_peers req = (\<lambda>(s, t, w).
     let (s', _, t') = handle_store (nl_peer L) clk t req s;
         (w', ok, timings) = send_to_bootstrap L call bootstrap_peers req w
     in ((s', t', w'), ok, timings))"

definition expires :: "f64 \<Rightarrow> f64" where
  "expires now = f64_add now (Fin 360)"

record 'p announcement =
  an_peer_id :: 'p
  an_prefix :: string
  an_repository :: string
  an_total_blocks :: int
  an_start_block :: int
  an_end_block :: int
  an_info :: dht_server_info

definition announce ::
    "'p node_lib \<Rightarrow> ('p, 'w) peer_call \<Rightarrow> clock \<Rightarrow> (nat \<Rightarrow> f64) \<Rightarrow> (nat \<Rightarrow> bool \<times> u64) \<Rightarrow> string list \<Rightarrow> 'p announcement
      \<Rightarrow> (reputation_store \<times> reputation_store option) option \<Rightarrow> 'p dht_storage \<times> nat \<times> 'w
      \<Rightarrow> (reputation_store \<times> reputation_store option) option \<times> ('p dht_storage \<times> nat \<times> 'w) \<times> (string + unit)" where
  "announce L call clk now secs bootstrap_peers a rep st =
     (let R = nl_rmpv L; P = nl_peer L; info = an_info a; n = nat (an_end_block a - an_start_block a);
          subkey = nl_pack_str L (pid_to_base58 P (an_peer_id a)); node = node_info_from_peer_id P (an_peer_id a) in
      case server_info_msgpack R info of
        Inl e \<Rightarrow> (rep, st, Inl e)
      | Inr info_bytes \<Rightarrow>
          (let (st1, _, timings) = publish L call clk bootstrap_peers
                 (block_store_request L (an_prefix a) (an_start_block a) (an_end_block a) subkey info_bytes
                    (\<lambda>i. expires (now i)) (now n) node) st;
               rep1 = map_option (\<lambda>r. foldl (\<lambda>r (i, pt). record_timing (fst (secs i)) (snd (secs i)) pt r) r
                        (zip [0..<length timings] timings)) rep in
           case model_info_msgpack R \<lparr>mi_num_blocks = an_total_blocks a, mi_repository = an_repository a\<rparr> of
             Inl e \<Rightarrow> (rep1, st1, Inl e)
           | Inr model_bytes \<Rightarrow>
               (let (st2, _) = publish L call clk bootstrap_peers
                      (single_store_request (now (n + 1)) (expires (now (n + 2))) (dht_id L ''_petals.models'')
                         (nl_pack_str L (an_prefix a)) model_bytes node) st1;
                    (st3, _) = publish L call clk bootstrap_peers
                      (single_store_request (now (n + 3)) (expires (now (n + 4))) (dht_id L ''_kwaai.inference.nodes'')
                         subkey info_bytes node) st2 in
                case si_vpk_info info of
                  None \<Rightarrow> (rep1, st3, Inr ())
                | Some vpk \<Rightarrow>
                    (case vpk_msgpack_bytes R vpk of
                       Inl e \<Rightarrow> (rep1, st3, Inl e)
                     | Inr vpk_bytes \<Rightarrow>
                         (rep1, fst (publish L call clk bootstrap_peers
                            (single_store_request (now (n + 5)) (expires (now (n + 6))) (dht_id L ''_kwaai.vpk.nodes'')
                               subkey vpk_bytes node) st3), Inr ())))))"

definition offline_info :: "dht_server_info \<Rightarrow> dht_server_info" where
  "offline_info i = i\<lparr>si_state := -1, si_throughput := Fin 0, si_cache_tokens_left := 0,
     si_trust_attestations := [], si_vpk_info := None\<rparr>"

definition unannounce ::
    "'p node_lib \<Rightarrow> ('p, 'w) peer_call \<Rightarrow> clock \<Rightarrow> (nat \<Rightarrow> f64) \<Rightarrow> string list \<Rightarrow> 'p \<Rightarrow> string \<Rightarrow> dht_server_info
      \<Rightarrow> 'p dht_storage \<times> nat \<times> 'w \<Rightarrow> 'p dht_storage \<times> nat \<times> 'w" where
  "unannounce L call clk now bootstrap_peers peer_id prefix info st =
     (let R = nl_rmpv L; P = nl_peer L; expired = expires (now 0); node = node_info_from_peer_id P peer_id;
          subkey = nl_pack_str L (pid_to_base58 P peer_id) in
      case server_info_msgpack R (offline_info info) of
        Inl _ \<Rightarrow> st
      | Inr info_bytes \<Rightarrow>
          (let (st1, _) = publish L call clk bootstrap_peers
                 (block_store_request L prefix (si_start_block info) (si_end_block info) subkey info_bytes
                    (\<lambda>_. expired) (now 1) node) st in
           case si_vpk_info info of
             None \<Rightarrow> st1
           | Some vpk \<Rightarrow>
               (case vpk_msgpack_bytes R vpk of
                  Inl _ \<Rightarrow> st1
                | Inr vpk_bytes \<Rightarrow>
                    fst (publish L call clk bootstrap_peers
                      (single_store_request (now 2) expired (dht_id L ''_kwaai.vpk.nodes'') subkey vpk_bytes node) st1))))"

section \<open>Forwarded DHT streams\<close>

text \<open>
  \<open>read_rpc_message\<close>: the loop that collects the prefix stops at the end of the stream; a missing or
  oversized length makes the whole stream the message.
\<close>

fun prefix_bytes :: "nat \<Rightarrow> bytes \<Rightarrow> bytes \<times> bytes" where
  "prefix_bytes 0 io = ([], io)"
| "prefix_bytes (Suc n) [] = ([], [])"
| "prefix_bytes (Suc n) (b # io) =
     (if \<not> high_bit b then ([b], io) else let (bs, r) = prefix_bytes n io in (b # bs, r))"

definition read_rpc_message :: "varint_lib \<Rightarrow> bytes \<Rightarrow> string + (bytes \<times> bool)" where
  "read_rpc_message V io =
     (case io of
        [] \<Rightarrow> Inr ([], False)
      | _ \<Rightarrow>
          (let (varint_buf, io1) = prefix_bytes 10 io in
           case vi_decode V varint_buf of
             Inr (len, _) \<Rightarrow>
               if len \<le> 10 * 1024 * 1024
               then (case read_exact len io1 of
                       Inl e \<Rightarrow> Inl (''read_exact('' @ show_nat len @ '' bytes): '' @ io_error_text e)
                     | Inr (payload, _) \<Rightarrow> Inr (payload, True))
               else Inr (varint_buf @ io1, False)
           | Inl _ \<Rightarrow> Inr (varint_buf @ io1, False)))"

definition rpc_request :: "dht_prost \<Rightarrow> string \<Rightarrow> bytes \<Rightarrow> string + dht_request" where
  "rpc_request D proto dht_data =
     (if proto = ''DHTProtocol.rpc_store''
      then (case dec_store_req D dht_data of Inl e \<Rightarrow> Inl (''decode StoreRequest: '' @ e) | Inr r \<Rightarrow> Inr (ReqStore r))
      else if proto = ''DHTProtocol.rpc_find''
      then (case dec_find_req D dht_data of Inl e \<Rightarrow> Inl (''decode FindRequest: '' @ e) | Inr r \<Rightarrow> Inr (ReqFind r))
      else (case dec_ping_req D dht_data of Inl e \<Rightarrow> Inl (''decode PingRequest: '' @ e) | Inr r \<Rightarrow> Inr (ReqPing r)))"

fun encode_response :: "dht_prost \<Rightarrow> dht_response \<Rightarrow> bytes" where
  "encode_response D (ResStore r) = enc_store_res D r"
| "encode_response D (ResFind r) = enc_find_res D r"
| "encode_response D (ResPing r) = enc_ping_res D r"

text \<open>The handler gives the bytes it writes back; every error ends the stream without an answer.\<close>

definition handle_rpc_stream ::
    "'p node_lib \<Rightarrow> pc_lib \<Rightarrow> (bytes \<Rightarrow> string + stream_info) \<Rightarrow> clock \<Rightarrow> bytes \<Rightarrow> 'p dht_storage \<times> nat
      \<Rightarrow> ('p dht_storage \<times> nat) \<times> (string + bytes)" where
  "handle_rpc_stream L PL dec_info clk tcp = (\<lambda>(s, t).
     case parse_stream_info (pl_varint PL) dec_info tcp of
       Inl e \<Rightarrow> ((s, t), Inl (''parse stream info: '' @ p2p_error_text e))
     | Inr (info, rest) \<Rightarrow>
         (case read_rpc_message (pl_varint PL) rest of
            Inl e \<Rightarrow> ((s, t), Inl e)
          | Inr (outer_bytes, _) \<Rightarrow>
              if outer_bytes = [] then ((s, t), Inr [])
              else case unwrap_stream_handler_request PL outer_bytes of
                Inl e \<Rightarrow> ((s, t), Inl (p2p_error_text e))
              | Inr (call_id, dht_data) \<Rightarrow>
                  (case rpc_request (nl_prost L) (si_proto info) dht_data of
                     Inl e \<Rightarrow> ((s, t), Inl e)
                   | Inr req \<Rightarrow>
                       (let (s', resp, t') = handle_request (nl_peer L) clk t req s in
                        case resp of
                          Inl e \<Rightarrow> ((s', t'), Inl (''handle_request: '' @ nl_error_text L e))
                        | Inr r \<Rightarrow> ((s', t'), Inr (wrap_stream_handler_response PL call_id (encode_response (nl_prost L) r)))))))"

section \<open>Addresses worth announcing\<close>

text \<open>\<open>std::net::Ipv4Addr\<close>: an address is its four octets.\<close>

type_synonym ipv4 = "nat \<times> nat \<times> nat \<times> nat"

fun ip_is_private :: "ipv4 \<Rightarrow> bool" where
  "ip_is_private (a, b, _, _) \<longleftrightarrow> a = 10 \<or> a = 172 \<and> 16 \<le> b \<and> b \<le> 31 \<or> a = 192 \<and> b = 168"

fun is_globally_routable_v4 :: "ipv4 \<Rightarrow> bool" where
  "is_globally_routable_v4 (a, b, c, d) \<longleftrightarrow>
     \<not> ((a, b, c, d) = (0, 0, 0, 0) \<or> a = 127 \<or> a = 169 \<and> b = 254 \<or> (a, b, c, d) = (255, 255, 255, 255) \<or>
        224 \<le> a \<and> a \<le> 239 \<or> ip_is_private (a, b, c, d)) \<and>
     \<not> (a = 100 \<and> 64 \<le> b \<and> b \<le> 127)"

datatype addr_part = Circuit | Ip4Part ipv4 | Ip6Part bool bool | OtherPart

text \<open>An IPv6 component is given by whether it is unspecified and whether it is loopback.\<close>

primrec announceable_scan :: "addr_part list \<Rightarrow> bool \<Rightarrow> bool \<Rightarrow> bool \<Rightarrow> bool \<times> bool \<times> bool" where
  "announceable_scan [] circuit routable bad = (circuit, routable, bad)"
| "announceable_scan (p # ps) circuit routable bad =
     (case p of
        Circuit \<Rightarrow> announceable_scan ps True routable bad
      | Ip4Part a \<Rightarrow>
          if is_globally_routable_v4 a then announceable_scan ps circuit True bad
          else announceable_scan ps circuit routable True
      | Ip6Part unspecified loopback \<Rightarrow>
          if unspecified \<or> loopback then announceable_scan ps circuit routable True
          else announceable_scan ps circuit True bad
      | OtherPart \<Rightarrow> announceable_scan ps circuit routable bad)"

definition is_announceable_addr :: "addr_part list \<Rightarrow> bool" where
  "is_announceable_addr ma =
     (let (circuit, routable, bad) = announceable_scan ma False False False
      in if circuit then True else routable \<and> \<not> bad)"

definition all_addrs_are_relay :: "string list \<Rightarrow> bool" where
  "all_addrs_are_relay addrs \<longleftrightarrow> addrs \<noteq> [] \<and> list_all (str_contains ''/p2p-circuit'') addrs"

text \<open>\<open>base - spread + (r >> 32) % (2 * spread + 1)\<close> with 64-bit wrap-around.\<close>

definition jitter_secs :: "u32 \<Rightarrow> u64 \<Rightarrow> u64 \<Rightarrow> u64" where
  "jitter_secs subsec_nanos base spread =
     (let r = ucast subsec_nanos * 6364136223846793005 + 1442695040888963407
      in base - spread + drop_bit 32 r mod (2 * spread + 1))"

section \<open>A forwarded stream is one request\<close>

lemma prefix_bytes_shape:
  "bs \<noteq> [] \<Longrightarrow> length bs \<le> n \<Longrightarrow> list_all high_bit (butlast bs) \<Longrightarrow> \<not> high_bit (last bs) \<Longrightarrow>
     prefix_bytes n (bs @ rest) = (bs, rest)"
proof (induction n arbitrary: bs)
  case (Suc n)
  then obtain b bs' where "bs = b # bs'" by (cases bs) auto
  with Suc show ?case by (cases "bs' = []") auto
qed simp

lemma read_rpc_frame:
  assumes "varint_ok V" "length m \<le> 10 * 1024 * 1024"
  shows "read_rpc_message V (write_varint_framed V m @ rest) = Inr (m, True)"
proof -
  have l: "length m < 2 ^ 64" using assms(2) by simp
  have "varint_shape (vi_encode V (length m))" using assms(1) l by (simp add: varint_ok_def)
  then have p: "prefix_bytes 10 (vi_encode V (length m) @ m @ rest) = (vi_encode V (length m), m @ rest)"
    and ne: "vi_encode V (length m) @ m @ rest \<noteq> []"
    using prefix_bytes_shape [of "vi_encode V (length m)" 10 "m @ rest"] by (simp_all add: varint_shape_def)
  show ?thesis
    using p ne varint_prefix(3) [OF assms(1) l] assms(2)
    by (cases "vi_encode V (length m) @ m @ rest")
      (simp_all add: read_rpc_message_def write_varint_framed_def read_exact_append)
qed

fun request_proto :: "dht_request \<Rightarrow> string" where
  "request_proto (ReqStore _) = ''DHTProtocol.rpc_store''"
| "request_proto (ReqFind _) = ''DHTProtocol.rpc_find''"
| "request_proto (ReqPing _) = ''DHTProtocol.rpc_ping''"

lemma rpc_request_payload:
  "prost_request_ok D req \<Longrightarrow> rpc_request D (request_proto req) (snd (request_payload D req)) = Inr req"
  by (cases req) (simp_all add: rpc_request_def)

text \<open>
  A DHT request that reaches a node as a forwarded stream is handled exactly as the request it
  carries: for every request that fits the limits of the readers, the table after the stream is the
  table after \<open>handle_request\<close>, and the bytes written back make the caller's pending call return the
  encoded response.
\<close>

theorem rpc_stream_transparent:
  assumes "varint_ok (pl_varint PL)" "dec_info (enc_info info) = Inr info" "si_proto info = request_proto req"
    and "prost_request_ok (nl_prost L) req" "handle_request (nl_peer L) clk t req s = (s', Inr r, t')"
    and "length (enc_info info) \<le> 10 * 1024 * 1024"
    and "msg = request_message call_id (CallReq peer (request_proto req) (snd (request_payload (nl_prost L) req)))"
    and "pc_request_ok PL msg" "length (pl_enc_req PL msg) \<le> 10 * 1024 * 1024" "length call_id = 16"
    and "pc_response_ok PL (call_answer call_id (encode_response (nl_prost L) r))"
    and "pc_alive conn" "hm_get (pc_pending conn) call_id = Some n" "n < length (pc_channels conn)"
  shows "\<exists>framed. handle_rpc_stream L PL dec_info clk
        (write_varint_framed (pl_varint PL) (enc_info info) @ write_varint_framed (pl_varint PL) (pl_enc_req PL msg)) (s, t) =
      ((s', t'), Inr framed) \<and>
    (\<exists>conn'. conn_step PL (Read None) (conn\<lparr>pc_input := framed\<rparr>) = Some conn' \<and>
       call_unary_finish (pc_channels conn' ! n) = Some (Inr (encode_response (nl_prost L) r)))"
proof -
  let ?V = "pl_varint PL" and ?D = "nl_prost L"
  let ?framed = "wrap_stream_handler_response PL call_id (encode_response ?D r)"
  have info: "parse_stream_info ?V dec_info (write_varint_framed ?V (enc_info info) @ rest) = Inr (info, rest)" for rest
    using read_limited_frame [OF assms(1,6)] assms(2) by (simp add: parse_stream_info_def)
  have rd: "read_rpc_message ?V (write_varint_framed ?V (pl_enc_req PL msg)) = Inr (pl_enc_req PL msg, True)"
    using read_rpc_frame [OF assms(1,9), of "[]"] by simp
  note answer = stream_handler_roundtrip [OF assms(1,10), where st = "conn\<lparr>pc_input := ?framed\<rparr>" and rest = "[]" and
      out = "encode_response ?D r" and n = n and peer = peer and proto = "request_proto req" and data = "snd (request_payload ?D req)"]
  have un: "unwrap_stream_handler_request PL (pl_enc_req PL msg) = Inr (call_id, snd (request_payload ?D req))"
    using answer assms(7,8,11-14) by simp
  have "handle_rpc_stream L PL dec_info clk (write_varint_framed ?V (enc_info info) @ write_varint_framed ?V (pl_enc_req PL msg)) (s, t) =
      ((s', t'), Inr ?framed)"
    using info rd un rpc_request_payload [OF assms(4)] assms(3,5,8) by (simp add: handle_rpc_stream_def pc_request_ok_def)
  moreover have "\<exists>conn'. conn_step PL (Read None) (conn\<lparr>pc_input := ?framed\<rparr>) = Some conn' \<and>
      call_unary_finish (pc_channels conn' ! n) = Some (Inr (encode_response ?D r))"
    using answer assms(7,8,11-14) by auto
  ultimately show ?thesis by blast
qed

end
