(* ===== verification/Shard_Discovery.thy ===== *)
theory Shard_Discovery
  imports Node_Dht Shard_Circuits
begin

text \<open>
  Discovery of block servers (\<open>kwaai-cli/src/shard_cmd.rs\<close>): the decoding of announced records, the
  queries to the bootstrap peers, and the choices made from the answers. \<open>discover_chain\<close> keeps one entry
  per peer; the order of its hash map is the order of the association list. A random peer id stands for
  a legacy node that announces none.

  The theorems connect the node that announces (\<open>Node_Dht\<close>), the table that stores (\<open>Dht_Server\<close>) and the
  client that discovers: what is announced is found, a later announcement of the same blocks hides an
  earlier one, a node that withdrew is still chosen for inference, and a malformed record makes other
  nodes panic. The keys of the names in use are assumed apart (no collision of SHA-1 among them).
\<close>

section \<open>Decoding a record\<close>

record server_record =
  srec_state :: int
  srec_start_block :: nat
  srec_end_block :: nat
  srec_public_name :: string
  srec_peer_id_b58 :: string
  srec_version :: string
  srec_throughput :: f64

text \<open>\<open>i64 as i32\<close> and \<open>i64 as usize\<close> keep the low bits.\<close>

definition i64_as_i32 :: "int \<Rightarrow> int" where
  "i64_as_i32 i = sint (word_of_int i :: 32 word)"

definition i64_as_usize :: "int \<Rightarrow> nat" where
  "i64_as_usize i = nat (i mod 2 ^ 64)"

definition field :: "rmpv \<Rightarrow> (msg_value \<times> msg_value) list \<Rightarrow> string \<Rightarrow> msg_value option" where
  "field R m k = map_option snd (find (\<lambda>(ky, _). rv_as_str R ky = Some k) m)"

definition get_s :: "rmpv \<Rightarrow> (msg_value \<times> msg_value) list \<Rightarrow> string \<Rightarrow> string" where
  "get_s R m k = unwrap_or (Option.bind (field R m k) (rv_as_str R)) []"

definition get_i :: "rmpv \<Rightarrow> (msg_value \<times> msg_value) list \<Rightarrow> string \<Rightarrow> int option" where
  "get_i R m k = Option.bind (field R m k) (rv_as_i64 R)"

definition decode_fields :: "rmpv \<Rightarrow> msg_value \<Rightarrow> msg_value \<Rightarrow> (msg_value \<times> msg_value) list \<Rightarrow> server_record option" where
  "decode_fields R state throughput m =
     Option.bind (get_i R m ''start_block'') (\<lambda>s. Option.bind (get_i R m ''end_block'') (\<lambda>e.
       Some \<lparr>srec_state = i64_as_i32 (unwrap_or (rv_as_i64 R state) 0),
             srec_start_block = i64_as_usize s, srec_end_block = i64_as_usize e,
             srec_public_name = get_s R m ''public_name'', srec_peer_id_b58 = get_s R m ''peer_id'',
             srec_version = get_s R m ''version'', srec_throughput = unwrap_or (rv_as_f64 R throughput) (Fin 0)\<rparr>))"

definition decode_server_info_ext :: "rmpv \<Rightarrow> bytes \<Rightarrow> server_record option" where
  "decode_server_info_ext R bs =
     (case rv_read R bs of
        Some (VExt tag inner_bytes) \<Rightarrow>
          if tag \<noteq> 64 then None
          else (case rv_read R inner_bytes of
            Some (VArray (state # throughput # VMap m # _)) \<Rightarrow> decode_fields R state throughput m
          | _ \<Rightarrow> None)
      | _ \<Rightarrow> None)"

definition record_entry :: "'p \<Rightarrow> server_record \<Rightarrow> 'p block_server_entry" where
  "record_entry peer_id r =
     \<lparr>be_peer_id = peer_id, be_start_block = srec_start_block r, be_end_block = srec_end_block r,
      be_public_name = srec_public_name r, be_throughput = srec_throughput r, be_trust_score = None\<rparr>"

definition record_online :: "server_record \<Rightarrow> bool" where
  "record_online r \<longleftrightarrow> srec_state r = 2 \<and> version_meets_minimum (srec_version r)"

definition decode_server_info_regular :: "'p node_lib \<Rightarrow> 'p \<Rightarrow> bytes \<Rightarrow> (string \<times> 'p block_server_entry) option" where
  "decode_server_info_regular L random_peer bs =
     Option.bind (decode_server_info_ext (nl_rmpv L) bs) (\<lambda>r.
       if \<not> record_online r then None
       else Some (case pid_parse (nl_peer L) (srec_peer_id_b58 r) of
           Some pid \<Rightarrow> (pid_to_base58 (nl_peer L) pid, record_entry pid r)
         | None \<Rightarrow> (''legacy:'' @ srec_public_name r @ '':'' @ show_nat (srec_start_block r), record_entry random_peer r)))"

section \<open>Dictionary records\<close>

definition dictionary_entries :: "rmpv \<Rightarrow> bytes \<Rightarrow> msg_value list" where
  "dictionary_entries R bs =
     (case rv_read R bs of
        Some (VExt tag inner_bytes) \<Rightarrow>
          if tag \<noteq> 80 then []
          else (case rv_read R inner_bytes of
            Some (VArray (_ # _ # VArray entries # _)) \<Rightarrow> entries
          | _ \<Rightarrow> [])
      | _ \<Rightarrow> [])"

fun subkey_text :: "rmpv \<Rightarrow> msg_value \<Rightarrow> string option" where
  "subkey_text R (VString s) = Some (unwrap_or (rv_as_str R (VString s)) [])"
| "subkey_text R (VBinary b) =
     (case rv_read R b of Some (VString s) \<Rightarrow> Some (unwrap_or (rv_as_str R (VString s)) []) | _ \<Rightarrow> None)"
| "subkey_text R _ = None"

text \<open>\<open>out.entry(key).or_insert(entry)\<close>: an entry that is present stays.\<close>

definition or_insert :: "'k \<Rightarrow> 'v \<Rightarrow> ('k, 'v) hashmap \<Rightarrow> ('k, 'v) hashmap" where
  "or_insert k v m = (case hm_get m k of Some _ \<Rightarrow> m | None \<Rightarrow> hm_insert k v m)"

definition dictionary_step ::
    "'p node_lib \<Rightarrow> msg_value \<Rightarrow> (string, 'p block_server_entry) hashmap \<Rightarrow> (string, 'p block_server_entry) hashmap" where
  "dictionary_step L entry out =
     (case entry of
        VArray (subkey # VBinary value_bytes # _) \<Rightarrow>
          (case subkey_text (nl_rmpv L) subkey of
             None \<Rightarrow> out
           | Some peer_id_b58 \<Rightarrow>
               if peer_id_b58 = [] then out
               else case pid_parse (nl_peer L) peer_id_b58 of
                 None \<Rightarrow> out
               | Some peer_id \<Rightarrow>
                   (case decode_server_info_ext (nl_rmpv L) value_bytes of
                      None \<Rightarrow> out
                    | Some r \<Rightarrow> if record_online r then or_insert peer_id_b58 (record_entry peer_id r) out else out))
      | _ \<Rightarrow> out)"

definition decode_server_info_dictionary ::
    "'p node_lib \<Rightarrow> bytes \<Rightarrow> (string, 'p block_server_entry) hashmap \<Rightarrow> (string, 'p block_server_entry) hashmap" where
  "decode_server_info_dictionary L bs out = foldl (\<lambda>o' e. dictionary_step L e o') out (dictionary_entries (nl_rmpv L) bs)"

section \<open>Queries\<close>

definition block_dht_id :: "'p node_lib \<Rightarrow> string \<Rightarrow> nat \<Rightarrow> bytes" where
  "block_dht_id L prefix block = nl_sha1 L (nl_pack_str L (prefix @ ''.'' @ show_nat block))"

definition find_message :: "'p node_lib \<Rightarrow> f64 \<Rightarrow> 'p \<Rightarrow> bytes list \<Rightarrow> find_request" where
  "find_message L now our_peer_id ks =
     \<lparr>fq_auth = Some (request_auth_new now), fq_keys = ks,
      fq_peer = Some \<lparr>node_id = nl_sha1 L (pid_to_bytes (nl_peer L) our_peer_id)\<rparr>\<rparr>"

text \<open>
  The peers of the world: \<open>connect\<close> to an address may fail, and \<open>ask\<close> sends a FIND request. The answer of
  one bootstrap peer is its decoded results, empty when the peer is skipped.
\<close>

record ('p, 'w) find_world =
  fw_connect :: "string \<Rightarrow> 'w \<Rightarrow> 'w \<times> bool"
  fw_call :: "'p \<Rightarrow> string \<Rightarrow> bytes \<Rightarrow> 'w \<Rightarrow> 'w \<times> (string + bytes)"

definition ask_bootstrap ::
    "'p node_lib \<Rightarrow> ('p, 'w) find_world \<Rightarrow> bytes \<Rightarrow> string \<Rightarrow> 'w \<Rightarrow> 'w \<times> find_result list" where
  "ask_bootstrap L W req_bytes addr w =
     (case second_piece ''/p2p/'' addr of
        None \<Rightarrow> (w, [])
      | Some peer_str \<Rightarrow>
          (case pid_parse (nl_peer L) peer_str of
             None \<Rightarrow> (w, [])
           | Some bp \<Rightarrow>
               (case fw_connect W addr w of
                  (w1, False) \<Rightarrow> (w1, [])
                | (w1, True) \<Rightarrow>
                    (case fw_call W bp ''DHTProtocol.rpc_find'' req_bytes w1 of
                       (w2, Inl _) \<Rightarrow> (w2, [])
                     | (w2, Inr resp_bytes) \<Rightarrow>
                         (case dec_find_res (nl_prost L) resp_bytes of
                            Inl _ \<Rightarrow> (w2, [])
                          | Inr resp \<Rightarrow> (w2, fp_results resp))))))"

fun ask_all ::
    "'p node_lib \<Rightarrow> ('p, 'w) find_world \<Rightarrow> bytes \<Rightarrow> string list \<Rightarrow> 'w \<Rightarrow> 'w \<times> find_result list" where
  "ask_all L W req_bytes [] w = (w, [])"
| "ask_all L W req_bytes (addr # addrs) w =
     (let (w1, rs) = ask_bootstrap L W req_bytes addr w; (w2, rs') = ask_all L W req_bytes addrs w1 in (w2, rs @ rs'))"

definition collect_result ::
    "'p node_lib \<Rightarrow> (nat \<Rightarrow> 'p) \<Rightarrow> nat \<times> find_result \<Rightarrow> (string, 'p block_server_entry) hashmap
      \<Rightarrow> (string, 'p block_server_entry) hashmap" where
  "collect_result L random_peer = (\<lambda>(i, r) servers.
     if fr_value r = [] then servers
     else if fr_result_type r = 1
     then (case decode_server_info_regular L (random_peer i) (fr_value r) of
             Some (key, entry) \<Rightarrow> or_insert key entry servers | None \<Rightarrow> servers)
     else if fr_result_type r = 2 then decode_server_info_dictionary L (fr_value r) servers
     else servers)"

definition collect_servers :: "'p node_lib \<Rightarrow> (nat \<Rightarrow> 'p) \<Rightarrow> find_result list \<Rightarrow> (string, 'p block_server_entry) hashmap" where
  "collect_servers L random_peer rs = foldl (\<lambda>m ir. collect_result L random_peer ir m) [] (zip [0..<length rs] rs)"

definition by_start :: "'p block_server_entry \<Rightarrow> 'p block_server_entry \<Rightarrow> ordering" where
  "by_start a b = ord_cmp (be_start_block a) (be_start_block b)"

definition discover_chain ::
    "'p node_lib \<Rightarrow> ('p, 'w) find_world \<Rightarrow> (nat \<Rightarrow> 'p) \<Rightarrow> f64 \<Rightarrow> 'p \<Rightarrow> string \<Rightarrow> nat \<Rightarrow> string list \<Rightarrow> 'w
      \<Rightarrow> 'w \<times> 'p block_server_entry list" where
  "discover_chain L W random_peer now our_peer_id dht_prefix total_blocks bootstrap_peers w =
     (let ks = map (block_dht_id L dht_prefix) [0..<total_blocks];
          req_bytes = enc_find_req (nl_prost L) (find_message L now our_peer_id ks);
          (w', rs) = ask_all L W req_bytes bootstrap_peers w
      in (w', sort_by by_start (hm_values (collect_servers L random_peer rs))))"

section \<open>Choosing an inference peer\<close>

definition inference_candidates :: "'p node_lib \<Rightarrow> find_result \<Rightarrow> (f64 \<times> 'p \<times> string) list" where
  "inference_candidates L r =
     (if fr_value r = [] then []
      else if fr_result_type r = 1
      then (case decode_server_info_ext (nl_rmpv L) (fr_value r) of
              None \<Rightarrow> []
            | Some rec \<Rightarrow>
                if \<not> record_online rec then []
                else (case pid_parse (nl_peer L) (srec_peer_id_b58 rec) of
                        Some pid \<Rightarrow> [(srec_throughput rec, pid, srec_public_name rec)] | None \<Rightarrow> []))
      else if fr_result_type r = 2
      then map (\<lambda>e. (be_throughput e, be_peer_id e, be_public_name e)) (hm_values (decode_server_info_dictionary L (fr_value r) []))
      else [])"

definition candidate_order :: "f64 \<times> 'p \<times> string \<Rightarrow> f64 \<times> 'p \<times> string \<Rightarrow> ordering" where
  "candidate_order a b = then_with (unwrap_or (f64_partial_cmp (fst b) (fst a)) Equal) (str_cmp (snd (snd a)) (snd (snd b)))"

definition best_candidate :: "'p node_lib \<Rightarrow> 'p \<Rightarrow> (f64 \<times> 'p \<times> string) list \<Rightarrow> string option" where
  "best_candidate L our_peer_id candidates =
     (let P = nl_peer L; others = filter (\<lambda>(_, pid, _). pid_to_base58 P pid \<noteq> pid_to_base58 P our_peer_id) candidates in
      case sort_by candidate_order others of
        [] \<Rightarrow> None
      | (_, best_peer, _) # _ \<Rightarrow> Some (''p2p://'' @ pid_to_base58 P best_peer))"

definition discover_inference_peer ::
    "'p node_lib \<Rightarrow> ('p, 'w) find_world \<Rightarrow> (nat \<Rightarrow> 'p) \<Rightarrow> (nat \<Rightarrow> f64) \<Rightarrow> 'p \<Rightarrow> string list \<Rightarrow> string option \<Rightarrow> nat option \<Rightarrow> 'w
      \<Rightarrow> 'w \<times> string option" where
  "discover_inference_peer L W random_peer now our_peer_id bootstrap_peers dht_prefix total_blocks w =
     (let inf_key = nl_sha1 L (nl_pack_str L ''_kwaai.inference.nodes'');
          req_bytes = enc_find_req (nl_prost L) (find_message L (now 0) our_peer_id [inf_key]);
          (w1, rs) = ask_all L W req_bytes bootstrap_peers w;
          direct = concat (map (inference_candidates L) rs);
          (w2, candidates) =
            (case (direct, dht_prefix, total_blocks) of
               ([], Some prefix, Some total_n) \<Rightarrow>
                 (let (w2, chain) = discover_chain L W random_peer (now 1) our_peer_id prefix total_n bootstrap_peers w1
                  in (w2, map (\<lambda>e. (be_throughput e, be_peer_id e, be_public_name e)) chain))
             | _ \<Rightarrow> (w1, direct))
      in (w2, best_candidate L our_peer_id candidates))"

section \<open>Choosing blocks\<close>

text \<open>A panic (\<open>None\<close>) of the coverage count ends the choice; the query is repeated once when it finds nothing.
  The second count, made for a message only, panics on the same entries.\<close>

definition pick_gap_blocks ::
    "'p node_lib \<Rightarrow> ('p, 'w) find_world \<Rightarrow> (nat \<Rightarrow> 'p) \<Rightarrow> (nat \<Rightarrow> f64) \<Rightarrow> 'p \<Rightarrow> string \<Rightarrow> nat \<Rightarrow> nat \<Rightarrow> string list \<Rightarrow> 'w
      \<Rightarrow> 'w \<times> (nat \<times> nat) option" where
  "pick_gap_blocks L W random_peer now our_peer_id dht_prefix total_blocks target_blocks bootstrap_peers w =
     (let (w1, chain1) = discover_chain L W random_peer (now 0) our_peer_id dht_prefix total_blocks bootstrap_peers w;
          (w2, chain) = (if chain1 = [] then discover_chain L W random_peer (now 1) our_peer_id dht_prefix total_blocks bootstrap_peers w1
                         else (w1, chain1))
      in (w2, case pick_gap_from_chain chain our_peer_id total_blocks target_blocks of
                None \<Rightarrow> None
              | Some r \<Rightarrow> map_option (\<lambda>_. r) (count_others our_peer_id total_blocks chain (replicate total_blocks 0))))"

section \<open>Records read back\<close>

definition decoded_info :: "dht_server_info \<Rightarrow> server_record" where
  "decoded_info i =
     \<lparr>srec_state = si_state i, srec_start_block = i64_as_usize (si_start_block i), srec_end_block = i64_as_usize (si_end_block i),
      srec_public_name = si_public_name i, srec_peer_id_b58 = si_peer_id_b58 i, srec_version = si_version i,
      srec_throughput = si_throughput i\<rparr>"

definition is_i32 :: "int \<Rightarrow> bool" where
  "is_i32 i \<longleftrightarrow> - (2 ^ 31) \<le> i \<and> i < 2 ^ 31"

lemma i64_as_i32_id: "is_i32 i \<Longrightarrow> i64_as_i32 i = i"
  by (simp add: is_i32_def i64_as_i32_def signed_of_int signed_take_bit_int_eq_self)

lemma i64_as_usize_nat: "0 \<le> i \<Longrightarrow> i < 2 ^ 64 \<Longrightarrow> i64_as_usize i = nat i"
  by (simp add: i64_as_usize_def)

lemma field_hit: "rmpv_ok R \<Longrightarrow> field R ((VString k, v) # m) k = Some v"
  by (simp add: field_def rmpv_ok_def)

lemma field_miss: "rmpv_ok R \<Longrightarrow> k' \<noteq> k \<Longrightarrow> field R ((VString k', v) # m) k = field R m k"
  by (simp add: field_def rmpv_ok_def)

lemma server_info_decoded:
  assumes R: "rmpv_ok R" and bs: "server_info_msgpack R i = Inr bs"
    and "is_i32 (si_state i)" "is_i32 (si_start_block i)" "is_i32 (si_end_block i)"
  shows "decode_server_info_ext R bs = Some (decoded_info i)"
proof -
  obtain inner where inner: "rv_write R (VArray [VInt (si_state i), VF64 (si_throughput i), VMap (server_info_fields i)]) = Inr inner"
    "rv_write R (VExt 64 inner) = Inr bs"
    using bs by (auto simp: server_info_msgpack_def split: sum.splits)
  have rd: "rv_read R bs = Some (VExt 64 inner)"
    "rv_read R inner = Some (VArray [VInt (si_state i), VF64 (si_throughput i), VMap (server_info_fields i)])"
    using R inner by (simp_all add: rmpv_ok_def)
  have int: "rv_as_i64 R (VInt x) = Some x" if "is_i32 x" for x
    using R that by (simp add: rmpv_ok_def is_i32_def)
  have str: "rv_as_str R (VString s) = Some s" "rv_as_f64 R (VF64 x) = Some x" for s x
    using R by (simp_all add: rmpv_ok_def)
  have "decode_fields R (VInt (si_state i)) (VF64 (si_throughput i)) (server_info_fields i) = Some (decoded_info i)"
    using assms(3-5)
    by (simp add: decode_fields_def get_i_def get_s_def server_info_fields_def field_hit [OF R] field_miss [OF R] int str
        decoded_info_def i64_as_i32_id)
  then show ?thesis by (simp add: decode_server_info_ext_def rd)
qed

section \<open>The peers of a bootstrap node\<close>

text \<open>
  A bootstrap peer that answers with the handlers of \<open>Dht_Server\<close> (what \<open>rpc_stream_transparent\<close> gives for
  requests that arrive as streams). Its state is its table and the number of its next clock reading.
\<close>

definition bootstrap_answer ::
    "'p node_lib \<Rightarrow> clock \<Rightarrow> 'p \<Rightarrow> string \<Rightarrow> bytes \<Rightarrow> 'p dht_storage \<times> nat \<Rightarrow> ('p dht_storage \<times> nat) \<times> (string + bytes)" where
  "bootstrap_answer L clk p proto bs = (\<lambda>(s, t).
     case rpc_request (nl_prost L) proto bs of
       Inl e \<Rightarrow> ((s, t), Inl e)
     | Inr req \<Rightarrow>
         (let (s', r, t') = handle_request (nl_peer L) clk t req s
          in ((s', t'), case r of Inl e \<Rightarrow> Inl (''handle_request: '' @ nl_error_text L e) | Inr r \<Rightarrow> Inr (encode_response (nl_prost L) r))))"

definition bootstrap_call :: "'p node_lib \<Rightarrow> clock \<Rightarrow> f64 \<Rightarrow> ('p, 'p dht_storage \<times> nat) peer_call" where
  "bootstrap_call L clk latency p proto bs w = (let (w', r) = bootstrap_answer L clk p proto bs w in (w', latency, Some r))"

definition bootstrap_world :: "'p node_lib \<Rightarrow> clock \<Rightarrow> ('p, 'p dht_storage \<times> nat) find_world" where
  "bootstrap_world L clk = \<lparr>fw_connect = (\<lambda>_ w. (w, True)), fw_call = bootstrap_answer L clk\<rparr>"

definition bootstrap_addr :: "'p node_lib \<Rightarrow> string \<Rightarrow> bool" where
  "bootstrap_addr L addr \<longleftrightarrow> (\<exists>str bp. second_piece ''/p2p/'' addr = Some str \<and> pid_parse (nl_peer L) str = Some bp)"

text \<open>Encoded requests and responses decode (the documented round trip of the protobuf library).\<close>

definition prost_ok :: "dht_prost \<Rightarrow> bool" where
  "prost_ok D \<longleftrightarrow> (\<forall>m. dec_store_req D (enc_store_req D m) = Inr m) \<and> (\<forall>m. dec_find_req D (enc_find_req D m) = Inr m) \<and>
     (\<forall>m. dec_find_res D (enc_find_res D m) = Inr m)"

definition peer_store :: "'p node_lib \<Rightarrow> clock \<Rightarrow> store_request \<Rightarrow> 'p dht_storage \<times> nat \<Rightarrow> 'p dht_storage \<times> nat" where
  "peer_store L clk req = (\<lambda>(s, t). let (s', _, t') = handle_store (nl_peer L) clk t req s in (s', t'))"

lemma bootstrap_store:
  assumes "prost_ok (nl_prost L)"
  shows "fst (bootstrap_answer L clk p ''DHTProtocol.rpc_store'' (enc_store_req (nl_prost L) req) w) = peer_store L clk req w"
  using assms by (cases w) (simp add: bootstrap_answer_def peer_store_def prost_ok_def rpc_request_def pair_simps)

lemma send_single:
  assumes "prost_ok (nl_prost L)" "bootstrap_addr L addr"
  shows "fst (send_to_bootstrap L (bootstrap_call L clk latency) [addr] req w) = peer_store L clk req w"
proof -
  obtain str bp where "second_piece ''/p2p/'' addr = Some str" "pid_parse (nl_peer L) str = Some bp"
    using assms(2) by (auto simp: bootstrap_addr_def)
  then show ?thesis
    using bootstrap_store [OF assms(1), of clk bp req w] by (simp add: send_to_bootstrap_def bootstrap_call_def pair_simps)
qed

lemma publish_single:
  assumes "prost_ok (nl_prost L)" "bootstrap_addr L addr"
  shows "snd (snd (fst (publish L (bootstrap_call L clk latency) clkl [addr] req (s, t, w)))) = peer_store L clk req w"
  using send_single [OF assms] by (simp add: publish_def pair_simps)

section \<open>The table after an announcement\<close>

lemma show_int_nat: "show_int (int n) = show_nat n"
  by (simp add: show_int_def)

lemma show_nat_inj: "show_nat m = show_nat n \<Longrightarrow> m = n"
  by (metis digits_value_show)

lemma block_key: "block_dht_id L prefix b = dht_id L (prefix @ ''.'' @ show_int (int b))"
  by (simp add: block_dht_id_def dht_id_def show_int_nat)

text \<open>The names that the announcements of a model put into the table; no two of them have the same SHA-1 key.\<close>

definition registry_names :: "string set" where
  "registry_names = {''_petals.models'', ''_kwaai.inference.nodes'', ''_kwaai.vpk.nodes''}"

definition block_names :: "string \<Rightarrow> nat \<Rightarrow> string set" where
  "block_names prefix N = (\<lambda>b. prefix @ ''.'' @ show_nat b) ` {..<N}"

definition keys_apart :: "'p node_lib \<Rightarrow> string \<Rightarrow> nat \<Rightarrow> bool" where
  "keys_apart L prefix N \<longleftrightarrow> inj_on (dht_id L) (block_names prefix N \<union> registry_names)"

lemma block_key_inj:
  assumes "keys_apart L prefix N" "b < N" "b' < N"
  shows "block_dht_id L prefix b = block_dht_id L prefix b' \<longleftrightarrow> b = b'"
  using inj_on_eq_iff [OF assms(1) [unfolded keys_apart_def], of "prefix @ ''.'' @ show_nat b" "prefix @ ''.'' @ show_nat b'"] assms(2,3)
  by (auto simp: block_key show_int_nat block_names_def dest: show_nat_inj)

lemma registry_key_inj:
  "keys_apart L prefix N \<Longrightarrow> name \<in> registry_names \<Longrightarrow> name' \<in> registry_names \<Longrightarrow> dht_id L name = dht_id L name' \<longleftrightarrow> name = name'"
  unfolding keys_apart_def by (simp add: inj_on_eq_iff)

lemma block_key_not_name:
  assumes "keys_apart L prefix N" "name \<in> registry_names" "b < N"
  shows "dht_id L name \<noteq> block_dht_id L prefix b"
proof
  assume "dht_id L name = block_dht_id L prefix b"
  then have "name = prefix @ ''.'' @ show_nat b"
    using inj_onD [OF assms(1) [unfolded keys_apart_def], of name "prefix @ ''.'' @ show_nat b"] assms(2,3)
    by (auto simp: block_key show_int_nat block_names_def)
  then have "last name = last (show_nat b)" by simp
  moreover have "is_ascii_digit (last (show_nat b))"
    using show_nat_digits [of b] last_in_set [OF show_nat_nonempty, of b] by (simp add: list_all_iff)
  moreover have "last name = CHR ''s''" using assms(2) by (auto simp: registry_names_def)
  ultimately have "is_ascii_digit CHR ''s''" by metis
  then show False by (simp add: is_ascii_digit_def)
qed

lemma peer_store_frame:
  "ds_storage_poisoned (fst (peer_store L clk req w)) = ds_storage_poisoned (fst w)"
  using handle_store_frame(3) [of "nl_peer L" clk "snd w" req "fst w"] by (simp add: peer_store_def pair_simps)

lemma peer_store_get:
  "\<not> ds_storage_poisoned (fst w) \<Longrightarrow>
     hm_get (ds_storage (fst (peer_store L clk req w))) k = last_accepted clk req 0 (sq_keys req) (snd w) k (hm_get (ds_storage (fst w)) k)"
  using handle_store_get [of "fst w" "nl_peer L" clk "snd w" req k] by (simp add: peer_store_def pair_simps)

lemma single_store_other:
  "\<not> ds_storage_poisoned (fst w) \<Longrightarrow> key \<noteq> k \<Longrightarrow>
     hm_get (ds_storage (fst (peer_store L clk (single_store_request now e key sub v node) w))) k = hm_get (ds_storage (fst w)) k"
  by (simp add: peer_store_get single_store_request_def)

lemma single_store_here:
  assumes "\<not> ds_storage_poisoned (fst w)" "\<And>n. f64_lt (clk n) e"
  shows "map_option sv_value (hm_get (ds_storage (fst (peer_store L clk (single_store_request now e key sub v node) w))) key) = Some v"
  using assms by (simp add: peer_store_get accepts_def requested_entry_def single_store_request_def vec_get_def)

text \<open>A block announcement writes its record under the keys of its blocks and nothing else.\<close>

lemma block_store_get:
  assumes "keys_apart L prefix N" "0 \<le> s" "\<not> ds_storage_poisoned (fst w)" "\<And>n i. f64_lt (clk n) (expiry i)" "e \<le> int N" "b < N"
  shows "map_option sv_value (hm_get (ds_storage (fst (peer_store L clk (block_store_request L prefix s e sub v expiry now node) w)))
      (block_dht_id L prefix b)) =
    (if s \<le> int b \<and> int b < e then Some v else map_option sv_value (hm_get (ds_storage (fst w)) (block_dht_id L prefix b)))"
proof -
  let ?req = "block_store_request L prefix s e sub v expiry now node" and ?k = "block_dht_id L prefix b"
  have ks: "sq_keys ?req = map (\<lambda>b. dht_id L (prefix @ ''.'' @ show_int b)) [s..e - 1]"
    by (simp add: block_store_request_def Let_def)
  note get = peer_store_get [OF assms(3), of L clk ?req ?k]
  show ?thesis
  proof (cases "s \<le> int b \<and> int b < e")
    case True
    define j where "j = nat (int b - s)"
    have j: "j < length (sq_keys ?req)" "sq_keys ?req ! j = ?k"
      using True assms(2) by (simp_all add: ks j_def block_key)
    have "distinct (sq_keys ?req)"
      unfolding ks distinct_map
    proof (intro conjI inj_onI)
      fix x y assume "x \<in> set [s..e - 1]" "y \<in> set [s..e - 1]" "dht_id L (prefix @ ''.'' @ show_int x) = dht_id L (prefix @ ''.'' @ show_int y)"
      then have "block_dht_id L prefix (nat x) = block_dht_id L prefix (nat y)" "0 \<le> x" "0 \<le> y" "nat x < N" "nat y < N"
        using assms(2,5) by (simp_all add: block_key nat_less_iff)
      then show "x = y" using block_key_inj [OF assms(1)] by simp
    qed simp
    moreover have "accepts clk ?req j (snd w + 2 * j)" "sv_value (requested_entry ?req j (clk (snd w + 2 * j))) = v"
      using j(1) assms(4) by (simp_all add: ks accepts_def requested_entry_def block_store_request_def Let_def vec_get_def)
    ultimately show ?thesis
      using True get last_accepted_nth [OF j, of clk ?req 0 "snd w" "hm_get (ds_storage (fst w)) ?k"] by simp
  next
    case False
    have "?k \<notin> set (sq_keys ?req)"
    proof
      assume "?k \<in> set (sq_keys ?req)"
      then obtain x where x: "s \<le> x" "x < e" "dht_id L (prefix @ ''.'' @ show_int x) = ?k" by (auto simp: ks)
      then have "block_dht_id L prefix (nat x) = ?k" using assms(2) by (simp add: block_key)
      then have "nat x = b" using block_key_inj [OF assms(1), of "nat x" b] x(2) assms(2,5,6) by simp
      then have "int b = x" using x(1) assms(2) by linarith
      with x False show False by simp
    qed
    with get have same: "hm_get (ds_storage (fst (peer_store L clk ?req w))) ?k = hm_get (ds_storage (fst w)) ?k"
      by (simp add: last_accepted_absent)
    show ?thesis by (simp only: if_not_P [OF False] same)
  qed
qed

section \<open>What a discovery sees\<close>

text \<open>The records under the keys of the blocks, in the order of the blocks, while nothing has expired.\<close>

definition block_values :: "'p node_lib \<Rightarrow> string \<Rightarrow> nat \<Rightarrow> 'p dht_storage \<Rightarrow> bytes list" where
  "block_values L prefix total_blocks s =
     List.map_filter (\<lambda>b. map_option sv_value (hm_get (ds_storage s) (block_dht_id L prefix b))) [0..<total_blocks]"

definition unexpired :: "clock \<Rightarrow> 'p dht_storage \<Rightarrow> bool" where
  "unexpired clk s \<longleftrightarrow> (\<forall>k v n. hm_get (ds_storage s) k = Some v \<longrightarrow> f64_lt (clk n) (sv_expiration_time v))"

definition found_value :: "find_result \<Rightarrow> bytes option" where
  "found_value r = (if fr_value r \<noteq> [] \<and> fr_result_type r = 1 then Some (fr_value r) else None)"

lemma find_loop_values:
  assumes "unexpired clk s"
  shows "List.map_filter found_value (fst (find_loop clk t (ds_storage s) nids pids ks)) =
     filter (\<lambda>v. v \<noteq> []) (List.map_filter (\<lambda>k. map_option sv_value (hm_get (ds_storage s) k)) ks) \<and>
   (\<forall>r \<in> set (fst (find_loop clk t (ds_storage s) nids pids ks)). fr_result_type r \<noteq> 2)"
proof (induction ks arbitrary: t)
  case (Cons k ks)
  show ?case
  proof (cases "hm_get (ds_storage s) k")
    case (Some sv)
    then have "f64_lt (clk t) (sv_expiration_time sv)" using assms by (simp add: unexpired_def)
    with Some Cons.IH [of "Suc t"] show ?thesis
      by (simp add: find_one_def pair_simps found_value_def map_filter_simps)
  next
    case None
    with Cons.IH [of t] show ?thesis by (simp add: find_one_def pair_simps found_value_def map_filter_simps)
  qed
qed (simp add: map_filter_simps)

lemma map_filter_map: "List.map_filter f (map g xs) = List.map_filter (\<lambda>x. f (g x)) xs"
  by (induction xs) (simp_all add: map_filter_simps split: option.split)

lemma or_insert_get: "hm_get (or_insert k v m) k' = (if hm_get m k' = None \<and> k' = k then Some v else hm_get m k')"
  by (auto simp: or_insert_def split: option.split)

lemma or_insert_wf: "hm_wf m \<Longrightarrow> hm_wf (or_insert k v m)"
  by (auto simp: or_insert_def split: option.split)

text \<open>Of several records with one key the first stays.\<close>

definition regular_records :: "'p node_lib \<Rightarrow> (nat \<Rightarrow> 'p) \<Rightarrow> (nat \<times> find_result) list \<Rightarrow> (string \<times> 'p block_server_entry) list" where
  "regular_records L random_peer irs =
     List.map_filter (\<lambda>(i, r). Option.bind (found_value r) (decode_server_info_regular L (random_peer i))) irs"

lemma collect_regular:
  assumes "\<forall>(i, r) \<in> set irs. fr_result_type r \<noteq> 2" "hm_wf m"
  shows "hm_wf (foldl (\<lambda>m ir. collect_result L random_peer ir m) m irs) \<and>
    hm_get (foldl (\<lambda>m ir. collect_result L random_peer ir m) m irs) k =
      (case hm_get m k of Some e \<Rightarrow> Some e | None \<Rightarrow> map_of (regular_records L random_peer irs) k)"
  using assms
proof (induction irs arbitrary: m)
  case (Cons ir irs)
  obtain i r where ir: "ir = (i, r)" by (cases ir)
  let ?m = "collect_result L random_peer (i, r) m"
  have step: "?m = (case Option.bind (found_value r) (decode_server_info_regular L (random_peer i)) of
      None \<Rightarrow> m | Some (key, e) \<Rightarrow> or_insert key e m)"
    using Cons.prems(1) ir by (auto simp: collect_result_def found_value_def split: option.splits)
  have "hm_wf ?m" using Cons.prems(2) by (simp add: step or_insert_wf split: option.split prod.split)
  with Cons.IH [of ?m] Cons.prems(1) have IH: "hm_wf (foldl (\<lambda>m ir. collect_result L random_peer ir m) ?m irs)"
    "hm_get (foldl (\<lambda>m ir. collect_result L random_peer ir m) ?m irs) k =
      (case hm_get ?m k of Some e \<Rightarrow> Some e | None \<Rightarrow> map_of (regular_records L random_peer irs) k)" by simp_all
  show ?case
    unfolding ir
  proof (cases "Option.bind (found_value r) (decode_server_info_regular L (random_peer i))")
    case None
    then have "?m = m" by (simp add: step)
    then show "hm_wf (foldl (\<lambda>m ir. collect_result L random_peer ir m) m ((i, r) # irs)) \<and>
      hm_get (foldl (\<lambda>m ir. collect_result L random_peer ir m) m ((i, r) # irs)) k =
        (case hm_get m k of None \<Rightarrow> map_of (regular_records L random_peer ((i, r) # irs)) k | Some e \<Rightarrow> Some e)"
      using IH None by (simp add: regular_records_def map_filter_simps split: option.split)
  next
    case (Some kv)
    then have "?m = or_insert (fst kv) (snd kv) m" by (simp add: step case_prod_beta)
    then show "hm_wf (foldl (\<lambda>m ir. collect_result L random_peer ir m) m ((i, r) # irs)) \<and>
      hm_get (foldl (\<lambda>m ir. collect_result L random_peer ir m) m ((i, r) # irs)) k =
        (case hm_get m k of None \<Rightarrow> map_of (regular_records L random_peer ((i, r) # irs)) k | Some e \<Rightarrow> Some e)"
      using IH Some by (cases kv; cases "hm_get m k"; cases "k = fst kv")
        (simp_all add: regular_records_def map_filter_simps or_insert_get)
  qed
qed (simp add: regular_records_def map_filter_simps split: option.split)

text \<open>The answer of one bootstrap peer is that of its FIND handler.\<close>

lemma ask_one:
  assumes D: "prost_ok (nl_prost L)" and addr: "bootstrap_addr L addr"
  shows "snd (ask_all L (bootstrap_world L clk) (enc_find_req (nl_prost L) (find_message L now our ks)) [addr] (s, t)) =
     fp_results (fst (handle_find (nl_peer L) clk t (find_message L now our ks) s))"
proof -
  let ?find = "find_message L now our ks"
  obtain str bp where bp: "second_piece ''/p2p/'' addr = Some str" "pid_parse (nl_peer L) str = Some bp"
    using addr by (auto simp: bootstrap_addr_def)
  have "snd (bootstrap_answer L clk bp ''DHTProtocol.rpc_find'' (enc_find_req (nl_prost L) ?find) (s, t)) =
      Inr (enc_find_res (nl_prost L) (fst (handle_find (nl_peer L) clk t ?find s)))"
    using D by (simp add: bootstrap_answer_def rpc_request_def prost_ok_def pair_simps)
  then obtain w' where "bootstrap_answer L clk bp ''DHTProtocol.rpc_find'' (enc_find_req (nl_prost L) ?find) (s, t) =
      (w', Inr (enc_find_res (nl_prost L) (fst (handle_find (nl_peer L) clk t ?find s))))"
    by (metis prod.collapse)
  then show ?thesis
    using bp D by (simp add: ask_bootstrap_def bootstrap_world_def prost_ok_def pair_simps)
qed

text \<open>What \<open>discover_chain\<close> returns from one bootstrap peer: per key the first record in the order of the blocks.\<close>

lemma discover_one:
  assumes D: "prost_ok (nl_prost L)" and addr: "bootstrap_addr L addr"
    and s: "\<not> ds_storage_poisoned s" "unexpired clk s"
  obtains rs where
    "snd (discover_chain L (bootstrap_world L clk) random_peer now our prefix N [addr] (s, t)) =
       sort_by by_start (hm_values (collect_servers L random_peer rs))"
    "hm_wf (collect_servers L random_peer rs)"
    "\<And>k. hm_get (collect_servers L random_peer rs) k = map_of (regular_records L random_peer (zip [0..<length rs] rs)) k"
    "List.map_filter found_value rs = filter (\<lambda>v. v \<noteq> []) (block_values L prefix N s)"
proof -
  let ?ks = "map (block_dht_id L prefix) [0..<N]"
  let ?find = "find_message L now our ?ks"
  define rs where "rs = fp_results (fst (handle_find (nl_peer L) clk t ?find s))"
  have chain: "snd (discover_chain L (bootstrap_world L clk) random_peer now our prefix N [addr] (s, t)) =
      sort_by by_start (hm_values (collect_servers L random_peer rs))"
    using ask_one [OF D addr, of clk now our ?ks s t] by (simp add: discover_chain_def pair_simps rs_def)
  have rs: "rs = fst (find_loop clk t (ds_storage s) (fst (nearest_ids (nl_peer L) s)) (snd (nearest_ids (nl_peer L) s)) ?ks)"
    using s(1) by (simp add: rs_def handle_find_def pair_simps find_message_def)
  note vals = find_loop_values [OF s(2), of t "fst (nearest_ids (nl_peer L) s)" "snd (nearest_ids (nl_peer L) s)" ?ks, folded rs]
  have "\<forall>(i, r) \<in> set (zip [0..<length rs] rs). fr_result_type r \<noteq> 2"
    using vals by (auto dest: set_zip_rightD)
  note reg = collect_regular [OF this hm_wf_Nil, folded collect_servers_def]
  show thesis
  proof (rule that [OF chain])
    show "hm_wf (collect_servers L random_peer rs)" using reg by blast
    show "hm_get (collect_servers L random_peer rs) k = map_of (regular_records L random_peer (zip [0..<length rs] rs)) k" for k
      using reg [of L random_peer k] by simp
    show "List.map_filter found_value rs = filter (\<lambda>v. v \<noteq> []) (block_values L prefix N s)"
      using vals by (simp only: block_values_def map_filter_map)
  qed
qed

section \<open>What is announced is found\<close>

text \<open>The registry entries of an announcement, besides its block records.\<close>

definition registry_request :: "'p node_lib \<Rightarrow> string set \<Rightarrow> (nat \<Rightarrow> f64) \<Rightarrow> store_request \<Rightarrow> bool" where
  "registry_request L names now q \<longleftrightarrow> (\<exists>n i name sub v node.
     name \<in> names \<and> q = single_store_request (now n) (expires (now i)) (dht_id L name) sub v node)"

lemma registry_requestI:
  "name \<in> names \<Longrightarrow> registry_request L names now (single_store_request (now n) (expires (now i)) (dht_id L name) sub v node)"
  unfolding registry_request_def by blast

lemma registry_request_mono: "registry_request L names now q \<Longrightarrow> names \<subseteq> names' \<Longrightarrow> registry_request L names' now q"
  unfolding registry_request_def by blast

lemma registries_keep:
  assumes "\<forall>q \<in> set qs. registry_request L names now q" "\<not> ds_storage_poisoned (fst w)" "k \<notin> dht_id L ` names"
  shows "hm_get (ds_storage (fst (fold (peer_store L clk) qs w))) k = hm_get (ds_storage (fst w)) k"
  using assms(1,2)
proof (induction qs arbitrary: w)
  case (Cons q qs)
  then obtain n i name sub v node where "name \<in> names" "q = single_store_request (now n) (expires (now i)) (dht_id L name) sub v node"
    unfolding registry_request_def by auto
  then have "hm_get (ds_storage (fst (peer_store L clk q w))) k = hm_get (ds_storage (fst w)) k"
    using assms(3) Cons.prems(2) by (auto intro!: single_store_other)
  with Cons show ?case by (simp add: peer_store_frame)
qed simp

definition timely :: "clock \<Rightarrow> store_request \<Rightarrow> bool" where
  "timely clk q \<longleftrightarrow> length (sq_expiration_time q) = length (sq_keys q) \<and> (\<forall>e \<in> set (sq_expiration_time q). \<forall>n. f64_lt (clk n) e)"

lemma peer_store_unexpired:
  assumes "unexpired clk (fst w)" "timely clk q" "\<not> ds_storage_poisoned (fst w)"
  shows "unexpired clk (fst (peer_store L clk q w))"
  unfolding unexpired_def
proof (intro allI impI)
  fix k v n assume "hm_get (ds_storage (fst (peer_store L clk q w))) k = Some v"
  then consider "hm_get (ds_storage (fst w)) k = Some v" | j d where "j < length (sq_keys q)" "v = requested_entry q j d"
    using last_accepted_source [of clk q 0 "sq_keys q" "snd w" k "hm_get (ds_storage (fst w)) k" v] peer_store_get [OF assms(3)] by auto
  then show "f64_lt (clk n) (sv_expiration_time v)"
  proof cases
    case 1
    then show ?thesis using assms(1) by (simp add: unexpired_def)
  next
    case 2
    then show ?thesis using assms(2) by (simp add: timely_def requested_entry_def vec_get_def)
  qed
qed

lemma peer_stores_unexpired:
  "unexpired clk (fst w) \<Longrightarrow> \<forall>q \<in> set qs. timely clk q \<Longrightarrow> \<not> ds_storage_poisoned (fst w) \<Longrightarrow>
     unexpired clk (fst (fold (peer_store L clk) qs w)) \<and> \<not> ds_storage_poisoned (fst (fold (peer_store L clk) qs w))"
  by (induction qs arbitrary: w) (simp_all add: peer_store_unexpired peer_store_frame)

lemma registry_timely: "registry_request L names now q \<Longrightarrow> (\<And>n i. f64_lt (clk n) (expires (now i))) \<Longrightarrow> timely clk q"
  unfolding registry_request_def by (auto simp: timely_def single_store_request_def)

lemma block_request_timely:
  "(\<And>n i. f64_lt (clk n) (expiry i)) \<Longrightarrow> timely clk (block_store_request L prefix s e sub v expiry now node)"
  by (auto simp: timely_def block_store_request_def Let_def)

text \<open>What reaches the bootstrap peer: the block records, then registry entries.\<close>

lemma announce_world:
  assumes D: "prost_ok (nl_prost L)" and addr: "bootstrap_addr L addr"
    and run: "announce L (bootstrap_call L clk latency) clkl now secs [addr] a rep (sl, tn, w) = (rep', (sl', tn', w'), Inr ())"
  obtains info_bytes sub node q1 q2 qs where "server_info_msgpack (nl_rmpv L) (an_info a) = Inr info_bytes"
    "w' = fold (peer_store L clk) (block_store_request L (an_prefix a) (an_start_block a) (an_end_block a) sub info_bytes
            (\<lambda>i. expires (now i)) (now (nat (an_end_block a - an_start_block a))) node # q1 # q2 # qs) w"
    "registry_request L {''_petals.models''} now q1" "\<forall>q \<in> set qs. registry_request L {''_kwaai.vpk.nodes''} now q"
    "\<exists>i j. q2 = single_store_request (now i) (expires (now j)) (dht_id L ''_kwaai.inference.nodes'') sub info_bytes node"
proof -
  define n where "n = nat (an_end_block a - an_start_block a)"
  define sub where "sub = nl_pack_str L (pid_to_base58 (nl_peer L) (an_peer_id a))"
  define node where "node = node_info_from_peer_id (nl_peer L) (an_peer_id a)"
  obtain info_bytes where ib: "server_info_msgpack (nl_rmpv L) (an_info a) = Inr info_bytes"
    using run by (cases "server_info_msgpack (nl_rmpv L) (an_info a)") (simp_all add: announce_def Let_def)
  obtain mb where mb: "model_info_msgpack (nl_rmpv L) \<lparr>mi_num_blocks = an_total_blocks a, mi_repository = an_repository a\<rparr> = Inr mb"
    using run ib
    by (cases "model_info_msgpack (nl_rmpv L) \<lparr>mi_num_blocks = an_total_blocks a, mi_repository = an_repository a\<rparr>")
      (simp_all add: announce_def pair_simps)
  define q0 where "q0 = block_store_request L (an_prefix a) (an_start_block a) (an_end_block a) sub info_bytes (\<lambda>i. expires (now i)) (now n) node"
  define q1 where "q1 = single_store_request (now (n + 1)) (expires (now (n + 2))) (dht_id L ''_petals.models'') (nl_pack_str L (an_prefix a)) mb node"
  define q2 where "q2 = single_store_request (now (n + 3)) (expires (now (n + 4))) (dht_id L ''_kwaai.inference.nodes'') sub info_bytes node"
  define vq where "vq vb = single_store_request (now (n + 5)) (expires (now (n + 6))) (dht_id L ''_kwaai.vpk.nodes'') sub vb node" for vb
  have P: "snd (snd (fst (publish L (bootstrap_call L clk latency) clkl [addr] req st))) = peer_store L clk req (snd (snd st))" for req st
    using publish_single [OF D addr] by (cases st) simp
  have reg: "registry_request L {''_petals.models''} now q1" "registry_request L {''_kwaai.vpk.nodes''} now (vq vb)" for vb
    unfolding q1_def vq_def by (rule registry_requestI, simp)+
  have q2: "\<exists>i j. q2 = single_store_request (now i) (expires (now j)) (dht_id L ''_kwaai.inference.nodes'') sub info_bytes node"
    unfolding q2_def by blast
  have w': "w' = snd (snd (fst (snd (announce L (bootstrap_call L clk latency) clkl now secs [addr] a rep (sl, tn, w)))))"
    by (simp add: run)
  show thesis
  proof (cases "si_vpk_info (an_info a)")
    case None
    then have "w' = fold (peer_store L clk) (q0 # [q1, q2]) w"
      using ib mb w' by (simp add: announce_def pair_simps P q0_def q1_def q2_def n_def sub_def node_def)
    with reg ib show thesis by (intro that [OF ib _ _ _ q2, of q1 "[]"]) (simp_all add: q0_def n_def)
  next
    case (Some vpk)
    then obtain vb where "vpk_msgpack_bytes (nl_rmpv L) vpk = Inr vb"
      using run ib mb by (cases "vpk_msgpack_bytes (nl_rmpv L) vpk") (simp_all add: announce_def pair_simps)
    then have "w' = fold (peer_store L clk) (q0 # [q1, q2, vq vb]) w"
      using ib mb w' Some by (simp add: announce_def pair_simps P q0_def q1_def q2_def vq_def n_def sub_def node_def)
    with reg ib show thesis by (intro that [OF ib _ _ _ q2, of q1 "[vq vb]"]) (simp_all add: q0_def n_def)
  qed
qed

text \<open>The entry under which a record of a known peer is collected does not depend on the random id.\<close>

lemma regular_known:
  assumes "decode_server_info_ext (nl_rmpv L) v = Some r" "pid_parse (nl_peer L) (srec_peer_id_b58 r) = Some p"
  shows "decode_server_info_regular L rp v = (if record_online r then Some (pid_to_base58 (nl_peer L) p, record_entry p r) else None)"
  using assms by (simp add: decode_server_info_regular_def)

definition foreign :: "'p node_lib \<Rightarrow> string \<Rightarrow> bytes \<Rightarrow> bool" where
  "foreign L key v \<longleftrightarrow> (\<forall>rp. map_option fst (decode_server_info_regular L rp v) \<noteq> Some key)"

lemma map_filter_mem: "v \<in> set (List.map_filter f xs) \<longleftrightarrow> (\<exists>x \<in> set xs. f x = Some v)"
  by (induction xs) (auto simp: map_filter_simps split: option.split)

lemma regular_records_mem:
  "kv \<in> set (regular_records L random_peer (zip [0..<length rs] rs)) \<longleftrightarrow>
     (\<exists>i < length rs. \<exists>v. found_value (rs ! i) = Some v \<and> decode_server_info_regular L (random_peer i) v = Some kv)"
proof -
  have "x \<in> set (zip [0..<length rs] rs) \<longleftrightarrow> (\<exists>i < length rs. x = (i, rs ! i))" for x
    by (cases x) (force simp: set_zip)
  then have "set (zip [0..<length rs] rs) = (\<lambda>i. (i, rs ! i)) ` {..<length rs}" by auto
  then show ?thesis
    by (simp add: regular_records_def map_filter_mem bind_eq_Some_conv Bex_def)
qed

text \<open>
  If one of the records decodes to a peer, and every record under the keys of the blocks either is that
  record or belongs to other peers, then the discovered chain has the peer with that record.
\<close>

lemma discovered:
  assumes D: "prost_ok (nl_prost L)" and addr: "bootstrap_addr L addr" and s: "\<not> ds_storage_poisoned s" "unexpired clk s"
    and v: "v \<in> set (block_values L prefix N s)" "v \<noteq> []" "\<And>rp. decode_server_info_regular L rp v = Some (key, e)"
    and other: "\<And>v'. v' \<in> set (block_values L prefix N s) \<Longrightarrow> v' = v \<or> foreign L key v'"
  shows "e \<in> set (snd (discover_chain L (bootstrap_world L clk) random_peer now our prefix N [addr] (s, t)))"
proof -
  obtain rs where rs: "snd (discover_chain L (bootstrap_world L clk) random_peer now our prefix N [addr] (s, t)) =
       sort_by by_start (hm_values (collect_servers L random_peer rs))"
    "hm_wf (collect_servers L random_peer rs)"
    "\<And>k. hm_get (collect_servers L random_peer rs) k = map_of (regular_records L random_peer (zip [0..<length rs] rs)) k"
    "List.map_filter found_value rs = filter (\<lambda>v. v \<noteq> []) (block_values L prefix N s)"
    by (rule discover_one [OF D addr s, where random_peer = random_peer and now = now and our = our and prefix = prefix and N = N and t = t]) blast
  let ?kvs = "regular_records L random_peer (zip [0..<length rs] rs)"
  have vals: "found_value r = Some v' \<Longrightarrow> r \<in> set rs \<Longrightarrow> v' \<in> set (block_values L prefix N s)" for r v'
    using arg_cong [OF rs(4), of set] map_filter_mem [of v' found_value rs] by auto
  have "v \<in> set (List.map_filter found_value rs)" using v(1,2) by (simp add: rs(4))
  then obtain r where "r \<in> set rs" "found_value r = Some v" unfolding map_filter_mem by blast
  then obtain i where "i < length rs" "found_value (rs ! i) = Some v" by (auto simp: in_set_conv_nth)
  then have mem: "(key, e) \<in> set ?kvs" using v(3) by (auto simp: regular_records_mem)
  have uniq: "e' = e" if e': "(key, e') \<in> set ?kvs" for e'
  proof -
    obtain i v' where v': "i < length rs" "found_value (rs ! i) = Some v'" "decode_server_info_regular L (random_peer i) v' = Some (key, e')"
      using e' by (auto simp: regular_records_mem)
    then have "v' = v \<or> foreign L key v'" using other vals by simp
    moreover have "\<not> foreign L key v'"
    proof
      assume "foreign L key v'"
      then have "map_option fst (decode_server_info_regular L (random_peer i) v') \<noteq> Some key"
        unfolding foreign_def by blast
      with v'(3) show False by simp
    qed
    ultimately show ?thesis using v' v(3) by auto
  qed
  obtain e' where "map_of ?kvs key = Some e'" using mem weak_map_of_SomeI [of key e ?kvs] by auto
  moreover from map_of_SomeD [OF this] have "e' = e" by (rule uniq)
  ultimately have "hm_get (collect_servers L random_peer rs) key = Some e" by (simp add: rs(3))
  then have "e \<in> set (hm_values (collect_servers L random_peer rs))"
    using hm_get_in_set [OF rs(2)] by (force simp: hm_values_def)
  then show ?thesis using rs(1) by simp
qed

text \<open>An announcement of a node that is ready, with the record it makes.\<close>

definition ready_announcement :: "'p node_lib \<Rightarrow> 'p announcement \<Rightarrow> bool" where
  "ready_announcement L a \<longleftrightarrow> 0 \<le> an_start_block a \<and> an_start_block a < an_end_block a \<and> an_end_block a < 2 ^ 31 \<and>
     (\<exists>version name relay throughput attestations vpk. version_meets_minimum (''kwaai-'' @ version) \<and>
        an_info a = server_info_new True version (an_start_block a) (an_end_block a) name relay throughput attestations vpk
          (pid_to_base58 (nl_peer L) (an_peer_id a)))"

definition announced :: "'p announcement \<Rightarrow> nat \<Rightarrow> bool" where
  "announced a b \<longleftrightarrow> an_start_block a \<le> int b \<and> int b < an_end_block a"

definition announced_entry :: "'p announcement \<Rightarrow> 'p block_server_entry" where
  "announced_entry a =
     \<lparr>be_peer_id = an_peer_id a, be_start_block = nat (an_start_block a), be_end_block = nat (an_end_block a),
      be_public_name = si_public_name (an_info a), be_throughput = si_throughput (an_info a), be_trust_score = None\<rparr>"

text \<open>What an announcement does to the table of the bootstrap peer.\<close>

lemma announce_effect:
  assumes "rmpv_ok (nl_rmpv L)" "prost_ok (nl_prost L)" "peer_id_base58_ok (nl_peer L)" "bootstrap_addr L addr"
    and "keys_apart L (an_prefix a) N" "ready_announcement L a" "an_end_block a \<le> int N"
    and "\<not> ds_storage_poisoned (fst w)" "unexpired clk (fst w)" "\<And>n i. f64_lt (clk n) (expires (now i))"
    and "announce L (bootstrap_call L clk latency) clkl now secs [addr] a rep (sl, tn, w) = (rep', (sl', tn', w'), Inr ())"
  obtains v where "v \<noteq> []" "decode_server_info_ext (nl_rmpv L) v = Some (decoded_info (an_info a))"
    "\<not> ds_storage_poisoned (fst w')" "unexpired clk (fst w')"
    "\<And>b. b < N \<Longrightarrow> map_option sv_value (hm_get (ds_storage (fst w')) (block_dht_id L (an_prefix a) b)) =
       (if announced a b then Some v else map_option sv_value (hm_get (ds_storage (fst w)) (block_dht_id L (an_prefix a) b)))"
    "map_option sv_value (hm_get (ds_storage (fst w')) (dht_id L ''_kwaai.inference.nodes'')) = Some v"
proof -
  let ?node = "nat (an_end_block a - an_start_block a)"
  have range: "0 \<le> an_start_block a" "an_start_block a < an_end_block a" "an_end_block a < 2 ^ 31" "si_state (an_info a) = 2"
    "si_start_block (an_info a) = an_start_block a" "si_end_block (an_info a) = an_end_block a"
    using assms(6) by (auto simp: ready_announcement_def server_info_new_def)
  obtain v sub node q1 q2 qs where v: "server_info_msgpack (nl_rmpv L) (an_info a) = Inr v"
    and w': "w' = fold (peer_store L clk) (block_store_request L (an_prefix a) (an_start_block a) (an_end_block a) sub v
            (\<lambda>i. expires (now i)) (now ?node) node # q1 # q2 # qs) w"
    and q1: "registry_request L {''_petals.models''} now q1" and qs: "\<forall>q \<in> set qs. registry_request L {''_kwaai.vpk.nodes''} now q"
    and "\<exists>i j. q2 = single_store_request (now i) (expires (now j)) (dht_id L ''_kwaai.inference.nodes'') sub v node"
    by (rule announce_world [OF assms(2,4,11)])
  then obtain i j where q2: "q2 = single_store_request (now i) (expires (now j)) (dht_id L ''_kwaai.inference.nodes'') sub v node" by blast
  let ?q0 = "block_store_request L (an_prefix a) (an_start_block a) (an_end_block a) sub v (\<lambda>i. expires (now i)) (now ?node) node"
  have reg: "\<forall>q \<in> set (q1 # q2 # qs). registry_request L registry_names now q"
    using registry_request_mono [OF q1, of registry_names] qs registry_request_mono [of L "{''_kwaai.vpk.nodes''}" now _ registry_names]
      registry_requestI [of "''_kwaai.inference.nodes''" registry_names L now i j sub v node]
    by (simp add: q2 registry_names_def)
  have dec: "decode_server_info_ext (nl_rmpv L) v = Some (decoded_info (an_info a))"
    by (rule server_info_decoded [OF assms(1) v]) (use range in \<open>simp_all add: is_i32_def\<close>)
  have ne: "v \<noteq> []" using assms(1) v by (auto simp: server_info_msgpack_def rmpv_ok_def split: sum.splits)
  have "\<forall>q \<in> set (?q0 # q1 # q2 # qs). timely clk q"
    using reg registry_timely [of L registry_names now _ clk] block_request_timely [of clk "\<lambda>i. expires (now i)"] assms(10) by auto
  then have fin: "\<not> ds_storage_poisoned (fst w')" "unexpired clk (fst w')"
    using peer_stores_unexpired [of clk w "?q0 # q1 # q2 # qs" L] assms(8,9) unfolding w' by simp_all
  have get: "map_option sv_value (hm_get (ds_storage (fst w')) (block_dht_id L (an_prefix a) b)) =
       (if announced a b then Some v else map_option sv_value (hm_get (ds_storage (fst w)) (block_dht_id L (an_prefix a) b)))"
    if b: "b < N" for b
  proof -
    have "block_dht_id L (an_prefix a) b \<notin> dht_id L ` registry_names" using block_key_not_name [OF assms(5) _ b] by (metis imageE)
    from registries_keep [OF reg _ this, of "peer_store L clk ?q0 w" clk] show ?thesis
      using block_store_get [OF assms(5) range(1) assms(8) _ assms(7) b, of clk "\<lambda>i. expires (now i)"] assms(8,10)
      by (simp add: w' peer_store_frame announced_def)
  qed
  have "dht_id L ''_kwaai.inference.nodes'' \<notin> dht_id L ` {''_kwaai.vpk.nodes''}"
    using registry_key_inj [OF assms(5), of "''_kwaai.inference.nodes''" "''_kwaai.vpk.nodes''"] by (simp add: registry_names_def)
  from registries_keep [OF qs _ this, of "peer_store L clk q2 (peer_store L clk q1 (peer_store L clk ?q0 w))" clk]
  have "map_option sv_value (hm_get (ds_storage (fst w')) (dht_id L ''_kwaai.inference.nodes'')) = Some v"
    using single_store_here [of "peer_store L clk q1 (peer_store L clk ?q0 w)" clk "expires (now j)"] assms(8,10)
    by (simp add: w' q2 peer_store_frame)
  from that [OF ne dec fin get this] show thesis .
qed

lemma announced_record:
  assumes "peer_id_base58_ok (nl_peer L)" "ready_announcement L a" "decode_server_info_ext (nl_rmpv L) v = Some (decoded_info (an_info a))"
  shows "decode_server_info_regular L rp v = Some (pid_to_base58 (nl_peer L) (an_peer_id a), announced_entry a)"
proof -
  obtain version name relay throughput attestations vpk where ver: "version_meets_minimum (''kwaai-'' @ version)"
    and info: "an_info a = server_info_new True version (an_start_block a) (an_end_block a) name relay throughput attestations vpk
          (pid_to_base58 (nl_peer L) (an_peer_id a))"
    and range: "0 \<le> an_start_block a" "an_start_block a < an_end_block a" "an_end_block a < 2 ^ 31"
    using assms(2) unfolding ready_announcement_def by blast
  show ?thesis
    using regular_known [OF assms(3), of "an_peer_id a" rp] assms(1) ver info range
    by (simp add: decoded_info_def server_info_new_def record_online_def peer_id_base58_ok_def record_entry_def announced_entry_def i64_as_usize_nat)
qed

text \<open>
  C5: What a node announces is what other nodes discover. Let a node that is ready announce a range of
  blocks to a bootstrap peer that answers with the DHT handlers of this program. While nothing
  expires, and if no record about the node lies under other blocks of the model, every node that queries
  this bootstrap peer finds the entry with the node's peer id, exactly that range, its name and its throughput.
\<close>

theorem announced_node_discovered:
  assumes "rmpv_ok (nl_rmpv L)" "prost_ok (nl_prost L)" "peer_id_base58_ok (nl_peer L)" "bootstrap_addr L addr"
    and "keys_apart L (an_prefix a) N" "ready_announcement L a" "an_end_block a \<le> int N"
    and "\<not> ds_storage_poisoned (fst w)" "unexpired clk (fst w)" "\<And>n i. f64_lt (clk n) (expires (now i))"
    and "\<And>b v. b < N \<Longrightarrow> \<not> announced a b \<Longrightarrow> hm_get (ds_storage (fst w)) (block_dht_id L (an_prefix a) b) = Some v \<Longrightarrow>
           foreign L (pid_to_base58 (nl_peer L) (an_peer_id a)) (sv_value v)"
    and "announce L (bootstrap_call L clk latency) clkl now secs [addr] a rep (sl, tn, w) = (rep', (sl', tn', w'), Inr ())"
  shows "announced_entry a \<in> set (snd (discover_chain L (bootstrap_world L clk) random_peer now' our (an_prefix a) N [addr] w'))"
proof -
  let ?key = "pid_to_base58 (nl_peer L) (an_peer_id a)"
  obtain v where v: "v \<noteq> []" "decode_server_info_ext (nl_rmpv L) v = Some (decoded_info (an_info a))"
    "\<not> ds_storage_poisoned (fst w')" "unexpired clk (fst w')"
    and get: "\<And>b. b < N \<Longrightarrow> map_option sv_value (hm_get (ds_storage (fst w')) (block_dht_id L (an_prefix a) b)) =
       (if announced a b then Some v else map_option sv_value (hm_get (ds_storage (fst w)) (block_dht_id L (an_prefix a) b)))"
    by (rule announce_effect [OF assms(1-10,12)]) blast
  have range: "0 \<le> an_start_block a" "an_start_block a < an_end_block a"
    using assms(6) by (auto simp: ready_announcement_def)
  have "announced_entry a \<in> set (snd (discover_chain L (bootstrap_world L clk) random_peer now' our (an_prefix a) N [addr] (fst w', snd w')))"
  proof (rule discovered [OF assms(2,4) v(3,4) _ v(1) announced_record [OF assms(3,6) v(2)]])
    show "v \<in> set (block_values L (an_prefix a) N (fst w'))"
      using get [of "nat (an_start_block a)"] assms(7) range
      unfolding block_values_def map_filter_mem by (intro bexI [of _ "nat (an_start_block a)"]) (auto simp: announced_def)
    show "v' = v \<or> foreign L ?key v'" if v': "v' \<in> set (block_values L (an_prefix a) N (fst w'))" for v'
    proof -
      obtain b where b: "b < N" "map_option sv_value (hm_get (ds_storage (fst w')) (block_dht_id L (an_prefix a) b)) = Some v'"
        using v' unfolding block_values_def map_filter_mem by auto
      show ?thesis
      proof (cases "announced a b")
        case False
        then show ?thesis using b(2) get [OF b(1)] assms(11) [OF b(1) False] by auto
      qed (use b(2) get [OF b(1)] in simp)
    qed
  qed
  then show ?thesis by simp
qed

text \<open>Every discovered entry comes from a record under the key of some block.\<close>

lemma discovered_source:
  assumes D: "prost_ok (nl_prost L)" and addr: "bootstrap_addr L addr" and s: "\<not> ds_storage_poisoned s" "unexpired clk s"
    and e: "e \<in> set (snd (discover_chain L (bootstrap_world L clk) random_peer now our prefix N [addr] (s, t)))"
  obtains i v key where "v \<in> set (block_values L prefix N s)" "decode_server_info_regular L (random_peer i) v = Some (key, e)"
proof -
  obtain rs where rs: "snd (discover_chain L (bootstrap_world L clk) random_peer now our prefix N [addr] (s, t)) =
       sort_by by_start (hm_values (collect_servers L random_peer rs))"
    "hm_wf (collect_servers L random_peer rs)"
    "\<And>k. hm_get (collect_servers L random_peer rs) k = map_of (regular_records L random_peer (zip [0..<length rs] rs)) k"
    "List.map_filter found_value rs = filter (\<lambda>v. v \<noteq> []) (block_values L prefix N s)"
    by (rule discover_one [OF D addr s, where random_peer = random_peer and now = now and our = our and prefix = prefix and N = N and t = t]) blast
  have "e \<in> set (hm_values (collect_servers L random_peer rs))" using e rs(1) by simp
  then obtain key where "hm_get (collect_servers L random_peer rs) key = Some e"
    using hm_get_in_set [OF rs(2)] by (force simp: hm_values_def)
  then have "(key, e) \<in> set (regular_records L random_peer (zip [0..<length rs] rs))"
    using rs(3) map_of_SomeD by fastforce
  then obtain i v where v: "i < length rs" "found_value (rs ! i) = Some v" "decode_server_info_regular L (random_peer i) v = Some (key, e)"
    by (auto simp: regular_records_mem)
  then have "v \<in> set (List.map_filter found_value rs)" unfolding map_filter_mem by auto
  then have "v \<in> set (block_values L prefix N s)" by (simp add: rs(4))
  from that [OF this v(3)] show thesis .
qed

text \<open>
  C34: A later announcement hides an earlier one. The table of this program keeps one value per key and
  ignores the subkey that tells peers apart. When two nodes announce the same blocks to such a bootstrap
  peer, a discovery no longer finds the node that announced first, although its record has not expired.
\<close>

theorem later_announcement_hides:
  assumes "rmpv_ok (nl_rmpv L)" "prost_ok (nl_prost L)" "peer_id_base58_ok (nl_peer L)" "bootstrap_addr L addr"
    and "keys_apart L (an_prefix a) N" "ready_announcement L a" "an_end_block a \<le> int N"
    and "ready_announcement L a'" "an_end_block a' \<le> int N" "an_peer_id a \<noteq> an_peer_id a'" "an_prefix a' = an_prefix a"
    and "\<And>b. announced a' b = announced a b"
    and "\<not> ds_storage_poisoned (fst w)" "unexpired clk (fst w)"
    and "\<And>n i. f64_lt (clk n) (expires (now i))" "\<And>n i. f64_lt (clk n) (expires (now2 i))"
    and "\<And>b v. b < N \<Longrightarrow> \<not> announced a b \<Longrightarrow> hm_get (ds_storage (fst w)) (block_dht_id L (an_prefix a) b) = Some v \<Longrightarrow>
           foreign L (pid_to_base58 (nl_peer L) (an_peer_id a)) (sv_value v)"
    and "announce L (bootstrap_call L clk latency) clkl now secs [addr] a rep (sl, tn, w) = (rep1, (sl1, tn1, w1), Inr ())"
    and "announce L (bootstrap_call L clk latency) clkl' now2 secs' [addr] a' rep' (sl', tn', w1) = (rep2, (sl2, tn2, w2), Inr ())"
    and "\<And>i. random_peer i \<noteq> an_peer_id a"
  shows "an_peer_id a \<notin> be_peer_id ` set (snd (discover_chain L (bootstrap_world L clk) random_peer now' our (an_prefix a) N [addr] w2))"
proof
  assume "an_peer_id a \<in> be_peer_id ` set (snd (discover_chain L (bootstrap_world L clk) random_peer now' our (an_prefix a) N [addr] w2))"
  then obtain e where e: "e \<in> set (snd (discover_chain L (bootstrap_world L clk) random_peer now' our (an_prefix a) N [addr] w2))"
    and peer: "be_peer_id e = an_peer_id a" by (metis imageE)
  let ?key = "pid_to_base58 (nl_peer L) (an_peer_id a)"
  obtain v1 where v1: "\<not> ds_storage_poisoned (fst w1)" "unexpired clk (fst w1)"
    and get1: "\<And>b. b < N \<Longrightarrow> map_option sv_value (hm_get (ds_storage (fst w1)) (block_dht_id L (an_prefix a) b)) =
       (if announced a b then Some v1 else map_option sv_value (hm_get (ds_storage (fst w)) (block_dht_id L (an_prefix a) b)))"
    by (rule announce_effect [OF assms(1-7,13-15,18)]) blast
  obtain v2 where v2: "decode_server_info_ext (nl_rmpv L) v2 = Some (decoded_info (an_info a'))"
    "\<not> ds_storage_poisoned (fst w2)" "unexpired clk (fst w2)"
    and get2: "\<And>b. b < N \<Longrightarrow> map_option sv_value (hm_get (ds_storage (fst w2)) (block_dht_id L (an_prefix a') b)) =
       (if announced a' b then Some v2 else map_option sv_value (hm_get (ds_storage (fst w1)) (block_dht_id L (an_prefix a') b)))"
    by (rule announce_effect [OF assms(1-4) assms(5) [folded assms(11)] assms(8,9) v1 assms(16,19)]) blast
  obtain i v key where v: "v \<in> set (block_values L (an_prefix a) N (fst w2))" "decode_server_info_regular L (random_peer i) v = Some (key, e)"
    by (rule discovered_source [OF assms(2,4) v2(2,3), of e random_peer now' our "an_prefix a" N "snd w2"]) (use e in simp, blast)
  have key: "key = ?key"
    using v(2) peer assms(20) [of i]
    by (auto simp: decode_server_info_regular_def bind_eq_Some_conv record_entry_def split: if_splits option.splits)
  obtain b where b: "b < N" "map_option sv_value (hm_get (ds_storage (fst w2)) (block_dht_id L (an_prefix a) b)) = Some v"
    using v(1) unfolding block_values_def map_filter_mem by auto
  show False
  proof (cases "announced a b")
    case True
    with b(2) get2 [OF b(1)] assms(11,12) have "v = v2" by auto
    with announced_record [OF assms(3,8) v2(1)] v(2) peer assms(10) show False by (auto simp: announced_entry_def)
  next
    case False
    then have "map_option sv_value (hm_get (ds_storage (fst w)) (block_dht_id L (an_prefix a) b)) = Some v"
      using b(2) unfolding get2 [OF b(1), unfolded assms(11,12)] get1 [OF b(1)] by simp
    then obtain sv where "hm_get (ds_storage (fst w)) (block_dht_id L (an_prefix a) b) = Some sv" "sv_value sv = v" by auto
    with assms(17) [OF b(1) False] v(2) key show False unfolding foreign_def by (metis fst_conv option.simps(9))
  qed
qed

text \<open>What \<open>unannounce\<close> sends: offline records of the blocks, and the VPK record once more.\<close>

lemma unannounce_world:
  assumes D: "prost_ok (nl_prost L)" and addr: "bootstrap_addr L addr"
    and run: "unannounce L (bootstrap_call L clk latency) clkl now [addr] p prefix info (sl, tn, w) = (sl', tn', w')"
  obtains qs where "w' = fold (peer_store L clk) qs w"
    "\<forall>q \<in> set qs. registry_request L {''_kwaai.vpk.nodes''} now q \<or> (\<exists>sub v node.
       q = block_store_request L prefix (si_start_block info) (si_end_block info) sub v (\<lambda>_. expires (now 0)) (now 1) node)"
proof -
  define sub where "sub = nl_pack_str L (pid_to_base58 (nl_peer L) p)"
  define node where "node = node_info_from_peer_id (nl_peer L) p"
  define q0 where "q0 v = block_store_request L prefix (si_start_block info) (si_end_block info) sub v (\<lambda>_. expires (now 0)) (now 1) node" for v
  define vq where "vq v = single_store_request (now 2) (expires (now 0)) (dht_id L ''_kwaai.vpk.nodes'') sub v node" for v
  have P: "snd (snd (fst (publish L (bootstrap_call L clk latency) clkl [addr] req st))) = peer_store L clk req (snd (snd st))" for req st
    using publish_single [OF D addr] by (cases st) simp
  have w': "w' = snd (snd (unannounce L (bootstrap_call L clk latency) clkl now [addr] p prefix info (sl, tn, w)))"
    by (simp add: run)
  have "w' = fold (peer_store L clk)
      (case server_info_msgpack (nl_rmpv L) (offline_info info) of Inl _ \<Rightarrow> []
       | Inr v \<Rightarrow> q0 v # (case si_vpk_info info of None \<Rightarrow> []
           | Some vpk \<Rightarrow> (case vpk_msgpack_bytes (nl_rmpv L) vpk of Inl _ \<Rightarrow> [] | Inr vb \<Rightarrow> [vq vb]))) w"
    unfolding w' by (simp add: unannounce_def pair_simps P q0_def vq_def sub_def node_def split: sum.split option.split)
  then show thesis
    by (rule that) (auto simp: q0_def vq_def split: sum.splits option.splits intro!: registry_requestI)
qed

lemma block_store_other:
  assumes "0 \<le> s" "e \<le> int N" "\<not> ds_storage_poisoned (fst w)" "\<And>b. b < N \<Longrightarrow> k \<noteq> block_dht_id L prefix b"
  shows "hm_get (ds_storage (fst (peer_store L clk (block_store_request L prefix s e sub v expiry now node) w))) k = hm_get (ds_storage (fst w)) k"
proof -
  have "k \<noteq> dht_id L (prefix @ ''.'' @ show_int x)" if "s \<le> x" "x < e" for x
    using assms(4) [of "nat x"] that assms(1,2) by (simp add: block_key)
  then have "k \<notin> set (sq_keys (block_store_request L prefix s e sub v expiry now node))"
    by (simp add: block_store_request_def Let_def image_iff)
  then show ?thesis by (simp add: peer_store_get [OF assms(3)] last_accepted_absent)
qed

lemma unannounce_effect:
  assumes "prost_ok (nl_prost L)" "bootstrap_addr L addr" "keys_apart L prefix N" "0 \<le> si_start_block info" "si_end_block info \<le> int N"
    and "\<not> ds_storage_poisoned (fst w)" "unexpired clk (fst w)" "\<And>n i. f64_lt (clk n) (expires (now i))"
    and "unannounce L (bootstrap_call L clk latency) clkl now [addr] p prefix info (sl, tn, w) = (sl', tn', w')"
  shows "\<not> ds_storage_poisoned (fst w')" "unexpired clk (fst w')"
    "hm_get (ds_storage (fst w')) (dht_id L ''_kwaai.inference.nodes'') = hm_get (ds_storage (fst w)) (dht_id L ''_kwaai.inference.nodes'')"
proof -
  let ?k = "dht_id L ''_kwaai.inference.nodes''"
  obtain qs where qs: "w' = fold (peer_store L clk) qs w"
    "\<forall>q \<in> set qs. registry_request L {''_kwaai.vpk.nodes''} now q \<or> (\<exists>sub v node.
       q = block_store_request L prefix (si_start_block info) (si_end_block info) sub v (\<lambda>_. expires (now 0)) (now 1) node)"
    by (rule unannounce_world [OF assms(1,2,9)])
  have "timely clk q" if "q \<in> set qs" for q
    using that qs(2) registry_timely [of L _ now q clk, OF _ assms(8)] block_request_timely [of clk "\<lambda>_. expires (now 0)", OF assms(8)] by blast
  then show "\<not> ds_storage_poisoned (fst w')" "unexpired clk (fst w')"
    using peer_stores_unexpired [of clk w qs L] assms(6,7) qs(1) by simp_all
  have k: "?k \<notin> dht_id L ` {''_kwaai.vpk.nodes''}" "\<And>b. b < N \<Longrightarrow> ?k \<noteq> block_dht_id L prefix b"
    using registry_key_inj [OF assms(3), of "''_kwaai.inference.nodes''" "''_kwaai.vpk.nodes''"]
      block_key_not_name [OF assms(3), of "''_kwaai.inference.nodes''"] by (simp_all add: registry_names_def)
  have step: "hm_get (ds_storage (fst (peer_store L clk q w))) ?k = hm_get (ds_storage (fst w)) ?k"
    if "q \<in> set qs" "\<not> ds_storage_poisoned (fst w)" for q w
    using that qs(2) registries_keep [of "[q]", OF _ that(2) k(1)] block_store_other [OF assms(4,5) that(2) k(2)] by fastforce
  have "hm_get (ds_storage (fst (fold (peer_store L clk) qs' w))) ?k = hm_get (ds_storage (fst w)) ?k" if "set qs' \<subseteq> set qs" for qs'
    using that assms(6) by (induction qs' arbitrary: w) (simp_all add: step peer_store_frame)
  then show "hm_get (ds_storage (fst w')) ?k = hm_get (ds_storage (fst w)) ?k" using qs(1) by simp
qed

text \<open>
  C35: A node that left is still chosen. \<open>unannounce\<close> overwrites the block records of the node with offline
  records, but not its record among the inference nodes. After the node announced itself and withdrew,
  a discovery of an inference peer at this bootstrap peer still returns it until that record expires.
\<close>

theorem unannounced_node_still_chosen:
  assumes "rmpv_ok (nl_rmpv L)" "prost_ok (nl_prost L)" "peer_id_base58_ok (nl_peer L)" "bootstrap_addr L addr"
    and "keys_apart L (an_prefix a) N" "ready_announcement L a" "an_end_block a \<le> int N"
    and "\<not> ds_storage_poisoned (fst w)" "unexpired clk (fst w)"
    and "\<And>n i. f64_lt (clk n) (expires (now i))" "\<And>n i. f64_lt (clk n) (expires (now2 i))"
    and "announce L (bootstrap_call L clk latency) clkl now secs [addr] a rep (sl, tn, w) = (rep1, (sl1, tn1, w1), Inr ())"
    and "unannounce L (bootstrap_call L clk latency) clkl' now2 [addr] (an_peer_id a) (an_prefix a) (an_info a) (sl', tn', w1) = (sl2, tn2, w2)"
    and "our \<noteq> an_peer_id a"
  shows "snd (discover_inference_peer L (bootstrap_world L clk) random_peer now' our [addr] dht_prefix total_blocks w2) =
     Some (''p2p://'' @ pid_to_base58 (nl_peer L) (an_peer_id a))"
proof -
  let ?k = "dht_id L ''_kwaai.inference.nodes''"
  obtain v where v: "v \<noteq> []" "decode_server_info_ext (nl_rmpv L) v = Some (decoded_info (an_info a))"
    and w1: "\<not> ds_storage_poisoned (fst w1)" "unexpired clk (fst w1)"
    "map_option sv_value (hm_get (ds_storage (fst w1)) ?k) = Some v"
    by (rule announce_effect [OF assms(1-10,12)]) blast
  have info: "0 \<le> si_start_block (an_info a)" "si_end_block (an_info a) \<le> int N"
    using assms(6,7) by (auto simp: ready_announcement_def server_info_new_def)
  note w2 = unannounce_effect [OF assms(2,4,5) info w1(1,2) assms(11,13)]
  obtain sv where sv: "hm_get (ds_storage (fst w2)) ?k = Some sv" "sv_value sv = v" using w1(3) w2(3) by auto
  have live: "f64_lt (clk t) (sv_expiration_time sv)" for t using w2(2) sv(1) by (auto simp: unexpired_def)
  have cand: "concat (map (inference_candidates L)
      (fp_results (fst (handle_find (nl_peer L) clk t (find_message L now0 our [?k]) (fst w2))))) =
      [(be_throughput (announced_entry a), an_peer_id a, be_public_name (announced_entry a))]" for t now0
    using v sv live w2(1) assms(3,6)
    by (auto simp: handle_find_def pair_simps find_message_def find_one_def inference_candidates_def ready_announcement_def
        announced_entry_def decoded_info_def server_info_new_def record_online_def peer_id_base58_ok_def)
  have "pid_to_base58 (nl_peer L) (an_peer_id a) \<noteq> pid_to_base58 (nl_peer L) our"
    using assms(3,14) by (metis option.inject peer_id_base58_ok_def)
  then show ?thesis
    using cand ask_one [OF assms(2,4), of clk "now' 0" our "[?k]" "fst w2" "snd w2"]
    by (simp add: discover_inference_peer_def pair_simps best_candidate_def dht_id_def sort_by_def split: option.split)
qed

text \<open>
  C36: One malformed record stops other nodes from choosing blocks. Any peer can store, under the key of
  a block, a record whose end lies before its start. A node that then looks for a gap finds the record and
  panics, whatever else the network holds.
\<close>

theorem malformed_record_panics:
  assumes "rmpv_ok (nl_rmpv L)" "prost_ok (nl_prost L)" "peer_id_base58_ok (nl_peer L)" "bootstrap_addr L addr"
    and "info = server_info_new True version start_at end_at name relay throughput attestations vpk (pid_to_base58 (nl_peer L) p)"
    and "version_meets_minimum (''kwaai-'' @ version)" "0 \<le> end_at" "end_at < start_at" "start_at < 2 ^ 31" "end_at < int N"
    and "server_info_msgpack (nl_rmpv L) info = Inr v" "b < N" "p \<noteq> our"
    and "\<not> ds_storage_poisoned (fst w)" "unexpired clk (fst w)" "\<And>n. f64_lt (clk n) expiry"
    and "\<And>b v. hm_get (ds_storage (fst w)) (block_dht_id L prefix b) = Some v \<Longrightarrow> foreign L (pid_to_base58 (nl_peer L) p) (sv_value v)"
    and "peer_store L clk (single_store_request now0 expiry (block_dht_id L prefix b) subkey v node) w = w'"
  shows "snd (pick_gap_blocks L (bootstrap_world L clk) random_peer now our prefix N target [addr] w') = None"
proof -
  let ?key = "pid_to_base58 (nl_peer L) p" and ?q = "single_store_request now0 expiry (block_dht_id L prefix b) subkey v node"
  let ?e = "record_entry p (decoded_info info)"
  have dec: "decode_server_info_ext (nl_rmpv L) v = Some (decoded_info info)"
    by (rule server_info_decoded [OF assms(1,11)]) (use assms(5,7-9) in \<open>simp_all add: server_info_new_def is_i32_def\<close>)
  have reg: "decode_server_info_regular L rp v = Some (?key, ?e)" for rp
    using regular_known [OF dec, of p rp] assms(3,5,6)
    by (simp add: decoded_info_def server_info_new_def record_online_def peer_id_base58_ok_def)
  have ne: "v \<noteq> []" using assms(1,11) by (auto simp: server_info_msgpack_def rmpv_ok_def split: sum.splits)
  have tm: "timely clk ?q" using assms(16) by (simp add: timely_def single_store_request_def)
  have fin: "\<not> ds_storage_poisoned (fst w')" "unexpired clk (fst w')"
    using peer_store_unexpired [OF assms(15) tm assms(14), of L] peer_store_frame [of L clk ?q w] assms(14,18) by simp_all
  have acc: "accepts clk ?q 0 (snd w)" using assms(16) by (simp add: accepts_def requested_entry_def single_store_request_def vec_get_def)
  have get: "hm_get (ds_storage (fst w')) k = (if block_dht_id L prefix b = k then Some (requested_entry ?q 0 (clk (snd w))) else hm_get (ds_storage (fst w)) k)" for k
    using peer_store_get [OF assms(14), of L clk ?q k] acc by (simp add: single_store_request_def flip: assms(18))
  have val: "sv_value (requested_entry ?q 0 d) = v" for d by (simp add: requested_entry_def single_store_request_def vec_get_def)
  have mem: "?e \<in> set (snd (discover_chain L (bootstrap_world L clk) random_peer (now 0) our prefix N [addr] (fst w', snd w')))"
  proof (rule discovered [OF assms(2,4) fin _ ne reg])
    show "v \<in> set (block_values L prefix N (fst w'))"
      using get [of "block_dht_id L prefix b"] assms(12) val
      unfolding block_values_def map_filter_mem by (intro bexI [of _ b]) auto
    show "v' = v \<or> foreign L ?key v'" if v': "v' \<in> set (block_values L prefix N (fst w'))" for v'
    proof -
      obtain c where "map_option sv_value (hm_get (ds_storage (fst w')) (block_dht_id L prefix c)) = Some v'"
        using v' unfolding block_values_def map_filter_mem by auto
      with assms(17) [of c] val show ?thesis by (auto simp: get split: if_splits)
    qed
  qed
  define chain where "chain = snd (discover_chain L (bootstrap_world L clk) random_peer (now 0) our prefix N [addr] w')"
  have "?e \<in> set chain" using mem by (simp add: chain_def)
  moreover have "be_end_block ?e < be_start_block ?e" "be_end_block ?e < N" "be_peer_id ?e \<noteq> our"
    using assms(5,7-10,13) by (simp_all add: record_entry_def decoded_info_def server_info_new_def i64_as_usize_nat nat_less_iff)
  ultimately have "pick_gap_from_chain chain our N target = None" "chain \<noteq> []"
    using pick_gap_panics [of N chain our target] assms(12) by auto
  then show ?thesis by (simp add: pick_gap_blocks_def pair_simps flip: chain_def)
qed

section \<open>Instances\<close>

text \<open>
  Libraries for concrete examples. Every message has a number, and its encoding is that many bytes. A table
  of MessagePack values encodes a value by its place; it holds the given values and, for each place, the
  extension that wraps it.
\<close>

instance access_token_ext :: (countable) countable
  by (rule countable_classI [of "\<lambda>r. to_nat (at_username r, at_public_key r, at_expiration_time r, at_signature r, access_token.more r)"]) (simp add: access_token.equality)

instance request_auth_info_ext :: (countable) countable
  by (rule countable_classI [of "\<lambda>r. to_nat (rqa_client_access_token r, rqa_service_public_key r, rqa_time r, rqa_nonce r, rqa_signature r, request_auth_info.more r)"]) (simp add: request_auth_info.equality)

instance response_auth_info_ext :: (countable) countable
  by (rule countable_classI [of "\<lambda>r. to_nat (rsa_service_access_token r, rsa_nonce r, rsa_signature r, response_auth_info.more r)"]) (simp add: response_auth_info.equality)

instance node_info_ext :: (countable) countable
  by (rule countable_classI [of "\<lambda>r. to_nat (node_id r, node_info.more r)"]) (simp add: node_info.equality)

instance ping_request_ext :: (countable) countable
  by (rule countable_classI [of "\<lambda>r. to_nat (pq_auth r, pq_peer r, pq_validate r, ping_request.more r)"]) (simp add: ping_request.equality)

instance ping_response_ext :: (countable) countable
  by (rule countable_classI [of "\<lambda>r. to_nat (pr_auth r, pr_peer r, pr_dht_time r, pr_available r, ping_response.more r)"]) (simp add: ping_response.equality)

instance store_request_ext :: (countable) countable
  by (rule countable_classI [of "\<lambda>r. to_nat (sq_auth r, sq_keys r, sq_subkeys r, sq_values r, sq_expiration_time r, sq_in_cache r, sq_peer r, store_request.more r)"]) (simp add: store_request.equality)

instance store_response_ext :: (countable) countable
  by (rule countable_classI [of "\<lambda>r. to_nat (sr_auth r, sr_store_ok r, sr_peer r, store_response.more r)"]) (simp add: store_response.equality)

instance find_request_ext :: (countable) countable
  by (rule countable_classI [of "\<lambda>r. to_nat (fq_auth r, fq_keys r, fq_peer r, find_request.more r)"]) (simp add: find_request.equality)

instance find_result_ext :: (countable) countable
  by (rule countable_classI [of "\<lambda>r. to_nat (fr_result_type r, fr_value r, fr_expiration_time r, fr_nearest_node_ids r, fr_nearest_peer_ids r, find_result.more r)"]) (simp add: find_result.equality)

instance find_response_ext :: (countable) countable
  by (rule countable_classI [of "\<lambda>r. to_nat (fp_auth r, fp_results r, fp_peer r, find_response.more r)"]) (simp add: find_response.equality)

definition unary_prost :: dht_prost where
  "unary_prost =
     \<lparr>enc_ping_req = unary, dec_ping_req = of_unary, enc_store_req = unary, dec_store_req = of_unary,
      enc_find_req = unary, dec_find_req = of_unary, enc_ping_res = unary, dec_ping_res = of_unary,
      enc_store_res = unary, dec_store_res = of_unary, enc_find_res = unary, dec_find_res = of_unary\<rparr>"

definition value_table :: "msg_value list \<Rightarrow> msg_value list" where
  "value_table vs = vs @ map (\<lambda>i. VExt 64 [word_of_nat i]) [0..<length vs]"

definition table_rmpv :: "msg_value list \<Rightarrow> rmpv" where
  "table_rmpv vs =
     \<lparr>rv_read = (\<lambda>bs. case bs of [b] \<Rightarrow> if unat b < length (value_table vs) then Some (value_table vs ! unat b) else None | _ \<Rightarrow> None),
      rv_write = (\<lambda>v. case find (\<lambda>i. value_table vs ! i = v) [0..<length (value_table vs)] of
                        Some i \<Rightarrow> Inr [word_of_nat i] | None \<Rightarrow> Inl ''unsupported value''),
      rv_as_i64 = (\<lambda>v. case v of VInt i \<Rightarrow> if - (2 ^ 63) \<le> i \<and> i < 2 ^ 63 then Some i else None | _ \<Rightarrow> None),
      rv_as_f64 = (\<lambda>v. case v of VF64 x \<Rightarrow> Some x | _ \<Rightarrow> None),
      rv_as_str = (\<lambda>v. case v of VString s \<Rightarrow> Some s | _ \<Rightarrow> None)\<rparr>"

lemma table_rmpv_ok: "length vs \<le> 100 \<Longrightarrow> rmpv_ok (table_rmpv vs)"
  by (auto simp: rmpv_ok_def table_rmpv_def value_table_def find_Some_iff unsigned_of_nat take_bit_nat_eq_self split: option.splits)

lemma table_writes:
  assumes "v \<in> set vs"
  obtains i where "i < length vs" "rv_write (table_rmpv vs) v = Inr [word_of_nat i]"
proof -
  obtain j where j: "j < length vs" "vs ! j = v" using assms by (auto simp: in_set_conv_nth)
  then have hit: "find (\<lambda>i. value_table vs ! i = v) [0..<length (value_table vs)] \<noteq> None"
    by (auto simp: find_None_iff value_table_def nth_append)
  then obtain i where i: "find (\<lambda>i. value_table vs ! i = v) [0..<length (value_table vs)] = Some i" by blast
  then have "i \<le> j" using j by (auto simp: find_Some_iff value_table_def nth_append dest!: spec [of _ j])
  with i j show thesis by (intro that [of i]) (simp_all add: table_rmpv_def)
qed

lemma table_writes_ext:
  assumes "i < length vs"
  obtains bs where "rv_write (table_rmpv vs) (VExt 64 [word_of_nat i]) = Inr bs"
proof -
  have "value_table vs ! (length vs + i) = VExt 64 [word_of_nat i]" "length vs + i < length (value_table vs)"
    using assms by (simp_all add: value_table_def nth_append)
  then have "find (\<lambda>j. value_table vs ! j = VExt 64 [word_of_nat i]) [0..<length (value_table vs)] \<noteq> None"
    by (auto simp: find_None_iff)
  then show thesis using that by (auto simp: table_rmpv_def)
qed

definition info_value :: "dht_server_info \<Rightarrow> msg_value" where
  "info_value i = VArray [VInt (si_state i), VF64 (si_throughput i), VMap (server_info_fields i)]"

lemma table_info:
  assumes "info_value i \<in> set vs"
  obtains bs where "server_info_msgpack (table_rmpv vs) i = Inr bs"
proof -
  obtain j where j: "j < length vs" "rv_write (table_rmpv vs) (info_value i) = Inr [word_of_nat j]" by (rule table_writes [OF assms])
  obtain bs where "rv_write (table_rmpv vs) (VExt 64 [word_of_nat j]) = Inr bs" by (rule table_writes_ext [OF j(1)])
  with j(2) show thesis by (intro that [of bs]) (simp add: server_info_msgpack_def info_value_def)
qed

text \<open>Two nodes that announce blocks 1 and 2 of a model of four blocks to one bootstrap peer.\<close>

definition demo_info :: "int \<Rightarrow> int \<Rightarrow> bytes \<Rightarrow> dht_server_info" where
  "demo_info s e p = server_info_new True ''0.4.0'' s e ''node'' False (Fin 5) [] None (pid_to_base58 raw_ops p)"

definition demo_announcement :: "bytes \<Rightarrow> bytes announcement" where
  "demo_announcement p =
     \<lparr>an_peer_id = p, an_prefix = ''m'', an_repository = ''r'', an_total_blocks = 4, an_start_block = 1, an_end_block = 3,
      an_info = demo_info 1 3 p\<rparr>"

definition demo_values :: "msg_value list" where
  "demo_values =
     [info_value (demo_info 1 3 [1]), info_value (demo_info 1 3 [2]), info_value (offline_info (demo_info 1 3 [1])),
      info_value (demo_info 3 1 [1]), VMap [(VString ''repository'', VString ''r''), (VString ''num_blocks'', VInt 4)]]"

definition demo_node :: "bytes node_lib" where
  "demo_node =
     \<lparr>nl_peer = raw_ops, nl_prost = unary_prost, nl_rmpv = table_rmpv demo_values,
      nl_pack_str = map (\<lambda>c. word_of_nat (of_char c)), nl_sha1 = (\<lambda>bs. bs), nl_error_text = (\<lambda>_. [])\<rparr>"

definition demo_addr :: string where
  "demo_addr = ''/dns/boot/p2p/x''"

definition demo_announced :: "bytes announcement \<Rightarrow> bytes dht_storage \<times> nat \<Rightarrow> bytes dht_storage \<times> nat" where
  "demo_announced a w = snd (snd (fst (snd (announce demo_node (bootstrap_call demo_node (\<lambda>_. Fin 0) (Fin 1)) (\<lambda>_. Fin 0) (\<lambda>_. Fin 0)
     (\<lambda>_. (True, 0)) [demo_addr] a None (dht_storage_new [9], 0, w)))))"

definition demo_withdrawn :: "bytes announcement \<Rightarrow> bytes dht_storage \<times> nat \<Rightarrow> bytes dht_storage \<times> nat" where
  "demo_withdrawn a w = snd (snd (unannounce demo_node (bootstrap_call demo_node (\<lambda>_. Fin 0) (Fin 1)) (\<lambda>_. Fin 0) (\<lambda>_. Fin 0)
     [demo_addr] (an_peer_id a) (an_prefix a) (an_info a) (dht_storage_new [9], 0, w)))"

lemma char_byte_inj: "inj (\<lambda>c. word_of_nat (of_char c) :: u8)"
proof (rule injI)
  fix c d :: char assume "(word_of_nat (of_char c) :: u8) = word_of_nat (of_char d)"
  then have "unat (word_of_nat (of_char c) :: u8) = unat (word_of_nat (of_char d) :: u8)" by simp
  then have "(of_char c :: nat) = of_char d" by (simp add: unsigned_of_nat take_bit_nat_eq_self)
  then show "c = d" by simp
qed

lemma demo_node_ok:
  "rmpv_ok (nl_rmpv demo_node)" "prost_ok (nl_prost demo_node)" "peer_id_base58_ok (nl_peer demo_node)"
  "bootstrap_addr demo_node demo_addr" "keys_apart demo_node prefix N"
proof -
  show "rmpv_ok (nl_rmpv demo_node)" by (simp add: demo_node_def table_rmpv_ok demo_values_def)
  show "prost_ok (nl_prost demo_node)" by (simp add: demo_node_def prost_ok_def unary_prost_def of_unary_unary)
  show "peer_id_base58_ok (nl_peer demo_node)" by (simp add: demo_node_def raw_ops_ok)
  show "bootstrap_addr demo_node demo_addr"
    by (simp add: bootstrap_addr_def demo_addr_def demo_node_def raw_ops_def second_piece_def)
  have "dht_id demo_node = map (\<lambda>c. word_of_nat (of_char c))" by (auto simp: dht_id_def demo_node_def)
  then show "keys_apart demo_node prefix N" unfolding keys_apart_def by (simp add: inj_on_mapI inj_on_subset [OF char_byte_inj])
qed

lemma demo_version: "version_meets_minimum (''kwaai-'' @ ''0.4.0'')"
  using version_gate [of 0 4 0 "[]"] by (simp add: show_version_def show_nat.simps char_of_def bit_0)

lemma demo_ready: "ready_announcement demo_node (demo_announcement p)"
proof -
  have "an_info (demo_announcement p) = server_info_new True ''0.4.0'' 1 3 ''node'' False (Fin 5) [] None
      (pid_to_base58 (nl_peer demo_node) (an_peer_id (demo_announcement p)))"
    by (simp add: demo_announcement_def demo_info_def demo_node_def)
  moreover have "an_start_block (demo_announcement p) = 1" "an_end_block (demo_announcement p) = 3"
    by (simp_all add: demo_announcement_def)
  ultimately show ?thesis using demo_version unfolding ready_announcement_def by fastforce
qed

lemma demo_time: "f64_lt (Fin 0) (expires (Fin 0))"
  using to_f64_int [of 360] by (simp add: expires_def)

lemma demo_empty: "\<not> ds_storage_poisoned (fst (dht_storage_new [9], 0))" "unexpired clk (fst (dht_storage_new [9], 0))"
  by (simp_all add: dht_storage_new_def unexpired_def)

lemma demo_announce:
  assumes "p \<in> {[1], [2]}"
  shows "\<exists>rep' sl' tn'. announce demo_node (bootstrap_call demo_node (\<lambda>_. Fin 0) (Fin 1)) (\<lambda>_. Fin 0) (\<lambda>_. Fin 0)
     (\<lambda>_. (True, 0)) [demo_addr] (demo_announcement p) None (dht_storage_new [9], 0, w) =
       (rep', (sl', tn', demo_announced (demo_announcement p) w), Inr ())"
proof -
  have "info_value (demo_info 1 3 p) \<in> set demo_values" using assms by (auto simp: demo_values_def)
  then obtain v where v: "server_info_msgpack (table_rmpv demo_values) (demo_info 1 3 p) = Inr v" by (rule table_info)
  obtain m where "model_info_msgpack (table_rmpv demo_values) \<lparr>mi_num_blocks = 4, mi_repository = ''r''\<rparr> = Inr m"
    using table_writes [of "VMap [(VString ''repository'', VString ''r''), (VString ''num_blocks'', VInt 4)]" demo_values]
    by (auto simp: model_info_msgpack_def demo_values_def)
  with v have "snd (snd (announce demo_node (bootstrap_call demo_node (\<lambda>_. Fin 0) (Fin 1)) (\<lambda>_. Fin 0) (\<lambda>_. Fin 0)
     (\<lambda>_. (True, 0)) [demo_addr] (demo_announcement p) None (dht_storage_new [9], 0, w))) = Inr ()"
    by (simp add: announce_def pair_simps demo_announcement_def demo_node_def) (simp add: demo_info_def server_info_new_def)
  then show ?thesis unfolding demo_announced_def by (metis prod.collapse)
qed

theorem announced_node_discovered_witness:
  "announced_entry (demo_announcement [1]) \<in> set (snd (discover_chain demo_node (bootstrap_world demo_node (\<lambda>_. Fin 0)) (\<lambda>_. [7]) (Fin 0)
     [3] ''m'' 4 [demo_addr] (demo_announced (demo_announcement [1]) (dht_storage_new [9], 0))))"
proof -
  let ?a = "demo_announcement [1]"
  obtain rep' sl' tn' where run: "announce demo_node (bootstrap_call demo_node (\<lambda>_. Fin 0) (Fin 1)) (\<lambda>_. Fin 0) (\<lambda>_. Fin 0)
     (\<lambda>_. (True, 0)) [demo_addr] ?a None (dht_storage_new [9], 0, dht_storage_new [9], 0) =
       (rep', (sl', tn', demo_announced ?a (dht_storage_new [9], 0)), Inr ())"
    using demo_announce [of "[1]" "(dht_storage_new [9], 0)"] by auto
  have "announced_entry ?a \<in> set (snd (discover_chain demo_node (bootstrap_world demo_node (\<lambda>_. Fin 0)) (\<lambda>_. [7]) (Fin 0)
     [3] (an_prefix ?a) 4 [demo_addr] (demo_announced ?a (dht_storage_new [9], 0))))"
    by (rule announced_node_discovered [OF demo_node_ok demo_ready _ demo_empty demo_time _ run])
      (simp_all add: demo_announcement_def dht_storage_new_def)
  then show ?thesis by (simp add: demo_announcement_def)
qed

theorem later_announcement_hides_witness:
  "[1] \<notin> be_peer_id ` set (snd (discover_chain demo_node (bootstrap_world demo_node (\<lambda>_. Fin 0)) (\<lambda>_. [7]) (Fin 0) [3] ''m'' 4 [demo_addr]
     (demo_announced (demo_announcement [2]) (demo_announced (demo_announcement [1]) (dht_storage_new [9], 0)))))"
proof -
  let ?a = "demo_announcement [1]" and ?a' = "demo_announcement [2]"
  let ?w1 = "demo_announced ?a (dht_storage_new [9], 0)"
  obtain rep' sl' tn' where run: "announce demo_node (bootstrap_call demo_node (\<lambda>_. Fin 0) (Fin 1)) (\<lambda>_. Fin 0) (\<lambda>_. Fin 0)
     (\<lambda>_. (True, 0)) [demo_addr] ?a None (dht_storage_new [9], 0, dht_storage_new [9], 0) = (rep', (sl', tn', ?w1), Inr ())"
    using demo_announce [of "[1]" "(dht_storage_new [9], 0)"] by auto
  obtain rep2 sl2 tn2 where run2: "announce demo_node (bootstrap_call demo_node (\<lambda>_. Fin 0) (Fin 1)) (\<lambda>_. Fin 0) (\<lambda>_. Fin 0)
     (\<lambda>_. (True, 0)) [demo_addr] ?a' None (dht_storage_new [9], 0, ?w1) = (rep2, (sl2, tn2, demo_announced ?a' ?w1), Inr ())"
    using demo_announce [of "[2]" ?w1] by auto
  have "an_peer_id ?a \<notin> be_peer_id ` set (snd (discover_chain demo_node (bootstrap_world demo_node (\<lambda>_. Fin 0)) (\<lambda>_. [7]) (Fin 0) [3]
     (an_prefix ?a) 4 [demo_addr] (demo_announced ?a' ?w1)))"
    by (rule later_announcement_hides [OF demo_node_ok demo_ready _ demo_ready _ _ _ _ demo_empty demo_time demo_time _ run run2])
      (simp_all add: demo_announcement_def dht_storage_new_def announced_def)
  then show ?thesis by (simp add: demo_announcement_def)
qed

theorem unannounced_node_still_chosen_witness:
  "snd (discover_inference_peer demo_node (bootstrap_world demo_node (\<lambda>_. Fin 0)) (\<lambda>_. [7]) (\<lambda>_. Fin 0) [3] [demo_addr] (Some ''m'') (Some 4)
     (demo_withdrawn (demo_announcement [1]) (demo_announced (demo_announcement [1]) (dht_storage_new [9], 0)))) =
   Some (''p2p://'' @ pid_to_base58 raw_ops [1])"
proof -
  let ?a = "demo_announcement [1]"
  let ?w1 = "demo_announced ?a (dht_storage_new [9], 0)"
  obtain rep' sl' tn' where run: "announce demo_node (bootstrap_call demo_node (\<lambda>_. Fin 0) (Fin 1)) (\<lambda>_. Fin 0) (\<lambda>_. Fin 0)
     (\<lambda>_. (True, 0)) [demo_addr] ?a None (dht_storage_new [9], 0, dht_storage_new [9], 0) = (rep', (sl', tn', ?w1), Inr ())"
    using demo_announce [of "[1]" "(dht_storage_new [9], 0)"] by auto
  obtain sl2 tn2 where run2: "unannounce demo_node (bootstrap_call demo_node (\<lambda>_. Fin 0) (Fin 1)) (\<lambda>_. Fin 0) (\<lambda>_. Fin 0)
     [demo_addr] (an_peer_id ?a) (an_prefix ?a) (an_info ?a) (dht_storage_new [9], 0, ?w1) = (sl2, tn2, demo_withdrawn ?a ?w1)"
    unfolding demo_withdrawn_def by (metis prod.collapse)
  have "snd (discover_inference_peer demo_node (bootstrap_world demo_node (\<lambda>_. Fin 0)) (\<lambda>_. [7]) (\<lambda>_. Fin 0) [3] [demo_addr] (Some ''m'') (Some 4)
     (demo_withdrawn ?a ?w1)) = Some (''p2p://'' @ pid_to_base58 (nl_peer demo_node) (an_peer_id ?a))"
    by (rule unannounced_node_still_chosen [OF demo_node_ok(1-4) demo_node_ok(5) [where N = 4] demo_ready _ demo_empty demo_time demo_time run run2])
      (simp_all add: demo_announcement_def)
  then show ?thesis by (simp add: demo_announcement_def demo_node_def)
qed

theorem malformed_record_panics_witness:
  "\<exists>v. server_info_msgpack (nl_rmpv demo_node) (demo_info 3 1 [1]) = Inr v \<and>
     snd (pick_gap_blocks demo_node (bootstrap_world demo_node (\<lambda>_. Fin 0)) (\<lambda>_. [7]) (\<lambda>_. Fin 0) [3] ''m'' 4 2 [demo_addr]
       (peer_store demo_node (\<lambda>_. Fin 0) (single_store_request (Fin 0) (Fin 360) (block_dht_id demo_node ''m'' 0) [] v \<lparr>node_id = [1]\<rparr>)
          (dht_storage_new [9], 0))) = None"
proof -
  have "info_value (demo_info 3 1 [1]) \<in> set demo_values" by (simp add: demo_values_def)
  then obtain v where v: "server_info_msgpack (nl_rmpv demo_node) (demo_info 3 1 [1]) = Inr v"
    by (rule table_info) (simp add: demo_node_def)
  have info: "demo_info 3 1 [1] = server_info_new True ''0.4.0'' 3 1 ''node'' False (Fin 5) [] None (pid_to_base58 (nl_peer demo_node) [1])"
    by (simp add: demo_info_def demo_node_def)
  have t: "f64_lt (Fin 0) (Fin 360)" by simp
  have "snd (pick_gap_blocks demo_node (bootstrap_world demo_node (\<lambda>_. Fin 0)) (\<lambda>_. [7]) (\<lambda>_. Fin 0) [3] ''m'' 4 2 [demo_addr]
       (peer_store demo_node (\<lambda>_. Fin 0) (single_store_request (Fin 0) (Fin 360) (block_dht_id demo_node ''m'' 0) [] v \<lparr>node_id = [1]\<rparr>)
          (dht_storage_new [9], 0))) = None"
    by (rule malformed_record_panics [OF demo_node_ok(1-4) info demo_version _ _ _ _ v _ _ demo_empty t _ refl])
      (simp_all add: dht_storage_new_def)
  with v show ?thesis by blast
qed

end
