(* ===== verification/Spec2Isabelle.thy ===== *)
theory Spec2Isabelle
  imports Dht_Client Circuit_Breaker Shard_Circuits Generation Credential_Store Storage_Service Shard_Discovery
begin

text \<open>
  KwaaiNet: a peer-to-peer network of nodes that serve a language model together.

  \<^bold>\<open>The program.\<close> A node announces itself in a Hivemind DHT, serves a range of transformer blocks
  of a model, and answers inference requests that other nodes send it. A client discovers the
  block servers, orders them into a path that covers the model, sends the hidden states from hop to
  hop, and samples the next token from the logits of the last hop. Around this path the program
  keeps a reputation of peers, a circuit breaker, verifiable credentials of peers, and a storage
  service for vectors of tenants. All sources below are under \<open>src/core/crates/\<close>.

  \<^bold>\<open>Conventions.\<close> A Rust \<open>struct\<close> is a record, an \<open>enum\<close> a datatype, a fixed-width integer a word, a
  \<open>usize\<close> that only counts a natural number. A \<open>Result\<close> is a sum with the error on the left; a
  panic is \<open>None\<close>; a poisoned lock is a flag of the state. A \<open>HashMap\<close> is an association list with
  distinct keys, so that the iteration order of a program run is the order of the list and the
  theorems hold for every order. An \<open>f64\<close> or \<open>f32\<close> is NaN, an infinity or a rational number, and
  every operation rounds to the nearest representable value with ties to even, so overflow,
  absorption and NaN comparisons are those of the hardware; the sign of zero is the only thing
  forgotten. A reading of the clock is a function of the number of readings made, a random number an
  argument, and a call to another peer a function on an abstract world that the theorems quantify
  over or instantiate by the modelled server.
  Code outside the repository (MessagePack, protobuf, JSON, SHA-1, base58, signatures, the embedded
  database, the HNSW graph, tensors, \<open>exp\<close> and \<open>pow\<close>) is a record of functions passed to the
  definitions. What a theorem needs of it is a hypothesis of the theorem, such as \<open>rpc_codec_ok\<close>,
  \<open>f16_lossless\<close> or \<open>redb_ok\<close>, and the witness of the theorem discharges it for concrete functions.

  \<^bold>\<open>Foundation.\<close>
  \<^item> \<open>Kwaai_Prelude\<close>: word and byte types, hash maps, results, strings, byte orders.
    The locale \<open>hash_map\<close> states the laws of a map and is interpreted on the association lists.
  \<^item> \<open>Rust_Float\<close>, \<open>Rust_Float_Ops\<close>: binary64 and binary32 arithmetic, square root, rounding and
    conversion. The locale \<open>float_format\<close> gives monotonicity and bounds of rounding once for both
    formats.
  \<^item> \<open>Rust_Order\<close>: \<open>Ordering\<close>, the stable \<open>sort_by\<close>, \<open>max_by_key\<close>; the locale of total comparisons is
    interpreted on the orders the program sorts by.

  \<^bold>\<open>Hivemind DHT\<close> (\<open>kwaai-hivemind-dht\<close>).
  \<^item> \<open>Dht_Protocol\<close> (\<open>protocol.rs\<close>, \<open>value.rs\<close>, \<open>error.rs\<close>): messages and values.
  \<^item> \<open>Dht_Codec\<close> (\<open>codec.rs\<close>): marker, length prefix and the stream reader. Requests and responses
    interpret one locale of framed codecs: a stream of messages reads back in order, and the limit
    of the reader is shown.
  \<^item> \<open>Dht_Server\<close> (\<open>server.rs\<close>): the table of values, the handlers for PING, STORE and FIND, the
    clean-up and the statistics. Every reachable table has one entry per key, and every entry
    comes from a STORE request and was unexpired when it was stored; FIND returns the last STORE until it expires; the clean-up cannot be observed.
  \<^item> \<open>Dht_Client\<close> (\<open>client.rs\<close>): storing, getting, the pending table. What one client stores
    another reads, through the handlers of the server.

  \<^bold>\<open>Daemon client\<close> (\<open>kwaai-p2p-daemon\<close>). The program talks to a libp2p daemon over sockets.
  \<^item> \<open>P2p_Framing\<close> (\<open>stream.rs\<close>, \<open>error.rs\<close>, \<open>p2pd.proto\<close>): the messages and the length-prefixed frames. The
    four readers of the code interpret the locale of framed codecs of \<open>Dht_Codec\<close>.
  \<^item> \<open>P2p_Persistent\<close> (\<open>persistent.rs\<close>): the connection that several calls share. Callers, the reader task
    and the tasks of the handlers are interleaved as events, with writes that fail and handlers that panic.
    Every response reaches its own call, each request is answered at most once and those without an
    answer are accounted for, closing answers every pending call, and a later call whose request is
    written waits forever.
  \<^item> \<open>P2p_Client\<close> (\<open>client.rs\<close>, \<open>dht.rs\<close>): connecting, the request cycle, every request, and what an error
    leaves on the socket.

  \<^bold>\<open>Announcing and discovering\<close> (\<open>kwaai-cli\<close>).
  \<^item> \<open>Node_Dht\<close> (\<open>node.rs\<close>): the announced records, \<open>announce\<close>, \<open>unannounce\<close>, the handler of forwarded DHT
    streams, the address filters. A forwarded stream is handled as the request it carries.
  \<^item> \<open>Shard_Discovery\<close> (\<open>shard_cmd.rs\<close>): \<open>discover_chain\<close>, \<open>discover_inference_peer\<close>, \<open>pick_gap_blocks\<close> and the
    decoding of records. With \<open>Dht_Server\<close> as the bootstrap peer, an announced node is discovered with
    its range; a later announcement of the same blocks hides it; \<open>unannounce\<close> leaves it among the
    inference nodes; a malformed record stops others.

  \<^bold>\<open>Choice of peers\<close> (\<open>kwaai-cli\<close>).
  \<^item> \<open>Circuit_Breaker\<close> (\<open>circuit_breaker.rs\<close>): the three states of a peer; histories that mix peers
    refine the documented automaton per peer, but for the number of probes that are admitted.
  \<^item> \<open>Reputation\<close> (\<open>reputation.rs\<close>): the ring of observations, score, tiers, ranking.
  \<^item> \<open>Shard_Chain\<close> (\<open>rebalancer.rs\<close> and the path functions of \<open>shard_cmd.rs\<close>): the pinned path covers
    the model and is as short as possible; choosing a gap and rebalancing.
  \<^item> \<open>Shard_Circuits\<close> (\<open>shard_cmd.rs\<close>): version gate, block counts, and saved circuits with expiry.

  \<^bold>\<open>Distributed inference.\<close>
  \<^item> \<open>Block_Rpc\<close> (\<open>kwaai-inference/src/shard.rs\<close>, \<open>kwaai-cli/src/block_rpc.rs\<close>): sessions and
    key-value caches of one server, its request handler and the client call with its retries.
  \<^item> \<open>Shard_Forward\<close> (\<open>forward_through_chain\<close> of \<open>shard_cmd.rs\<close>): the order of candidates, the local
    bypass, the blacklist. The loop ends because every hop moves the position forward.
  \<^item> \<open>Shard_Pipeline\<close>: the forward loop over a cluster of modelled servers computes, step by step, what
    one node with the whole model computes, and leaves the same caches.
  \<^item> \<open>Sampling\<close> (\<open>sample_token\<close>, \<open>rand_f32\<close>): greedy choice, top-k, nucleus.
  \<^item> \<open>Generation\<close> (\<open>shard_cmd.rs\<close>): the generation loops with failover and the protocol of the local
    server; distributed generation gives the tokens of a single node and is bounded by the limit.

  \<^bold>\<open>Trust\<close> (\<open>kwaai-trust\<close>, \<open>kwaai-cli/src/identity.rs\<close>).
  \<^item> \<open>Credentials\<close> (\<open>credential.rs\<close>, \<open>did.rs\<close>, \<open>verify.rs\<close>): what is signed verifies, and a credential
    that verifies after any change outside its proof is a forgery of the signature scheme.
  \<^item> \<open>Credential_Store\<close> (\<open>storage.rs\<close>, \<open>trust_score.rs\<close>): the directory of credentials, with
    writes that fail, and the score.

  \<^bold>\<open>Storage service\<close> (\<open>kwaai-storage\<close>, \<open>kwaai-cli/src/storage_rpc.rs\<close>).
  \<^item> \<open>Vector_Index\<close> (\<open>TenantIndex\<close> of \<open>db.rs\<close>): slots with tombstones, exact search, graph search.
  \<^item> \<open>Storage_Db\<close> (\<open>db.rs\<close>, \<open>tenant.rs\<close>, \<open>vectors.rs\<close>): tenants, vectors, rebuilding on start. A
    database error is an argument of every operation, reads included.
  \<^item> \<open>Storage_Refinement\<close>: every history of operations, restarts and database errors refines a map
    from tenants to documents to vectors.
  \<^item> \<open>Storage_Service\<close> (\<open>api.rs\<close>, \<open>storage_rpc.rs\<close>): the REST handlers and the peer-to-peer dispatcher
    with its quota; every client call is the direct operation after the capacity checks.

  \<^bold>\<open>Termination and bounds.\<close> No definition uses fuel. The forward loop and the pinned path terminate
  because a chosen server ends behind the position; the generation loops terminate because the
  number of tokens is bounded by \<open>max_tokens\<close>; retry loops run over lists of delays.

  \<^bold>\<open>Not modelled.\<close> Argument parsing, printing, process control and HTTP clients of the command line;
  the event loop of a running node with its timers and restarts; the Go daemon itself; the retrieval pipelines, whose results are
  those of language models and SQL; training support (averaging, experts, compression), which no
  command uses; the tensor computations and model files of the inference engine; the map and summit
  web services and the browser bindings. Where modelled code calls one of them, the call is a
  parameter. Panics inside libraries (the graph, the tensors, a sort with an inconsistent comparison), memory
  that runs out, and a caller that abandons its call are left out.
\<close>

end
